(* ===== verification/Kernel_Prelude.thy ===== *)
theory Kernel_Prelude
  imports Main "HOL-Library.Word"
begin

text \<open>
  Shared vocabulary of the development: the machine integer types of \<open>libc/include/sys/cdefs.h\<close>,
  the ways a kernel routine can fail to return normally, sequencing of routines that may fail, and
  the generic facts on words that every component uses.
\<close>

unbundle bit_operations_syntax

named_theorems kernel_defs \<open>definitions of the model that proofs by evaluation unfold\<close>
named_theorems word_facts \<open>unat images of the address arithmetic\<close>

section \<open>Machine integers\<close>

type_synonym u8 = "8 word"
type_synonym u16 = "16 word"
type_synonym u32 = "32 word"
type_synonym u64 = "64 word"

text \<open>A pointer is the 64-bit address it holds; the null pointer is 0.\<close>

type_synonym ptr = u64

abbreviation (input) NULL :: ptr where
  "NULL \<equiv> 0"

section \<open>Abnormal outcomes\<close>

text \<open>
  \<open>Panic m\<close>: the routine called \<open>panic(m)\<close>, which logs and loops for ever.
  \<open>NullDeref\<close>: a null pointer was dereferenced. \<open>DivideError\<close>: a division by zero trapped.
  \<open>Undefined\<close>: the C standard leaves the behaviour open.
  \<open>Spinning\<close>: a busy-wait on a lock that nobody else is going to release in a sequential run.
  \<open>Diverges\<close>: the loop was still running when the number of turns the model allows was used up;
  each component proves under which conditions this outcome cannot occur.
\<close>

datatype kerror = Panic string | NullDeref | DivideError | Undefined | Spinning | Diverges

type_synonym 'a res = "kerror + 'a"

definition bind_res :: "'a res \<Rightarrow> ('a \<Rightarrow> 'b res) \<Rightarrow> 'b res" where
  "bind_res m f = (case m of Inl e \<Rightarrow> Inl e | Inr x \<Rightarrow> f x)"

lemma bind_res_simps [simp]:
  "bind_res (Inl e) f = Inl e"
  "bind_res (Inr x) f = f x"
  by (simp_all add: bind_res_def)

lemma bind_res_Inr_iff:
  "bind_res m f = Inr y \<longleftrightarrow> (\<exists>x. m = Inr x \<and> f x = Inr y)"
  by (cases m) auto

lemma bind_res_assoc:
  "bind_res (bind_res m f) g = bind_res m (\<lambda>x. bind_res (f x) g)"
  by (cases m) simp_all

lemma bind_res_cong [fundef_cong]:
  "m = m' \<Longrightarrow> (\<And>x. m' = Inr x \<Longrightarrow> f x = g x) \<Longrightarrow> bind_res m f = bind_res m' g"
  by (cases m') simp_all

text \<open>A loop that runs a body that may fail for each element in turn.\<close>

fun iter_res :: "('a \<Rightarrow> 's \<Rightarrow> 's res) \<Rightarrow> 'a list \<Rightarrow> 's \<Rightarrow> 's res" where
  "iter_res f [] s = Inr s"
| "iter_res f (x # xs) s = bind_res (f x s) (iter_res f xs)"

lemma iter_res_append: "iter_res f (xs @ ys) s = bind_res (iter_res f xs s) (iter_res f ys)"
  by (induction xs arbitrary: s) (auto simp: bind_res_def split: sum.splits)

section \<open>Generic facts on words\<close>

lemma unat_u64_less: "unat (a::u64) < 18446744073709551616"
  using unsigned_less [of a, where ?'a = nat] by simp

lemma unat_of_nat_u64 [simp]: "i < 18446744073709551616 \<Longrightarrow> unat (of_nat i :: u64) = i"
  by (simp add: unsigned_of_nat take_bit_nat_eq_self)

lemma of_nat_unat_u64 [simp]: "of_nat (unat w) = (w :: u64)"
  by (simp add: word_unat_eq_iff)

lemma add_of_nat_eq_iff:
  "i < 18446744073709551616 \<Longrightarrow> j < 18446744073709551616 \<Longrightarrow>
   p + of_nat i = (p :: u64) + of_nat j \<longleftrightarrow> i = j"
  by (metis add_left_cancel unat_of_nat_u64)

lemma offset_eq_iff:
  assumes "i < 18446744073709551616"
  shows "a = p + of_nat i \<longleftrightarrow> unat (a - p :: u64) = i"
proof
  assume "a = p + of_nat i"
  then show "unat (a - p) = i" using assms by simp
next
  assume "unat (a - p) = i"
  then have "a - p = of_nat i" by (metis of_nat_unat_u64)
  then show "a = p + of_nat i" by (metis diff_add_cancel add.commute)
qed

lemma unat_le_add_iff:
  "unat (a::'a::len word) + unat b < 2 ^ LENGTH('a) \<Longrightarrow> unat (a + b) = unat a + unat b"
  by (simp add: unat_word_ariths)

lemma word_range_sub:
  "(k::u64) \<le> n \<Longrightarrow> q - k < n - k \<longleftrightarrow> k \<le> q \<and> q < n"
  by unat_arith

lemma unat_succ_if_less: "(p::u64) < q \<Longrightarrow> unat (p + 1) = Suc (unat p)"
  by unat_arith

lemma unat_pred_if_less: "(p::u64) < q \<Longrightarrow> unat (q - 1) = unat q - 1"
  by unat_arith

lemma unat_sub_mod [word_facts]:
  "unat ((a::'a::len word) - a mod s) = unat a - unat a mod unat s"
proof -
  have "a mod s \<le> a"
    by (simp add: word_le_nat_alt unat_mod)
  then show ?thesis
    by (simp add: unat_sub unat_mod)
qed

lemma unat_ucast_up: "LENGTH('a) \<le> LENGTH('b) \<Longrightarrow> unat (ucast (w :: 'a::len word) :: 'b::len word) = unat w"
proof -
  assume "LENGTH('a) \<le> LENGTH('b)"
  then have "(2::nat) ^ LENGTH('a) \<le> 2 ^ LENGTH('b)" by simp
  then have "unat w < 2 ^ LENGTH('b)" using unsigned_less [of w, where ?'a = nat] by (rule less_le_trans [rotated])
  then show ?thesis by (simp add: unsigned_ucast_eq unsigned_take_bit_eq take_bit_nat_eq_self)
qed

lemma not_bit_if_unat_less:
  assumes "unat (w::'a::len word) < 2 ^ k" "k \<le> n"
  shows "\<not> bit w n"
proof -
  have "take_bit k w = w"
    using assms(1) by (simp add: word_unat_eq_iff unsigned_take_bit_eq take_bit_nat_eq_self)
  then have "bit w n = bit (take_bit k w) n"
    by simp
  then show ?thesis
    using assms(2) by (simp add: bit_take_bit_iff)
qed

section \<open>Bit fields\<close>

text \<open>The bit field of \<open>n\<close> bits from bit \<open>lo\<close> on, as C structures declare them for device registers.\<close>

definition get_field :: "nat \<Rightarrow> nat \<Rightarrow> 'w::len word \<Rightarrow> 'w word" where
  "get_field lo n w = take_bit n (drop_bit lo w)"

definition put_field :: "nat \<Rightarrow> nat \<Rightarrow> 'w::len word \<Rightarrow> 'w word \<Rightarrow> 'w word" where
  "put_field lo n v w = (w AND NOT (push_bit lo (mask n))) OR push_bit lo (take_bit n v)"

lemma bit_put_field:
  "bit (put_field lo n v w :: 'w::len word) i \<longleftrightarrow>
     (if lo \<le> i \<and> i < lo + n then i < LENGTH('w) \<and> bit v (i - lo) else bit w i)"
  by (auto simp: put_field_def bit_simps dest: bit_imp_le_length)

lemma get_put_same:
  assumes "lo + n \<le> LENGTH('w)"
  shows "get_field lo n (put_field lo n v w) = (take_bit n v :: 'w::len word)"
  by (rule bit_word_eqI) (use assms in \<open>auto simp: get_field_def bit_simps bit_put_field\<close>)

lemma get_put_other:
  assumes "lo + n \<le> lo' \<or> lo' + n' \<le> lo"
  shows "get_field lo' n' (put_field lo n v w) = get_field lo' n' (w :: 'w::len word)"
  by (rule bit_word_eqI) (use assms in \<open>auto simp: get_field_def bit_simps bit_put_field\<close>)

end
