(* ===== verification/Spinlock.thy ===== *)
theory Spinlock
  imports Kernel_Prelude
begin

text \<open>
  The CPU table of \<open>kernel/kernel.c\<close> (\<open>get_cpu\<close>, \<open>push_off\<close>, \<open>pop_off\<close>) and the spin locks of
  \<open>kernel/synchronization/spinlock.c\<close>. The sequential operations are the ones every other component
  calls. Because a lock is about several CPUs, the same code is also given as a small-step relation
  in which any number of CPUs run \<open>acquire\<close> and \<open>release\<close> on one lock, one shared-memory access per step.
\<close>

section \<open>State\<close>

record cpu_status =
  cpu_status_id :: u32
  push_off_count :: u32
  int_on :: u8
  cpu_thread :: ptr
  cpu_vmm :: ptr

record spinlock =
  held :: u8
  lock_cpu_id :: u32
  lock_name :: ptr

text \<open>
  \<open>apic_id\<close> is what the local APIC of the running CPU reports; \<open>eflags_if\<close> is that CPU's interrupt flag,
  written by \<open>cli\<close> and \<open>sti\<close>. \<open>spinlocks\<close> holds every lock object by its address.
\<close>

record sync_state =
  apic_id :: u32
  cpu_status_of :: "u32 \<Rightarrow> cpu_status"
  eflags_if :: bool
  spinlocks :: "ptr \<Rightarrow> spinlock"

section \<open>Sequential operations\<close>

text \<open>\<open>get_cpu\<close> repairs the \<open>id\<close> field of the entry it returns; the entry is named by its index.\<close>

definition get_cpu :: "'a sync_state_scheme \<Rightarrow> u32 \<times> 'a sync_state_scheme" where
  "get_cpu s =
     (let i = apic_id s; c = cpu_status_of s i
      in (i, if cpu_status_id c \<noteq> i
             then s\<lparr>cpu_status_of := (cpu_status_of s)(i := c\<lparr>cpu_status_id := i\<rparr>)\<rparr> else s))"

definition update_cpu :: "u32 \<Rightarrow> (cpu_status \<Rightarrow> cpu_status) \<Rightarrow> 'a sync_state_scheme \<Rightarrow> 'a sync_state_scheme"
  where "update_cpu i f s = s\<lparr>cpu_status_of := (cpu_status_of s)(i := f (cpu_status_of s i))\<rparr>"

definition push_off :: "'a sync_state_scheme \<Rightarrow> 'a sync_state_scheme" where
  "push_off s =
     (let (cpu, s) = get_cpu s;
          s = (if int_on (cpu_status_of s cpu) \<noteq> 0
               then (update_cpu cpu (\<lambda>c. c\<lparr>int_on := 0\<rparr>) s)\<lparr>eflags_if := False\<rparr> else s)
      in update_cpu cpu (\<lambda>c. c\<lparr>push_off_count := push_off_count c + 1\<rparr>) s)"

definition pop_off :: "'a sync_state_scheme \<Rightarrow> 'a sync_state_scheme res" where
  "pop_off s =
     (let (cpu, s) = get_cpu s
      in if int_on (cpu_status_of s cpu) \<noteq> 0 then Inl (Panic ''pop_off: cpu interrupt already on'')
         else let s = update_cpu cpu (\<lambda>c. c\<lparr>push_off_count := push_off_count c - 1\<rparr>) s
              in if push_off_count (cpu_status_of s cpu) = 0
                 then Inr ((update_cpu cpu (\<lambda>c. c\<lparr>int_on := 1\<rparr>) s)\<lparr>eflags_if := True\<rparr>)
                 else Inr s)"

definition holding :: "ptr \<Rightarrow> 'a sync_state_scheme \<Rightarrow> bool \<times> 'a sync_state_scheme" where
  "holding l s =
     (if held (spinlocks s l) = 0 then (False, s)
      else let (cpu, s) = get_cpu s
           in (lock_cpu_id (spinlocks s l) = cpu_status_id (cpu_status_of s cpu), s))"

text \<open>
  In a run of one CPU a lock that is found held by another CPU stays held, so the test-and-set loop
  does not end: that outcome is \<^const>\<open>Spinning\<close>. The messages \<open>acquire\<close> logs are left out.
\<close>

definition acquire :: "ptr \<Rightarrow> 'a sync_state_scheme \<Rightarrow> 'a sync_state_scheme res" where
  "acquire l s =
     (let s = push_off s
      in if l = NULL then Inl NullDeref
         else let (h, s) = holding l s
              in if h then Inl (Panic ''acquire'')
                 else if held (spinlocks s l) \<noteq> 0 then Inl Spinning
                 else let s = s\<lparr>spinlocks := (spinlocks s)(l := (spinlocks s l)\<lparr>held := 1\<rparr>)\<rparr>;
                          (cpu, s) = get_cpu s
                      in Inr (s\<lparr>spinlocks := (spinlocks s)(l := (spinlocks s l)
                            \<lparr>lock_cpu_id := cpu_status_id (cpu_status_of s cpu)\<rparr>)\<rparr>))"

definition release :: "ptr \<Rightarrow> 'a sync_state_scheme \<Rightarrow> 'a sync_state_scheme res" where
  "release l s =
     (if l = NULL then Inl NullDeref
      else pop_off (s\<lparr>spinlocks := (spinlocks s)(l := (spinlocks s l)\<lparr>lock_cpu_id := 0, held := 0\<rparr>)\<rparr>))"

lemmas sync_defs = get_cpu_def update_cpu_def push_off_def pop_off_def holding_def
  acquire_def release_def

section \<open>One CPU\<close>

text \<open>
  The state after \<open>get_cpu\<close>, after \<open>acquire\<close> of a free lock and after the matching \<open>release\<close>, written
  as record updates, so that clients see at once that nothing but the locking state moves.
\<close>

definition this_cpu :: "'a sync_state_scheme \<Rightarrow> cpu_status" where
  "this_cpu s = (cpu_status_of s (apic_id s))\<lparr>cpu_status_id := apic_id s\<rparr>"

definition locked :: "ptr \<Rightarrow> 'a sync_state_scheme \<Rightarrow> 'a sync_state_scheme" where
  "locked l s = s
     \<lparr>cpu_status_of := (cpu_status_of s)(apic_id s := (this_cpu s)
        \<lparr>int_on := 0, push_off_count := push_off_count (this_cpu s) + 1\<rparr>),
      eflags_if := eflags_if s \<and> int_on (this_cpu s) = 0,
      spinlocks := (spinlocks s)(l := (spinlocks s l)\<lparr>held := 1, lock_cpu_id := apic_id s\<rparr>)\<rparr>"

definition unlocked :: "ptr \<Rightarrow> 'a sync_state_scheme \<Rightarrow> 'a sync_state_scheme" where
  "unlocked l s =
     (let n = push_off_count (this_cpu s) - 1
      in s\<lparr>cpu_status_of := (cpu_status_of s)(apic_id s := (this_cpu s)
             \<lparr>int_on := if n = 0 then 1 else 0, push_off_count := n\<rparr>),
           eflags_if := eflags_if s \<or> n = 0,
           spinlocks := (spinlocks s)(l := (spinlocks s l)\<lparr>held := 0, lock_cpu_id := 0\<rparr>)\<rparr>)"

lemma get_cpu_eq:
  "get_cpu s = (apic_id s, s\<lparr>cpu_status_of := (cpu_status_of s)(apic_id s := this_cpu s)\<rparr>)"
proof (cases "cpu_status_id (cpu_status_of s (apic_id s)) = apic_id s")
  case True
  then have "this_cpu s = cpu_status_of s (apic_id s)"
    by (simp add: this_cpu_def)
  with True show ?thesis by (simp add: get_cpu_def)
qed (simp add: get_cpu_def this_cpu_def Let_def)

lemma this_cpu_id [simp]: "cpu_status_id (this_cpu s) = apic_id s"
  by (simp add: this_cpu_def)

lemma push_off_eq:
  "push_off s = s\<lparr>cpu_status_of := (cpu_status_of s)(apic_id s := (this_cpu s)
       \<lparr>int_on := 0, push_off_count := push_off_count (this_cpu s) + 1\<rparr>),
     eflags_if := eflags_if s \<and> int_on (this_cpu s) = 0\<rparr>"
  by (cases s) (auto intro!: ext cpu_status.equality simp: push_off_def get_cpu_eq update_cpu_def Let_def)

lemma acquire_free:
  assumes "l \<noteq> NULL" "held (spinlocks s l) = 0"
  shows "acquire l s = Inr (locked l s)"
  using assms
  by (cases s) (auto intro!: ext cpu_status.equality spinlock.equality
      simp: acquire_def push_off_eq holding_def get_cpu_eq Let_def locked_def this_cpu_def)

lemma acquire_held:
  assumes "l \<noteq> NULL" "held (spinlocks s l) \<noteq> 0"
  shows "acquire l s = Inl (if lock_cpu_id (spinlocks s l) = apic_id s then Panic ''acquire'' else Spinning)"
  using assms
  by (simp add: acquire_def push_off_eq holding_def get_cpu_eq Let_def this_cpu_def)

lemma release_locked:
  assumes "l \<noteq> NULL" "int_on (this_cpu s) = 0"
  shows "release l s = Inr (unlocked l s)"
  using assms
  by (cases s) (auto intro!: ext cpu_status.equality spinlock.equality
      simp: release_def pop_off_def get_cpu_eq update_cpu_def Let_def unlocked_def this_cpu_def)

lemma int_on_locked [simp]: "int_on (this_cpu (locked l s)) = 0"
  by (simp add: locked_def this_cpu_def)

text \<open>
  C20: on one CPU, \<open>acquire\<close> of a free lock followed by \<open>release\<close> always returns, leaves the lock free, and
  restores the interrupt state: if the nesting count was 0 interrupts are on afterwards, otherwise
  they are off; the count is what it was. Acquiring the same lock again in between panics.
\<close>

theorem acquire_release:
  assumes "l \<noteq> NULL" "held (spinlocks s l) = 0"
    and "eflags_if s \<Longrightarrow> int_on (this_cpu s) \<noteq> 0"
  shows "\<exists>s1 s2. acquire l s = Inr s1 \<and> acquire l s1 = Inl (Panic ''acquire'') \<and> \<not> eflags_if s1
    \<and> release l s1 = Inr s2 \<and> held (spinlocks s2 l) = 0
    \<and> push_off_count (this_cpu s2) = push_off_count (this_cpu s)
    \<and> (int_on (this_cpu s2) \<noteq> 0 \<longleftrightarrow> push_off_count (this_cpu s) = 0)"
proof (intro exI conjI)
  show "acquire l s = Inr (locked l s)"
    using assms(1,2) by (rule acquire_free)
  show "acquire l (locked l s) = Inl (Panic ''acquire'')"
    by (simp add: acquire_held [OF assms(1)] locked_def)
  show "\<not> eflags_if (locked l s)"
    using assms(3) by (auto simp: locked_def)
  show "release l (locked l s) = Inr (unlocked l (locked l s))"
    using assms(1) by (simp add: release_locked)
qed (simp_all add: unlocked_def locked_def this_cpu_def Let_def)

theorem acquire_release_witness:
  "\<exists>s s1 s2. acquire 0x1000 (s :: sync_state) = Inr s1 \<and> acquire 0x1000 s1 = Inl (Panic ''acquire'')
    \<and> release 0x1000 s1 = Inr s2 \<and> int_on (this_cpu s2) \<noteq> 0"
proof -
  let ?c = "\<lparr>cpu_status_id = 0, push_off_count = 0, int_on = 1, cpu_thread = 0, cpu_vmm = 0\<rparr>"
  let ?s = "\<lparr>apic_id = 0, cpu_status_of = \<lambda>_. ?c, eflags_if = True,
      spinlocks = \<lambda>_. \<lparr>held = 0, lock_cpu_id = 0, lock_name = 0\<rparr>\<rparr>"
  have "int_on (this_cpu ?s) \<noteq> 0" "push_off_count (this_cpu ?s) = 0"
    by (simp_all add: this_cpu_def)
  then show ?thesis
    using acquire_release [of "0x1000" ?s] by auto
qed

section \<open>Several CPUs\<close>

text \<open>
  Where a CPU stands in \<open>acquire\<close> and \<open>release\<close>. \<open>CheckHeld\<close> and \<open>CheckOwner\<close> are the two reads of
  \<open>holding\<close>, \<open>TestAndSet\<close> the spin loop, \<open>SetOwner\<close> the write of \<open>cpu_id\<close> after the loop; \<open>ClearHeld\<close> and
  \<open>PopOff\<close> the two steps of \<open>release\<close> that follow its write of \<open>cpu_id\<close>. \<open>Panicked\<close> never moves again.
\<close>

datatype pc = Outside | CheckHeld | CheckOwner | TestAndSet | SetOwner | Critical | ClearHeld | PopOff
  | Panicked

record mp_state =
  mp_lock :: spinlock
  mp_cpu :: "u32 \<Rightarrow> cpu_status"
  mp_pc :: "u32 \<Rightarrow> pc"

definition push_off_cpu :: "cpu_status \<Rightarrow> cpu_status" where
  "push_off_cpu c = c\<lparr>int_on := 0, push_off_count := push_off_count c + 1\<rparr>"

definition pop_off_cpu :: "cpu_status \<Rightarrow> cpu_status" where
  "pop_off_cpu c =
     (let n = push_off_count c - 1 in c\<lparr>push_off_count := n, int_on := if n = 0 then 1 else int_on c\<rparr>)"

inductive mp_step :: "mp_state \<Rightarrow> mp_state \<Rightarrow> bool" where
  step_enter: "mp_pc s i = Outside \<Longrightarrow>
    mp_step s (s\<lparr>mp_cpu := (mp_cpu s)(i := push_off_cpu (mp_cpu s i)), mp_pc := (mp_pc s)(i := CheckHeld)\<rparr>)"
| step_check_held: "mp_pc s i = CheckHeld \<Longrightarrow>
    mp_step s (s\<lparr>mp_pc := (mp_pc s)(i := if held (mp_lock s) = 0 then TestAndSet else CheckOwner)\<rparr>)"
| step_check_owner: "mp_pc s i = CheckOwner \<Longrightarrow>
    mp_step s (s\<lparr>mp_pc := (mp_pc s)(i := if lock_cpu_id (mp_lock s) = i then Panicked else TestAndSet)\<rparr>)"
| step_spin: "mp_pc s i = TestAndSet \<Longrightarrow> held (mp_lock s) \<noteq> 0 \<Longrightarrow> mp_step s s"
| step_take: "mp_pc s i = TestAndSet \<Longrightarrow> held (mp_lock s) = 0 \<Longrightarrow>
    mp_step s (s\<lparr>mp_lock := (mp_lock s)\<lparr>held := 1\<rparr>, mp_pc := (mp_pc s)(i := SetOwner)\<rparr>)"
| step_set_owner: "mp_pc s i = SetOwner \<Longrightarrow>
    mp_step s (s\<lparr>mp_lock := (mp_lock s)\<lparr>lock_cpu_id := i\<rparr>, mp_pc := (mp_pc s)(i := Critical)\<rparr>)"
| step_clear_owner: "mp_pc s i = Critical \<Longrightarrow>
    mp_step s (s\<lparr>mp_lock := (mp_lock s)\<lparr>lock_cpu_id := 0\<rparr>, mp_pc := (mp_pc s)(i := ClearHeld)\<rparr>)"
| step_clear_held: "mp_pc s i = ClearHeld \<Longrightarrow>
    mp_step s (s\<lparr>mp_lock := (mp_lock s)\<lparr>held := 0\<rparr>, mp_pc := (mp_pc s)(i := PopOff)\<rparr>)"
| step_pop_off: "mp_pc s i = PopOff \<Longrightarrow>
    mp_step s (if int_on (mp_cpu s i) \<noteq> 0 then s\<lparr>mp_pc := (mp_pc s)(i := Panicked)\<rparr>
      else s\<lparr>mp_cpu := (mp_cpu s)(i := pop_off_cpu (mp_cpu s i)), mp_pc := (mp_pc s)(i := Outside)\<rparr>)"

definition mp_init :: "mp_state \<Rightarrow> bool" where
  "mp_init s \<longleftrightarrow> held (mp_lock s) = 0 \<and> lock_cpu_id (mp_lock s) = 0
     \<and> (\<forall>i. mp_pc s i = Outside \<and> push_off_count (mp_cpu s i) = 0)"

inductive mp_reach :: "mp_state \<Rightarrow> bool" where
  reach_init: "mp_init s \<Longrightarrow> mp_reach s"
| reach_step: "mp_reach s \<Longrightarrow> mp_step s s' \<Longrightarrow> mp_reach s'"

definition in_cs :: "pc \<Rightarrow> bool" where
  "in_cs p \<longleftrightarrow> p = SetOwner \<or> p = Critical \<or> p = ClearHeld"

text \<open>
  The invariant. \<open>holder_inv h s\<close>: if \<open>h\<close> is \<open>None\<close> the lock is free and no CPU is between its
  test-and-set and the clearing of the flag; if it is \<open>Some j\<close>, then \<open>j\<close> is the only such CPU, and the
  owner field names it during its critical section and is 0 before and after. \<open>cpu_inv\<close>: a CPU has
  interrupts off from \<open>push_off\<close> until \<open>pop_off\<close>, and only CPU 0 can have panicked.
\<close>

definition holder_inv :: "u32 option \<Rightarrow> mp_state \<Rightarrow> bool" where
  "holder_inv h s =
     (case h of
        None \<Rightarrow> held (mp_lock s) = 0 \<and> lock_cpu_id (mp_lock s) = 0 \<and> (\<forall>i. \<not> in_cs (mp_pc s i))
      | Some j \<Rightarrow> held (mp_lock s) \<noteq> 0 \<and> in_cs (mp_pc s j) \<and> (\<forall>i. i \<noteq> j \<longrightarrow> \<not> in_cs (mp_pc s i))
          \<and> lock_cpu_id (mp_lock s) = (if mp_pc s j = Critical then j else 0))"

definition cpu_inv :: "u32 \<Rightarrow> pc \<Rightarrow> cpu_status \<Rightarrow> bool" where
  "cpu_inv i p c \<longleftrightarrow>
     (if p = Outside then push_off_count c = 0 else int_on c = 0 \<and> push_off_count c = 1)
     \<and> (p = Panicked \<longrightarrow> i = 0)"

definition mutex_inv :: "mp_state \<Rightarrow> bool" where
  "mutex_inv s \<longleftrightarrow> (\<exists>h. holder_inv h s) \<and> (\<forall>i. cpu_inv i (mp_pc s i) (mp_cpu s i))"

lemma mutex_inv_init: "mp_init s \<Longrightarrow> mutex_inv s"
  by (auto simp: mp_init_def mutex_inv_def holder_inv_def cpu_inv_def in_cs_def intro!: exI [of _ None])

lemma holder_is: "holder_inv h s \<Longrightarrow> in_cs (mp_pc s i) \<Longrightarrow> h = Some i"
  by (cases h) (simp_all add: holder_inv_def, metis)

lemma holder_inv_step:
  assumes "mp_step s s'" "holder_inv h s"
  shows "\<exists>h. holder_inv h s'"
  using assms(1)
proof (cases rule: mp_step.cases)
  case (step_take i)
  with assms(2) show ?thesis
    by (intro exI [of _ "Some i"]) (simp add: holder_inv_def in_cs_def split: option.splits)
next
  case (step_set_owner i)
  with assms(2) holder_is [of h s i] show ?thesis
    by (intro exI [of _ h]) (simp add: holder_inv_def in_cs_def)
next
  case (step_clear_owner i)
  with assms(2) holder_is [of h s i] show ?thesis
    by (intro exI [of _ h]) (simp add: holder_inv_def in_cs_def)
next
  case (step_clear_held i)
  with assms(2) holder_is [of h s i] show ?thesis
    by (intro exI [of _ None]) (simp add: holder_inv_def in_cs_def)
qed (rule exI [of _ h], use assms(2) in \<open>auto simp: holder_inv_def in_cs_def
  split: option.splits if_splits\<close>)+

lemma cpu_inv_step:
  assumes "mp_step s s'" "holder_inv h s" "\<And>i. cpu_inv i (mp_pc s i) (mp_cpu s i)"
  shows "cpu_inv k (mp_pc s' k) (mp_cpu s' k)"
  using assms(1)
proof (cases rule: mp_step.cases)
  case (step_check_owner i)
  have "lock_cpu_id (mp_lock s) = i \<Longrightarrow> i = 0"
    using assms(2) step_check_owner(2) by (auto simp: holder_inv_def in_cs_def split: option.splits if_splits)
  with step_check_owner assms(3) [of k] show ?thesis
    by (auto simp: cpu_inv_def)
qed (use assms(3) [of k] in \<open>auto simp: cpu_inv_def push_off_cpu_def pop_off_cpu_def Let_def
  split: if_splits\<close>)

lemma mutex_inv_reach: "mp_reach s \<Longrightarrow> mutex_inv s"
proof (induction rule: mp_reach.induct)
  case (reach_step s s')
  then obtain h where "holder_inv h s" "\<And>i. cpu_inv i (mp_pc s i) (mp_cpu s i)"
    by (auto simp: mutex_inv_def)
  with reach_step show ?case
    using holder_inv_step cpu_inv_step by (auto simp: mutex_inv_def)
qed (rule mutex_inv_init)

text \<open>
  C3: mutual exclusion. In every reachable state of any number of CPUs running \<open>acquire\<close> and \<open>release\<close>
  on one lock, at most one CPU is in its critical section; while one is, the lock is held, its
  owner field is that CPU's id, and that CPU runs with interrupts off.
\<close>

theorem mutual_exclusion:
  assumes "mp_reach s" "mp_pc s i = Critical"
  shows "(\<forall>j. mp_pc s j = Critical \<longrightarrow> j = i) \<and> held (mp_lock s) \<noteq> 0 \<and> lock_cpu_id (mp_lock s) = i
    \<and> int_on (mp_cpu s i) = 0"
proof -
  obtain h where h: "holder_inv h s" "\<And>i. cpu_inv i (mp_pc s i) (mp_cpu s i)"
    using mutex_inv_reach [OF assms(1)] by (auto simp: mutex_inv_def)
  have "h = Some j" if "mp_pc s j = Critical" for j
    using holder_is [OF h(1), of j] that by (simp add: in_cs_def)
  then show ?thesis
    using h(1) h(2) [of i] assms(2) by (auto simp: holder_inv_def cpu_inv_def)
qed

text \<open>A run: CPU \<open>i\<close> enters and takes the lock in a fresh system.\<close>

definition mp_start :: mp_state where
  "mp_start = \<lparr>mp_lock = \<lparr>held = 0, lock_cpu_id = 0, lock_name = 0\<rparr>,
     mp_cpu = (\<lambda>i. \<lparr>cpu_status_id = i, push_off_count = 0, int_on = 1, cpu_thread = 0, cpu_vmm = 0\<rparr>),
     mp_pc = (\<lambda>_. Outside)\<rparr>"

lemma reach_start: "mp_reach mp_start"
  by (rule reach_init) (simp add: mp_init_def mp_start_def)

lemma reach_waiting:
  "\<exists>s. mp_reach s \<and> mp_pc s i = TestAndSet \<and> held (mp_lock s) = 0 \<and> lock_cpu_id (mp_lock s) = 0
    \<and> (\<forall>j. j \<noteq> i \<longrightarrow> mp_pc s j = Outside)"
proof -
  let ?s1 = "mp_start\<lparr>mp_cpu := (mp_cpu mp_start)(i := push_off_cpu (mp_cpu mp_start i)),
      mp_pc := (mp_pc mp_start)(i := CheckHeld)\<rparr>"
  let ?s2 = "?s1\<lparr>mp_pc := (mp_pc ?s1)(i := TestAndSet)\<rparr>"
  have "mp_reach ?s1"
    by (rule reach_step [OF reach_start step_enter]) (simp add: mp_start_def)
  moreover have "mp_step ?s1 ?s2"
    using step_check_held [of ?s1 i] by (simp add: mp_start_def)
  ultimately have "mp_reach ?s2" by (rule reach_step)
  then show ?thesis by (intro exI [of _ ?s2]) (simp add: mp_start_def)
qed

lemma reach_taken:
  "\<exists>s. mp_reach s \<and> mp_pc s i = SetOwner \<and> held (mp_lock s) = 1 \<and> lock_cpu_id (mp_lock s) = 0
    \<and> (\<forall>j. j \<noteq> i \<longrightarrow> mp_pc s j = Outside)"
proof -
  obtain s where s: "mp_reach s" "mp_pc s i = TestAndSet" "held (mp_lock s) = 0"
      "lock_cpu_id (mp_lock s) = 0" "\<forall>j. j \<noteq> i \<longrightarrow> mp_pc s j = Outside"
    using reach_waiting [of i] by blast
  let ?s = "s\<lparr>mp_lock := (mp_lock s)\<lparr>held := 1\<rparr>, mp_pc := (mp_pc s)(i := SetOwner)\<rparr>"
  have "mp_reach ?s" by (rule reach_step [OF s(1) step_take [OF s(2,3)]])
  with s(4,5) show ?thesis by (intro exI [of _ ?s]) simp
qed

theorem mutual_exclusion_witness:
  "\<exists>s. mp_reach s \<and> mp_pc s 3 = Critical \<and> (\<forall>j. mp_pc s j = Critical \<longrightarrow> j = 3) \<and> held (mp_lock s) \<noteq> 0"
proof -
  obtain s where s: "mp_reach s" "mp_pc s 3 = SetOwner"
    using reach_taken [of 3] by blast
  let ?s = "s\<lparr>mp_lock := (mp_lock s)\<lparr>lock_cpu_id := 3\<rparr>, mp_pc := (mp_pc s)(3 := Critical)\<rparr>"
  have r: "mp_reach ?s" "mp_pc ?s 3 = Critical"
    by (rule reach_step [OF s(1) step_set_owner [OF s(2)]]) simp
  note me = mutual_exclusion [OF r]
  show ?thesis
    by (rule exI [of _ ?s], intro conjI, rule r(1), rule r(2), rule conjunct1 [OF me],
        rule conjunct1 [OF conjunct2 [OF me]])
qed

text \<open>
  C21: the panic of \<open>acquire\<close> can be spurious, on CPU 0 only. No CPU with another id ever panics in a
  reachable state. But CPU 0 can panic on a lock it does not hold: while another CPU has taken the
  lock and not yet written its id into it, the owner field reads 0, which is CPU 0's own id.
\<close>

theorem spurious_panic_cpu0:
  "(\<nexists>s i. mp_reach s \<and> mp_pc s i = Panicked \<and> i \<noteq> 0)
    \<and> (\<exists>s. mp_reach s \<and> mp_pc s 1 = SetOwner \<and> mp_pc s 0 = Outside
        \<and> (\<exists>s1 s2 s3. mp_step s s1 \<and> mp_step s1 s2 \<and> mp_step s2 s3
            \<and> mp_pc s3 1 = SetOwner \<and> mp_pc s3 0 = Panicked))"
proof
  show "\<nexists>s i. mp_reach s \<and> mp_pc s i = Panicked \<and> i \<noteq> 0"
    using mutex_inv_reach by (auto simp: mutex_inv_def cpu_inv_def)
  obtain s where s: "mp_reach s" "mp_pc s 1 = SetOwner" "held (mp_lock s) = 1" "lock_cpu_id (mp_lock s) = 0"
    "mp_pc s 0 = Outside"
    using reach_taken [of 1] by (metis zero_neq_one)
  let ?s1 = "s\<lparr>mp_cpu := (mp_cpu s)(0 := push_off_cpu (mp_cpu s 0)), mp_pc := (mp_pc s)(0 := CheckHeld)\<rparr>"
  let ?s2 = "?s1\<lparr>mp_pc := (mp_pc ?s1)(0 := CheckOwner)\<rparr>"
  let ?s3 = "?s2\<lparr>mp_pc := (mp_pc ?s2)(0 := Panicked)\<rparr>"
  have "mp_step s ?s1" by (rule step_enter) (rule s(5))
  moreover have "mp_step ?s1 ?s2" using step_check_held [of ?s1 0] s(3) by simp
  moreover have "mp_step ?s2 ?s3" using step_check_owner [of ?s2 0] s(4) by simp
  ultimately show "\<exists>s. mp_reach s \<and> mp_pc s 1 = SetOwner \<and> mp_pc s 0 = Outside
      \<and> (\<exists>s1 s2 s3. mp_step s s1 \<and> mp_step s1 s2 \<and> mp_step s2 s3
          \<and> mp_pc s3 1 = SetOwner \<and> mp_pc s3 0 = Panicked)"
    using s by (intro exI [of _ s] conjI exI [of _ ?s1] exI [of _ ?s2] exI [of _ ?s3]) simp_all
qed

text \<open>
  C16: no deadlock on the lock. In every reachable state in which a CPU waits in the spin loop, either
  its next test-and-set succeeds, or the CPU that holds the lock exists and can take its next step,
  which is not a spin.
\<close>

theorem lock_progress:
  assumes "mp_reach s" "mp_pc s i = TestAndSet"
  shows "(\<exists>s'. mp_step s s' \<and> mp_pc s' i = SetOwner)
    \<or> (\<exists>j s'. j \<noteq> i \<and> in_cs (mp_pc s j) \<and> mp_step s s' \<and> mp_pc s' j \<noteq> mp_pc s j)"
proof (cases "held (mp_lock s) = 0")
  case True
  then show ?thesis using step_take [OF assms(2)] by fastforce
next
  case False
  obtain h where "holder_inv h s" using mutex_inv_reach [OF assms(1)] by (auto simp: mutex_inv_def)
  with False obtain j where j: "in_cs (mp_pc s j)" by (auto simp: holder_inv_def split: option.splits)
  then have "j \<noteq> i" using assms(2) by (auto simp: in_cs_def)
  moreover have "\<exists>s'. mp_step s s' \<and> mp_pc s' j \<noteq> mp_pc s j"
    using j step_set_owner [of s j] step_clear_owner [of s j] step_clear_held [of s j]
    by (fastforce simp: in_cs_def)
  ultimately show ?thesis using j by blast
qed

theorem lock_progress_witness:
  "\<exists>s. mp_reach s \<and> mp_pc s 2 = TestAndSet \<and>
    ((\<exists>s'. mp_step s s' \<and> mp_pc s' 2 = SetOwner)
      \<or> (\<exists>j s'. j \<noteq> 2 \<and> in_cs (mp_pc s j) \<and> mp_step s s' \<and> mp_pc s' j \<noteq> mp_pc s j))"
proof -
  obtain s where s: "mp_reach s" "mp_pc s 2 = TestAndSet"
    using reach_waiting [of 2] by blast
  then show ?thesis using lock_progress [OF s] by (intro exI [of _ s]) simp
qed

end
