(* ===== verification/Kernel_List.thy ===== *)
theory Kernel_List
  imports Spinlock
begin

text \<open>
  \<open>kernel/list.c\<close>: circular doubly linked lists threaded through the objects they hold. The links are
  two maps from the address of a node to the addresses of its neighbours; reading or writing
  through a null pointer is an error. The contract the clients use is the locale \<open>node_list\<close>, which
  relates a heap to the sequence of nodes that hang on a list head.
\<close>

section \<open>Operations\<close>

record list_state = sync_state +
  lst_prev :: "ptr \<Rightarrow> ptr"
  lst_next :: "ptr \<Rightarrow> ptr"

definition set_prev :: "ptr \<Rightarrow> ptr \<Rightarrow> 'a list_state_scheme \<Rightarrow> 'a list_state_scheme res" where
  "set_prev p v s = (if p = NULL then Inl NullDeref else Inr (s\<lparr>lst_prev := (lst_prev s)(p := v)\<rparr>))"

definition set_next :: "ptr \<Rightarrow> ptr \<Rightarrow> 'a list_state_scheme \<Rightarrow> 'a list_state_scheme res" where
  "set_next p v s = (if p = NULL then Inl NullDeref else Inr (s\<lparr>lst_next := (lst_next s)(p := v)\<rparr>))"

definition get_prev :: "ptr \<Rightarrow> 'a list_state_scheme \<Rightarrow> ptr res" where
  "get_prev p s = (if p = NULL then Inl NullDeref else Inr (lst_prev s p))"

definition get_next :: "ptr \<Rightarrow> 'a list_state_scheme \<Rightarrow> ptr res" where
  "get_next p s = (if p = NULL then Inl NullDeref else Inr (lst_next s p))"

definition lst_init :: "ptr \<Rightarrow> 'a list_state_scheme \<Rightarrow> 'a list_state_scheme res" where
  "lst_init l s = bind_res (set_next l l s) (\<lambda>s. set_prev l l s)"

definition lst_empty :: "ptr \<Rightarrow> 'a list_state_scheme \<Rightarrow> bool res" where
  "lst_empty l s = bind_res (get_next l s) (\<lambda>n. Inr (n = l))"

definition lst_push :: "ptr \<Rightarrow> ptr \<Rightarrow> 'a list_state_scheme \<Rightarrow> 'a list_state_scheme res" where
  "lst_push l n s =
     bind_res (get_next l s) (\<lambda>ln.
     bind_res (set_next n ln s) (\<lambda>s.
     bind_res (set_prev n l s) (\<lambda>s.
     bind_res (get_next l s) (\<lambda>ln.
     bind_res (if ln \<noteq> NULL then set_prev ln n s else Inr s) (\<lambda>s.
     set_next l n s)))))"

definition lst_push_end :: "ptr \<Rightarrow> ptr \<Rightarrow> 'a list_state_scheme \<Rightarrow> 'a list_state_scheme res" where
  "lst_push_end l n s =
     bind_res (get_prev l s) (\<lambda>lp.
     bind_res (set_prev n lp s) (\<lambda>s.
     bind_res (set_next n l s) (\<lambda>s.
     bind_res (get_prev l s) (\<lambda>lp.
     bind_res (set_next lp n s) (\<lambda>s.
     set_prev l n s)))))"

definition lst_pop :: "ptr \<Rightarrow> 'a list_state_scheme \<Rightarrow> (ptr \<times> 'a list_state_scheme) res" where
  "lst_pop l s =
     bind_res (get_next l s) (\<lambda>n.
     if n = l then Inl (Panic ''empty struct lst'')
     else bind_res (get_next n s) (\<lambda>nn.
          bind_res (set_prev nn l s) (\<lambda>s.
          bind_res (get_next n s) (\<lambda>nn.
          bind_res (set_next l nn s) (\<lambda>s.
          Inr (n, s))))))"

definition lst_pop_end :: "ptr \<Rightarrow> 'a list_state_scheme \<Rightarrow> (ptr \<times> 'a list_state_scheme) res" where
  "lst_pop_end l s =
     bind_res (get_prev l s) (\<lambda>p.
     if p = l then Inl (Panic ''empty struct lst'')
     else bind_res (get_prev p s) (\<lambda>pp.
          bind_res (set_next pp l s) (\<lambda>s.
          bind_res (get_prev p s) (\<lambda>pp.
          bind_res (set_prev l pp s) (\<lambda>s.
          Inr (p, s))))))"

lemmas lst_ops = set_prev_def set_next_def get_prev_def get_next_def lst_init_def lst_empty_def
  lst_push_def lst_push_end_def lst_pop_def lst_pop_end_def

section \<open>The list on a head\<close>

text \<open>
  \<open>links s a xs b\<close>: following \<open>next\<close> from \<open>a\<close> visits \<open>xs\<close> and then \<open>b\<close>, and the \<open>prev\<close> pointers lead back.
  \<open>lst_rel s l xs\<close>: the circular list with head \<open>l\<close> holds exactly the nodes \<open>xs\<close>, in this order.
\<close>

fun links :: "'a list_state_scheme \<Rightarrow> ptr \<Rightarrow> ptr list \<Rightarrow> ptr \<Rightarrow> bool" where
  "links s a [] b \<longleftrightarrow> lst_next s a = b \<and> lst_prev s b = a"
| "links s a (x # xs) b \<longleftrightarrow> lst_next s a = x \<and> lst_prev s x = a \<and> links s x xs b"

definition lst_rel :: "'a list_state_scheme \<Rightarrow> ptr \<Rightarrow> ptr list \<Rightarrow> bool" where
  "lst_rel s l xs \<longleftrightarrow> links s l xs l \<and> distinct (l # xs) \<and> NULL \<notin> set (l # xs)"

lemma links_append:
  "links s a (xs @ y # ys) b \<longleftrightarrow> links s a xs y \<and> links s y ys b"
  by (induction xs arbitrary: a) auto

lemma links_cong:
  assumes "\<And>x. x \<in> set (a # xs) \<Longrightarrow> lst_next s' x = lst_next s x"
    and "\<And>x. x \<in> set (xs @ [b]) \<Longrightarrow> lst_prev s' x = lst_prev s x"
  shows "links s' a xs b = links s a xs b"
  using assms by (induction xs arbitrary: a) auto

lemma lst_rel_cong:
  assumes "\<And>x. x \<in> set (l # xs) \<Longrightarrow> lst_next s' x = lst_next s x \<and> lst_prev s' x = lst_prev s x"
  shows "lst_rel s' l xs = lst_rel s l xs"
  using links_cong [of l xs s' s l] assms by (auto simp: lst_rel_def)

lemma links_last: "links s a xs b \<Longrightarrow> lst_prev s b = (if xs = [] then a else last xs)"
  by (induction xs arbitrary: a) auto

section \<open>What each operation does to the list\<close>

text \<open>\<open>same_outside A s s'\<close>: only the links of nodes in \<open>A\<close> differ, and nothing else of the state.\<close>

definition same_outside :: "ptr set \<Rightarrow> 'a list_state_scheme \<Rightarrow> 'a list_state_scheme \<Rightarrow> bool" where
  "same_outside A s s' \<longleftrightarrow>
     s' = s\<lparr>lst_prev := lst_prev s', lst_next := lst_next s'\<rparr>
     \<and> (\<forall>x. x \<notin> A \<longrightarrow> lst_prev s' x = lst_prev s x \<and> lst_next s' x = lst_next s x)"

lemma lst_init_rel:
  assumes "l \<noteq> NULL"
  shows "\<exists>s'. lst_init l s = Inr s' \<and> lst_rel s' l [] \<and> same_outside {l} s s'"
  using assms by (auto simp: lst_ops lst_rel_def same_outside_def)

lemma lst_empty_rel: "lst_rel s l xs \<Longrightarrow> lst_empty l s = Inr (xs = [])"
  by (cases xs) (auto simp: lst_rel_def lst_ops)

lemma lst_push_rel:
  assumes "lst_rel s l xs" "n \<noteq> NULL" "n \<notin> set (l # xs)"
  shows "\<exists>s'. lst_push l n s = Inr s' \<and> lst_rel s' l (n # xs) \<and> same_outside (set (l # n # xs)) s s'"
proof -
  let ?y = "lst_next s l"
  let ?s = "s\<lparr>lst_prev := (lst_prev s)(n := l, ?y := n), lst_next := (lst_next s)(n := ?y, l := n)\<rparr>"
  have y: "?y \<noteq> NULL" "?y \<in> set (l # xs)"
    using assms(1) by (cases xs; auto simp: lst_rel_def)+
  have "lst_push l n s = Inr ?s"
    using assms y by (auto simp: lst_ops lst_rel_def)
  moreover have "lst_rel ?s l (n # xs)"
  proof (cases xs)
    case (Cons x ys)
    then have "links ?s x ys l = links s x ys l"
      using assms by (intro links_cong) (auto simp: lst_rel_def)
    with Cons assms show ?thesis by (auto simp: lst_rel_def)
  qed (use assms in \<open>auto simp: lst_rel_def\<close>)
  ultimately show ?thesis using y by (auto simp: same_outside_def)
qed

lemma lst_push_end_rel:
  assumes "lst_rel s l xs" "n \<noteq> NULL" "n \<notin> set (l # xs)"
  shows "\<exists>s'. lst_push_end l n s = Inr s' \<and> lst_rel s' l (xs @ [n]) \<and> same_outside (set (l # n # xs)) s s'"
proof -
  let ?y = "lst_prev s l"
  let ?s = "s\<lparr>lst_prev := (lst_prev s)(n := ?y, l := n), lst_next := (lst_next s)(n := l, ?y := n)\<rparr>"
  have y: "?y = (if xs = [] then l else last xs)"
    using assms(1) links_last [of s l xs l] by (simp add: lst_rel_def)
  then have "?y \<in> set (l # xs)" by (cases "xs = []") simp_all
  with assms(1) have y': "?y \<noteq> NULL" "?y \<in> set (l # xs)" by (auto simp: lst_rel_def)
  have "lst_push_end l n s = Inr ?s"
    using assms y' by (auto simp: lst_ops lst_rel_def)
  moreover have "lst_rel ?s l (xs @ [n])"
  proof (cases xs rule: rev_cases)
    case (snoc ys x)
    then have "links ?s l ys x = links s l ys x"
      using assms y by (intro links_cong) (auto simp: lst_rel_def)
    with snoc assms y show ?thesis by (auto simp: lst_rel_def links_append)
  qed (use assms in \<open>auto simp: lst_rel_def\<close>)
  ultimately show ?thesis using y' by (auto simp: same_outside_def)
qed

lemma lst_pop_rel:
  assumes "lst_rel s l (x # xs)"
  shows "\<exists>s'. lst_pop l s = Inr (x, s') \<and> lst_rel s' l xs \<and> same_outside (set (l # x # xs)) s s'"
proof -
  let ?y = "lst_next s x"
  let ?s = "s\<lparr>lst_prev := (lst_prev s)(?y := l), lst_next := (lst_next s)(l := ?y)\<rparr>"
  have y: "?y \<noteq> NULL" "?y \<in> set (l # xs)"
    using assms(1) by (cases xs; auto simp: lst_rel_def)+
  have "lst_pop l s = Inr (x, ?s)"
    using assms y by (auto simp: lst_ops lst_rel_def)
  moreover have "lst_rel ?s l xs"
  proof (cases xs)
    case (Cons z ys)
    then have "links ?s z ys l = links s z ys l"
      using assms by (intro links_cong) (auto simp: lst_rel_def)
    with Cons assms show ?thesis by (auto simp: lst_rel_def)
  qed (use assms in \<open>auto simp: lst_rel_def\<close>)
  ultimately show ?thesis using y by (auto simp: same_outside_def)
qed

lemma lst_pop_end_rel:
  assumes "lst_rel s l (xs @ [x])"
  shows "\<exists>s'. lst_pop_end l s = Inr (x, s') \<and> lst_rel s' l xs \<and> same_outside (set (l # x # xs)) s s'"
proof -
  let ?y = "lst_prev s x"
  let ?s = "s\<lparr>lst_prev := (lst_prev s)(l := ?y), lst_next := (lst_next s)(?y := l)\<rparr>"
  have x: "lst_prev s l = x" and y: "?y = (if xs = [] then l else last xs)"
    using assms(1) links_last [of s l xs x] by (auto simp: lst_rel_def links_append)
  then have "?y \<in> set (l # xs)" by (cases "xs = []") simp_all
  with assms(1) have y': "?y \<noteq> NULL" "?y \<in> set (l # xs)" by (auto simp: lst_rel_def)
  have "lst_pop_end l s = Inr (x, ?s)"
    using assms x y' by (auto simp: lst_ops lst_rel_def)
  moreover have "lst_rel ?s l xs"
  proof (cases xs rule: rev_cases)
    case (snoc ys z)
    then have "links ?s l ys z = links s l ys z"
      using assms y by (intro links_cong) (auto simp: lst_rel_def)
    with snoc assms y show ?thesis by (auto simp: lst_rel_def links_append)
  qed (use assms in \<open>auto simp: lst_rel_def\<close>)
  ultimately show ?thesis using y' by (auto simp: same_outside_def)
qed

lemma lst_pop_empty: "lst_rel s l [] \<Longrightarrow> lst_pop l s = Inl (Panic ''empty struct lst'')
    \<and> lst_pop_end l s = Inl (Panic ''empty struct lst'')"
  by (simp add: lst_ops lst_rel_def)

section \<open>The contract of a list\<close>

text \<open>
  What the clients of \<open>list.c\<close> rely on: each operation, its effect on the sequence of nodes, and the
  nodes whose links it may touch. The lemmas of the locale are about loops of such operations.
\<close>

fun pop_times :: "('s \<Rightarrow> (ptr \<times> 's) res) \<Rightarrow> nat \<Rightarrow> 's \<Rightarrow> (ptr list \<times> 's) res" where
  "pop_times f 0 s = Inr ([], s)"
| "pop_times f (Suc n) s =
     bind_res (f s) (\<lambda>(x, s). bind_res (pop_times f n s) (\<lambda>(xs, s). Inr (x # xs, s)))"

locale node_list =
  fixes rel :: "'s \<Rightarrow> ptr \<Rightarrow> ptr list \<Rightarrow> bool"
    and frame :: "ptr set \<Rightarrow> 's \<Rightarrow> 's \<Rightarrow> bool"
    and init :: "ptr \<Rightarrow> 's \<Rightarrow> 's res"
    and push :: "ptr \<Rightarrow> ptr \<Rightarrow> 's \<Rightarrow> 's res"
    and push_end :: "ptr \<Rightarrow> ptr \<Rightarrow> 's \<Rightarrow> 's res"
    and pop :: "ptr \<Rightarrow> 's \<Rightarrow> (ptr \<times> 's) res"
    and pop_end :: "ptr \<Rightarrow> 's \<Rightarrow> (ptr \<times> 's) res"
  assumes rel_distinct: "rel s l xs \<Longrightarrow> distinct (l # xs) \<and> NULL \<notin> set (l # xs)"
    and init_rel: "l \<noteq> NULL \<Longrightarrow> \<exists>s'. init l s = Inr s' \<and> rel s' l [] \<and> frame {l} s s'"
    and push_rel: "rel s l xs \<Longrightarrow> n \<noteq> NULL \<Longrightarrow> n \<notin> set (l # xs) \<Longrightarrow>
      \<exists>s'. push l n s = Inr s' \<and> rel s' l (n # xs) \<and> frame (set (l # n # xs)) s s'"
    and push_end_rel: "rel s l xs \<Longrightarrow> n \<noteq> NULL \<Longrightarrow> n \<notin> set (l # xs) \<Longrightarrow>
      \<exists>s'. push_end l n s = Inr s' \<and> rel s' l (xs @ [n]) \<and> frame (set (l # n # xs)) s s'"
    and pop_rel: "rel s l (x # xs) \<Longrightarrow>
      \<exists>s'. pop l s = Inr (x, s') \<and> rel s' l xs \<and> frame (set (l # x # xs)) s s'"
    and pop_end_rel: "rel s l (xs @ [x]) \<Longrightarrow>
      \<exists>s'. pop_end l s = Inr (x, s') \<and> rel s' l xs \<and> frame (set (l # x # xs)) s s'"
    and frame_refl: "frame A s s"
    and frame_trans: "frame A s s' \<Longrightarrow> frame B s' s'' \<Longrightarrow> frame (A \<union> B) s s''"
begin

lemma push_end_all:
  assumes "rel s l xs" "distinct (l # xs @ ys)" "NULL \<notin> set ys"
  shows "\<exists>s'. iter_res (push_end l) ys s = Inr s' \<and> rel s' l (xs @ ys)
    \<and> frame (if ys = [] then {} else set (l # xs @ ys)) s s'"
  using assms
proof (induction ys arbitrary: s xs)
  case Nil
  then show ?case using frame_refl by auto
next
  case (Cons y ys)
  then obtain s1 where s1: "push_end l y s = Inr s1" "rel s1 l (xs @ [y])" "frame (set (l # y # xs)) s s1"
    using push_end_rel [of s l xs y] by auto
  with Cons.IH [of s1 "xs @ [y]"] Cons.prems obtain s2 where
    s2: "iter_res (push_end l) ys s1 = Inr s2" "rel s2 l (xs @ y # ys)"
      "frame (if ys = [] then {} else set (l # (xs @ [y]) @ ys)) s1 s2"
    by auto
  have "set (l # y # xs) \<union> (if ys = [] then {} else set (l # (xs @ [y]) @ ys)) = set (l # xs @ y # ys)"
    by auto
  with frame_trans [OF s1(3) s2(3)] s1 s2 show ?case by simp
qed

lemma push_all:
  assumes "rel s l xs" "distinct (l # xs @ ys)" "NULL \<notin> set ys"
  shows "\<exists>s'. iter_res (push l) ys s = Inr s' \<and> rel s' l (rev ys @ xs)"
  using assms
proof (induction ys arbitrary: s xs)
  case (Cons y ys)
  then obtain s1 where "push l y s = Inr s1" "rel s1 l (y # xs)"
    using push_rel [of s l xs y] by auto
  with Cons.IH [of s1 "y # xs"] Cons.prems show ?case by auto
qed auto

lemma pop_all:
  "rel s l (xs @ ys) \<Longrightarrow> \<exists>s'. pop_times (pop l) (length xs) s = Inr (xs, s') \<and> rel s' l ys"
proof (induction xs arbitrary: s)
  case (Cons x xs)
  then obtain s1 where "pop l s = Inr (x, s1)" "rel s1 l (xs @ ys)"
    using pop_rel [of s l x "xs @ ys"] by auto
  with Cons.IH [of s1] show ?case by auto
qed simp

lemma fifo:
  assumes "l \<noteq> NULL" "distinct (l # ys)" "NULL \<notin> set ys"
  shows "\<exists>s'. bind_res (init l s) (\<lambda>s. bind_res (iter_res (push_end l) ys s)
    (pop_times (pop l) (length ys))) = Inr (ys, s') \<and> rel s' l []"
proof -
  obtain s1 where s1: "init l s = Inr s1" "rel s1 l []" using init_rel [OF assms(1)] by blast
  then obtain s2 where "iter_res (push_end l) ys s1 = Inr s2" "rel s2 l ys"
    using push_end_all [of s1 l "[]" ys] assms by auto
  with s1 pop_all [of s2 l ys "[]"] show ?thesis by auto
qed

lemma lifo:
  assumes "l \<noteq> NULL" "distinct (l # ys)" "NULL \<notin> set ys"
  shows "\<exists>s'. bind_res (init l s) (\<lambda>s. bind_res (iter_res (push l) ys s)
    (pop_times (pop l) (length ys))) = Inr (rev ys, s') \<and> rel s' l []"
proof -
  obtain s1 where s1: "init l s = Inr s1" "rel s1 l []" using init_rel [OF assms(1)] by blast
  then obtain s2 where "iter_res (push l) ys s1 = Inr s2" "rel s2 l (rev ys)"
    using push_all [of s1 l "[]" ys] assms by auto
  with s1 pop_all [of s2 l "rev ys" "[]"] show ?thesis by auto
qed

end

lemma same_outside_trans:
  "same_outside A s s' \<Longrightarrow> same_outside B s' s'' \<Longrightarrow> same_outside (A \<union> B) s s''"
  by (cases s; cases s'; cases s'') (simp add: same_outside_def)

interpretation klist: node_list lst_rel same_outside lst_init lst_push lst_push_end lst_pop lst_pop_end
proof
  show "distinct (l # xs) \<and> NULL \<notin> set (l # xs)" if "lst_rel s l xs" for s :: "'a list_state_scheme" and l xs
    using that by (simp add: lst_rel_def)
  show "same_outside A s s" for A and s :: "'a list_state_scheme"
    by (simp add: same_outside_def)
qed (fact lst_init_rel lst_push_rel lst_push_end_rel lst_pop_rel lst_pop_end_rel same_outside_trans)+

text \<open>
  C13: a kernel list is a deque. After \<open>lst_init\<close>, pushing distinct non-null nodes at the end and popping
  as many from the front returns them in the order they were pushed; pushing them at the front
  returns them in the reverse order; in both cases no operation fails and the list ends up empty.
\<close>

theorem lst_fifo_lifo:
  assumes "l \<noteq> NULL" "distinct (l # ys)" "NULL \<notin> set ys"
  shows "(\<exists>s'. bind_res (lst_init l s) (\<lambda>s. bind_res (iter_res (lst_push_end l) ys s)
      (pop_times (lst_pop l) (length ys))) = Inr (ys, s') \<and> lst_rel s' l [])
    \<and> (\<exists>s'. bind_res (lst_init l s) (\<lambda>s. bind_res (iter_res (lst_push l) ys s)
      (pop_times (lst_pop l) (length ys))) = Inr (rev ys, s') \<and> lst_rel s' l [])"
  using klist.fifo [OF assms] klist.lifo [OF assms] by blast

theorem lst_fifo_lifo_witness:
  "\<forall>s :: list_state. \<exists>s'. bind_res (lst_init 0x10 s) (\<lambda>s. bind_res (iter_res (lst_push_end 0x10) [0x20, 0x30, 0x40] s)
      (pop_times (lst_pop 0x10) 3)) = Inr ([0x20, 0x30, 0x40], s') \<and> lst_rel s' 0x10 []"
proof (rule allI)
  fix s :: list_state
  show "\<exists>s'. bind_res (lst_init 0x10 s) (\<lambda>s. bind_res (iter_res (lst_push_end 0x10) [0x20, 0x30, 0x40] s)
      (pop_times (lst_pop 0x10) 3)) = Inr ([0x20, 0x30, 0x40], s') \<and> lst_rel s' 0x10 []"
    using lst_fifo_lifo [of "0x10" "[0x20, 0x30, 0x40]" s] by (simp add: numeral_3_eq_3)
qed

end
