(* ===== verification/Memory_Layout.thy ===== *)
theory Memory_Layout
  imports Kernel_Prelude
begin

text \<open>
  \<open>kernel/include/kernel/arch/x86-64/memory_layout.h\<close>: page rounding, the split of a virtual address
  into table indices, the addresses under which the recursive PML4 entry shows the page tables, and
  the bit fields of a page-table entry. The four entry unions of the header differ only in the
  names of their fields, so one set of accessors on the raw 64-bit value serves them all.
\<close>

section \<open>Constants\<close>

definition SMALL_PAGE_SIZE :: u64 where [simp]: "SMALL_PAGE_SIZE = 0x1000"
definition MEDIUM_PAGE_SIZE :: u64 where [simp]: "MEDIUM_PAGE_SIZE = 0x200000"
definition BIG_PAGE_SIZE :: u64 where [simp]: "BIG_PAGE_SIZE = 0x40000000"
definition PAGE_SIZE :: u64 where [simp]: "PAGE_SIZE = SMALL_PAGE_SIZE"
definition PHYSICAL_OFFSET :: u64 where [simp]: "PHYSICAL_OFFSET = 0xFFFFFE8000000000"
definition LOWHALF_START :: u64 where [simp]: "LOWHALF_START = MEDIUM_PAGE_SIZE"
definition LOWHALF_END :: u64 where [simp]: "LOWHALF_END = 0x800000000000"
definition PML4_RECURSE_ENTRY :: u16 where [simp]: "PML4_RECURSE_ENTRY = 510"
definition PAGE_FLAG_MASK :: u64 where [simp]: "PAGE_FLAG_MASK = 0x8000000000000006"

section \<open>Page rounding\<close>

definition PAGE_START :: "u64 \<Rightarrow> u64 \<Rightarrow> u64" where
  "PAGE_START addr sz = addr - addr mod sz"

definition PAGE_END :: "u64 \<Rightarrow> u64 \<Rightarrow> u64" where
  "PAGE_END addr sz = PAGE_START addr sz + sz - 1"

section \<open>Table indices and the recursive mapping\<close>

definition VA2INDEX :: "u64 \<Rightarrow> nat \<Rightarrow> u64" where
  "VA2INDEX va level = drop_bit (12 + level * 9) va AND 0x1FF"

definition get_va :: "u16 \<Rightarrow> u16 \<Rightarrow> u16 \<Rightarrow> u16 \<Rightarrow> u32 \<Rightarrow> u64" where
  "get_va pml4_e pdpt_e pd_e pt_e offset =
     (let small_page = pt_e < 512;
          addr = (if pml4_e AND 0x100 \<noteq> 0 then push_bit 48 0xFFFF else 0);
          addr = addr OR push_bit 39 (ucast pml4_e);
          addr = addr OR push_bit 30 (ucast pdpt_e);
          addr = addr OR push_bit 21 (ucast pd_e);
          addr = (if small_page then addr OR push_bit 12 (ucast pt_e) else addr)
      in addr OR ucast offset)"

definition pdpt_va :: "u16 \<Rightarrow> u64" where
  "pdpt_va pml4_offset =
     get_va PML4_RECURSE_ENTRY PML4_RECURSE_ENTRY PML4_RECURSE_ENTRY pml4_offset 0"

definition pd_va :: "u16 \<Rightarrow> u16 \<Rightarrow> u64" where
  "pd_va pml4_offset pdpt_offset =
     get_va PML4_RECURSE_ENTRY PML4_RECURSE_ENTRY pml4_offset pdpt_offset 0"

definition pt_va :: "u16 \<Rightarrow> u16 \<Rightarrow> u16 \<Rightarrow> u64" where
  "pt_va pml4_offset pdpt_offset pd_offset =
     get_va PML4_RECURSE_ENTRY pml4_offset pdpt_offset pd_offset 0"

section \<open>Page-table entries\<close>

type_synonym pte_t = u64

definition pte_present :: "pte_t \<Rightarrow> bool" where "pte_present e = bit e 0"
definition pte_writable :: "pte_t \<Rightarrow> bool" where "pte_writable e = bit e 1"
definition pte_user_page :: "pte_t \<Rightarrow> bool" where "pte_user_page e = bit e 2"
definition pte_page_size :: "pte_t \<Rightarrow> bool" where "pte_page_size e = bit e 7"
definition pte_xd :: "pte_t \<Rightarrow> bool" where "pte_xd e = bit e 63"

text \<open>The 39-bit field called \<open>pdpt_addr\<close>, \<open>pd_addr\<close> or \<open>phys_addr\<close> in the unions, bits 12 to 50.\<close>

definition pte_addr :: "pte_t \<Rightarrow> u64" where
  "pte_addr e = take_bit 39 (drop_bit 12 e)"

definition put_bit :: "nat \<Rightarrow> bool \<Rightarrow> u64 \<Rightarrow> u64" where
  "put_bit n b e = (if b then set_bit n e else unset_bit n e)"

definition pte_set_present :: "bool \<Rightarrow> pte_t \<Rightarrow> pte_t" where "pte_set_present = put_bit 0"
definition pte_set_writable :: "bool \<Rightarrow> pte_t \<Rightarrow> pte_t" where "pte_set_writable = put_bit 1"
definition pte_set_user_page :: "bool \<Rightarrow> pte_t \<Rightarrow> pte_t" where "pte_set_user_page = put_bit 2"
definition pte_set_page_size :: "bool \<Rightarrow> pte_t \<Rightarrow> pte_t" where "pte_set_page_size = put_bit 7"
definition pte_set_xd :: "bool \<Rightarrow> pte_t \<Rightarrow> pte_t" where "pte_set_xd = put_bit 63"

lemmas pte_get_defs = pte_present_def pte_writable_def pte_user_page_def pte_page_size_def
  pte_xd_def pte_addr_def

lemmas pte_set_defs = pte_set_present_def pte_set_writable_def pte_set_user_page_def
  pte_set_page_size_def pte_set_xd_def

section \<open>Page rounding: facts\<close>

lemma unat_PAGE_START [word_facts]:
  "unat (PAGE_START a s) = unat a - unat a mod unat s"
  by (simp add: PAGE_START_def unat_sub_mod)

lemma PAGE_START_le: "PAGE_START a s \<le> a"
  by (simp add: word_le_nat_alt unat_PAGE_START)

lemma unat_PAGE_START_4K [word_facts]:
  "unat (PAGE_START a 0x1000) = unat a div 4096 * 4096"
  by (simp add: unat_PAGE_START minus_mod_eq_div_mult)

lemma unat_PAGE_END_4K [word_facts]:
  "unat (PAGE_END a 0x1000) = unat a div 4096 * 4096 + 4095"
proof -
  have "unat a div 4096 < 2 ^ 52"
    using unat_u64_less [of a] by (simp add: less_mult_imp_div_less)
  then have "unat a div 4096 * 4096 + 4095 < 2 ^ 64" by simp
  moreover have "PAGE_END a 0x1000 = PAGE_START a 0x1000 + 4095"
    by (simp add: PAGE_END_def)
  ultimately show ?thesis
    by (simp add: unat_word_ariths unat_PAGE_START_4K)
qed

definition page_aligned :: "u64 \<Rightarrow> bool" where
  "page_aligned a \<longleftrightarrow> unat a mod 4096 = 0"

lemma page_aligned_PAGE_START: "page_aligned (PAGE_START a 0x1000)"
  by (simp add: page_aligned_def unat_PAGE_START_4K)

lemma PAGE_START_aligned [simp]: "page_aligned a \<Longrightarrow> PAGE_START a 0x1000 = a"
  by (simp add: page_aligned_def word_unat_eq_iff unat_PAGE_START)

lemma PAGE_START_idem [simp]: "PAGE_START (PAGE_START a 0x1000) 0x1000 = PAGE_START a 0x1000"
  by (rule PAGE_START_aligned) (rule page_aligned_PAGE_START)

lemma page_alignedE:
  assumes "page_aligned a"
  obtains k where "unat a = 4096 * k"
  using assms by (auto simp: page_aligned_def)

lemma PAGE_bracket: "PAGE_START a 0x1000 \<le> a \<and> a \<le> PAGE_END a 0x1000"
proof -
  have "unat a \<le> unat a div 4096 * 4096 + 4095"
    using div_mult_mod_eq [of "unat a" 4096] mod_less_divisor [of 4096 "unat a"] by linarith
  then show ?thesis
    using PAGE_START_le [of a "0x1000"] by (simp add: word_le_nat_alt unat_PAGE_END_4K)
qed

section \<open>Page-table entries: facts\<close>

lemma bit_put_bit [simp]: "n < 64 \<Longrightarrow> bit (put_bit n b e) m \<longleftrightarrow> (if m = n then b else bit e m)"
  by (auto simp: put_bit_def bit_simps)

lemma take_drop_put_bit:
  "n < m \<or> m + k \<le> n \<Longrightarrow> n < 64 \<Longrightarrow>
   take_bit k (drop_bit m (put_bit n b e)) = take_bit k (drop_bit m e)"
  by (rule bit_word_eqI) (auto simp: bit_take_bit_iff bit_drop_bit_eq)

text \<open>Writing one flag of an entry changes that flag and nothing else.\<close>

lemma pte_get_set [simp]:
  "pte_present (pte_set_present b e) = b"
  "pte_present (pte_set_writable b e) = pte_present e"
  "pte_present (pte_set_user_page b e) = pte_present e"
  "pte_present (pte_set_xd b e) = pte_present e"
  "pte_writable (pte_set_present b e) = pte_writable e"
  "pte_writable (pte_set_writable b e) = b"
  "pte_writable (pte_set_user_page b e) = pte_writable e"
  "pte_user_page (pte_set_present b e) = pte_user_page e"
  "pte_user_page (pte_set_writable b e) = pte_user_page e"
  "pte_user_page (pte_set_user_page b e) = b"
  "pte_page_size (pte_set_present b e) = pte_page_size e"
  "pte_page_size (pte_set_writable b e) = pte_page_size e"
  "pte_page_size (pte_set_user_page b e) = pte_page_size e"
  "pte_xd (pte_set_present b e) = pte_xd e"
  "pte_xd (pte_set_writable b e) = pte_xd e"
  "pte_xd (pte_set_user_page b e) = pte_xd e"
  "pte_addr (pte_set_present b e) = pte_addr e"
  "pte_addr (pte_set_writable b e) = pte_addr e"
  "pte_addr (pte_set_user_page b e) = pte_addr e"
  by (simp_all add: pte_get_defs pte_set_defs take_drop_put_bit)

section \<open>Table indices: facts\<close>

lemma VA2INDEX_take_bit: "VA2INDEX va level = take_bit 9 (drop_bit (12 + level * 9) va)"
  by (simp add: VA2INDEX_def take_bit_eq_mask mask_eq_exp_minus_1)

lemma VA2INDEX_less: "unat (VA2INDEX va level) < 512"
  by (simp add: VA2INDEX_take_bit unsigned_take_bit_eq)
    (metis take_bit_nat_less_exp [of 9, simplified])

lemma bit_sign_ext: "bit (0xFFFF000000000000 :: int) n \<longleftrightarrow> 48 \<le> n \<and> n < 64"
proof -
  have "(0xFFFF000000000000::int) = push_bit 48 (mask 16)"
    by (simp add: mask_eq_exp_minus_1)
  then show ?thesis
    by (simp only: bit_push_bit_iff bit_mask_iff) auto
qed

lemma bit_get_va:
  assumes "unat a < 512" "unat b < 512" "unat c < 512" "unat d < 512" "unat off < 4096" "n < 64"
  shows "bit (get_va a b c d off) n \<longleftrightarrow>
    (if n < 12 then bit off n else if n < 21 then bit d (n - 12) else if n < 30 then bit c (n - 21)
     else if n < 39 then bit b (n - 30) else if n < 48 then bit a (n - 39) else bit a 8)"
proof -
  note z = not_bit_if_unat_less [of a 9] not_bit_if_unat_less [of b 9]
    not_bit_if_unat_less [of c 9] not_bit_if_unat_less [of d 9] not_bit_if_unat_less [of off 12]
  have d: "d < 512"
    using assms(4) by (simp add: word_less_nat_alt)
  have a: "a AND 256 \<noteq> 0 \<longleftrightarrow> bit a 8"
    by (simp add: and_exp_eq_0_iff_not_bit [of a 8, simplified])
  show ?thesis
    using assms z d by (simp add: get_va_def Let_def a bit_simps bit_sign_ext) auto
qed

lemma take_bit_drop_bit_eqI:
  fixes w :: u64 and v :: "'a::len word"
  assumes "\<And>n. n < k \<Longrightarrow> bit w (m + n) = bit v n" "unat v < 2 ^ k" "m + k \<le> 64" "LENGTH('a) \<le> 64"
  shows "take_bit k (drop_bit m w) = ucast v"
proof (rule bit_word_eqI)
  fix n
  assume "n < LENGTH(64)"
  then show "bit (take_bit k (drop_bit m w)) n = bit (ucast v :: u64) n"
    using assms(1) [of n] assms(3) not_bit_if_unat_less [OF assms(2), of n]
    by (cases "n < k") (simp_all add: bit_simps)
qed

lemma VA2INDEX_get_va:
  assumes "unat a < 512" "unat b < 512" "unat c < 512" "unat d < 512" "unat off < 4096"
  shows "VA2INDEX (get_va a b c d off) 3 = ucast a"
    and "VA2INDEX (get_va a b c d off) 2 = ucast b"
    and "VA2INDEX (get_va a b c d off) 1 = ucast c"
    and "VA2INDEX (get_va a b c d off) 0 = ucast d"
  unfolding VA2INDEX_take_bit
  by (rule take_bit_drop_bit_eqI, simp_all add: assms bit_get_va)+

lemma offset_get_va:
  assumes "unat a < 512" "unat b < 512" "unat c < 512" "unat d < 512" "unat off < 4096"
  shows "take_bit 12 (get_va a b c d off) = ucast off"
  using take_bit_drop_bit_eqI [of 12 "get_va a b c d off" 0 off] assms
  by (simp add: bit_get_va)

lemma get_va_canonical:
  assumes "unat a < 512" "unat b < 512" "unat c < 512" "unat d < 512" "unat off < 4096"
    and n: "47 \<le> n" "n < 64"
  shows "bit (get_va a b c d off) n = bit (get_va a b c d off) 47"
proof (cases "n = 47")
  case False
  with n have "48 \<le> n" by simp
  with n show ?thesis
    by (simp add: bit_get_va [OF assms(1-5)])
qed simp

text \<open>
  C19: \<open>get_va\<close> is the inverse of the index extraction: for table indices below 512 and an offset
  inside a small page, the four indices and the offset are read back unchanged from the address,
  and the address is canonical (bits 48 to 63 repeat bit 47).
\<close>

theorem get_va_roundtrip:
  assumes "unat a < 512" "unat b < 512" "unat c < 512" "unat d < 512" "unat off < 4096"
  shows "VA2INDEX (get_va a b c d off) 3 = ucast a
    \<and> VA2INDEX (get_va a b c d off) 2 = ucast b
    \<and> VA2INDEX (get_va a b c d off) 1 = ucast c
    \<and> VA2INDEX (get_va a b c d off) 0 = ucast d
    \<and> take_bit 12 (get_va a b c d off) = ucast off
    \<and> (\<forall>n. 47 \<le> n \<and> n < 64 \<longrightarrow> bit (get_va a b c d off) n = bit (get_va a b c d off) 47)"
  using VA2INDEX_get_va [OF assms] offset_get_va [OF assms] get_va_canonical [OF assms]
  by blast

theorem get_va_roundtrip_witness:
  "VA2INDEX (get_va 510 3 511 7 0x123) 3 = 510 \<and> VA2INDEX (get_va 510 3 511 7 0x123) 0 = 7
    \<and> take_bit 12 (get_va 510 3 511 7 0x123) = 0x123"
  using get_va_roundtrip [of 510 3 511 7 "0x123"] by simp

end
