(* ===== verification/Libc_String.thy ===== *)
theory Libc_String
  imports Kernel_Prelude
begin

text \<open>
  \<open>libc/string\<close>: the byte-level memory and string routines, over a memory that maps every 64-bit
  address to a byte. Address arithmetic wraps at \<open>2 ^ 64\<close> as it does in the code. A loop
  \<open>for (i = 0; i < n; i++)\<close> without an early exit is a \<^const>\<open>fold\<close> over \<open>[0..<n]\<close>; loops with an early
  exit are recursive functions, and \<open>strlen\<close>, which runs until it meets a zero byte, is partial.
\<close>

type_synonym mem = "ptr \<Rightarrow> u8"

section \<open>The routines\<close>

text \<open>\<open>copy_byte\<close> is the loop body \<open>dst[i] = src[i]\<close>.\<close>

definition copy_byte :: "ptr \<Rightarrow> ptr \<Rightarrow> nat \<Rightarrow> mem \<Rightarrow> mem" where
  "copy_byte dst src i m = m(dst + of_nat i := m (src + of_nat i))"

definition memcpy :: "mem \<Rightarrow> ptr \<Rightarrow> ptr \<Rightarrow> u64 \<Rightarrow> mem" where
  "memcpy m dst src sz = fold (copy_byte dst src) [0..<unat sz] m"

definition memmove :: "mem \<Rightarrow> ptr \<Rightarrow> ptr \<Rightarrow> u64 \<Rightarrow> mem" where
  "memmove m dest src sz =
     (if dest < src
      then fold (copy_byte dest src) [0..<unat sz] m
      else fold (copy_byte dest src) (rev [0..<unat sz]) m)"

definition memset :: "mem \<Rightarrow> ptr \<Rightarrow> u32 \<Rightarrow> u64 \<Rightarrow> mem" where
  "memset m s c sz = fold (\<lambda>i m. m(s + of_nat i := ucast c)) [0..<unat sz] m"

function memcmp_loop :: "mem \<Rightarrow> ptr \<Rightarrow> ptr \<Rightarrow> nat \<Rightarrow> nat \<Rightarrow> int" where
  "memcmp_loop m a b sz i =
     (if i < sz
      then if m (a + of_nat i) < m (b + of_nat i) then - 1
           else if m (b + of_nat i) < m (a + of_nat i) then 1
           else memcmp_loop m a b sz (Suc i)
      else 0)"
  by pat_completeness auto
termination
  by (relation "measure (\<lambda>(m, a, b, sz, i). sz - i)") auto

definition memcmp :: "mem \<Rightarrow> ptr \<Rightarrow> ptr \<Rightarrow> u64 \<Rightarrow> int" where
  "memcmp m a b sz = memcmp_loop m a b (unat sz) 0"

partial_function (option) strlen_loop :: "mem \<Rightarrow> ptr \<Rightarrow> u64 \<Rightarrow> u64 option" where
  "strlen_loop m s len = (if m (s + len) \<noteq> 0 then strlen_loop m s (len + 1) else Some len)"

definition strlen :: "mem \<Rightarrow> ptr \<Rightarrow> u64 option" where
  "strlen m s = strlen_loop m s 0"

function strnlen_loop :: "mem \<Rightarrow> ptr \<Rightarrow> nat \<Rightarrow> nat \<Rightarrow> nat" where
  "strnlen_loop m s maxlen len =
     (if len < maxlen \<and> m (s + of_nat len) \<noteq> 0 then strnlen_loop m s maxlen (Suc len) else len)"
  by pat_completeness auto
termination
  by (relation "measure (\<lambda>(m, s, maxlen, len). maxlen - len)") auto

definition strnlen :: "mem \<Rightarrow> ptr \<Rightarrow> u64 \<Rightarrow> u64" where
  "strnlen m s maxlen = of_nat (strnlen_loop m s (unat maxlen) 0)"

definition strncpy :: "mem \<Rightarrow> ptr \<Rightarrow> ptr \<Rightarrow> u64 \<Rightarrow> mem" where
  "strncpy m dst src dsize =
     (let dlen = strnlen m src dsize;
          m = memcpy m dst src dlen
      in memset m (dst + dlen) 0 (dsize - dlen))"

function strncmp_loop :: "mem \<Rightarrow> ptr \<Rightarrow> ptr \<Rightarrow> nat \<Rightarrow> nat \<Rightarrow> int" where
  "strncmp_loop m a b n i =
     (if i < n
      then if m (a + of_nat i) < m (b + of_nat i) then - 1
           else if m (b + of_nat i) < m (a + of_nat i) then 1
           else if m (a + of_nat i) = 0 then 0
           else strncmp_loop m a b n (Suc i)
      else 0)"
  by pat_completeness auto
termination
  by (relation "measure (\<lambda>(m, a, b, n, i). n - i)") auto

definition strncmp :: "mem \<Rightarrow> ptr \<Rightarrow> ptr \<Rightarrow> u64 \<Rightarrow> int" where
  "strncmp m a b n = strncmp_loop m a b (unat n) 0"

declare memcmp_loop.simps [simp del] strnlen_loop.simps [simp del] strncmp_loop.simps [simp del]

section \<open>Byte ranges\<close>

text \<open>\<open>bytes m p n\<close> is the range of \<open>n\<close> bytes at \<open>p\<close>; \<open>offset_of a p\<close> the distance of \<open>a\<close> from \<open>p\<close>.\<close>

definition bytes :: "mem \<Rightarrow> ptr \<Rightarrow> nat \<Rightarrow> u8 list" where
  "bytes m p n = map (\<lambda>i. m (p + of_nat i)) [0..<n]"

definition fits :: "ptr \<Rightarrow> nat \<Rightarrow> bool" where
  "fits p n \<longleftrightarrow> unat p + n \<le> 2 ^ 64"

text \<open>The C string at \<open>s\<close>, cut after \<open>n\<close> bytes; and the comparison of two byte lists by their first
  difference, which \<open>memcmp\<close> is meant to compute.\<close>

definition cstring :: "mem \<Rightarrow> ptr \<Rightarrow> nat \<Rightarrow> u8 list" where
  "cstring m s n = takeWhile (\<lambda>x. x \<noteq> 0) (bytes m s n)"

fun cmp_lists :: "u8 list \<Rightarrow> u8 list \<Rightarrow> int" where
  "cmp_lists (x # xs) (y # ys) = (if x < y then - 1 else if y < x then 1 else cmp_lists xs ys)"
| "cmp_lists _ _ = 0"

lemma length_bytes [simp]: "length (bytes m p n) = n"
  by (simp add: bytes_def)

lemma nth_bytes [simp]: "i < n \<Longrightarrow> bytes m p n ! i = m (p + of_nat i)"
  by (simp add: bytes_def)

section \<open>Copying\<close>

lemma copy_byte_apply:
  "copy_byte dst src i m a = (if a = dst + of_nat i then m (src + of_nat i) else m a)"
  by (simp add: copy_byte_def)

lemma fold_copy_forward:
  assumes "n \<le> 2 ^ 64"
    and "\<And>i j. i < j \<Longrightarrow> j < n \<Longrightarrow> dst + of_nat i \<noteq> src + of_nat j"
  shows "fold (copy_byte dst src) [0..<n] m a =
    (if unat (a - dst) < n then m (src + (a - dst)) else m a)"
  using assms
proof (induction n arbitrary: a)
  case (Suc n)
  have IH: "fold (copy_byte dst src) [0..<n] m b =
    (if unat (b - dst) < n then m (src + (b - dst)) else m b)" for b
    using Suc.prems by (intro Suc.IH) auto
  have n: "n < 18446744073709551616" using Suc.prems(1) by simp
  have "\<not> unat (src + of_nat n - dst) < n"
  proof
    assume *: "unat (src + of_nat n - dst) < n"
    then show False using Suc.prems(2) [OF *] by simp
  qed
  then have src: "fold (copy_byte dst src) [0..<n] m (src + of_nat n) = m (src + of_nat n)"
    by (simp add: IH)
  show ?case
  proof (cases "a = dst + of_nat n")
    case True
    with n src show ?thesis by (simp add: copy_byte_apply [of dst src n])
  next
    case False
    with n have "unat (a - dst) < Suc n \<longleftrightarrow> unat (a - dst) < n"
      by (simp add: less_Suc_eq flip: offset_eq_iff)
    with False show ?thesis by (simp add: copy_byte_apply [of dst src n] IH)
  qed
qed simp

lemma fold_copy_backward:
  assumes "n \<le> 2 ^ 64"
    and "\<And>i j. i < j \<Longrightarrow> j < n \<Longrightarrow> dst + of_nat j \<noteq> src + of_nat i"
  shows "fold (copy_byte dst src) (rev [0..<n]) m a =
    (if unat (a - dst) < n then m (src + (a - dst)) else m a)"
  using assms
proof (induction n arbitrary: m)
  case (Suc n)
  have n: "n < 18446744073709551616" using Suc.prems(1) by simp
  let ?m = "copy_byte dst src n m"
  have IH: "fold (copy_byte dst src) (rev [0..<n]) ?m a =
    (if unat (a - dst) < n then ?m (src + (a - dst)) else ?m a)"
    using Suc.prems by (intro Suc.IH) auto
  have src: "?m (src + (a - dst)) = m (src + (a - dst))" if "unat (a - dst) < n"
    using Suc.prems(2) [OF that] by (auto simp: copy_byte_apply [of dst src n])
  have "?m a = (if unat (a - dst) = n then m (src + (a - dst)) else m a)"
    using n offset_eq_iff [of n a dst] by (auto simp: copy_byte_apply [of dst src n])
  with IH src show ?case by (simp add: less_Suc_eq)
qed simp

lemma memcpy_apply:
  assumes "\<And>i j. i < j \<Longrightarrow> j < unat sz \<Longrightarrow> dst + of_nat i \<noteq> src + of_nat j"
  shows "memcpy m dst src sz a = (if a - dst < sz then m (src + (a - dst)) else m a)"
  using fold_copy_forward [of "unat sz" dst src m a] assms unat_u64_less [of sz]
  by (simp add: memcpy_def word_less_nat_alt)

lemma no_wrap_add_neq:
  assumes "unat (q::u64) + j < 18446744073709551616" "unat p + i < unat q + j"
  shows "p + of_nat i \<noteq> q + of_nat j"
proof -
  have "unat (p + of_nat i) = unat p + i" "unat (q + of_nat j) = unat q + j"
    using assms by (simp_all add: unat_word_ariths)
  with assms(2) show ?thesis by auto
qed

lemma memmove_apply:
  assumes "fits dst (unat sz)" "fits src (unat sz)"
  shows "memmove m dst src sz a = (if a - dst < sz then m (src + (a - dst)) else m a)"
proof (cases "dst < src")
  case True
  have "dst + of_nat i \<noteq> src + of_nat j" if "i < j" "j < unat sz" for i j
    using that True assms by (intro no_wrap_add_neq) (auto simp: fits_def word_less_nat_alt)
  then show ?thesis
    using True fold_copy_forward [of "unat sz" dst src m a] unat_u64_less [of sz]
    by (simp add: memmove_def word_less_nat_alt)
next
  case False
  have "src + of_nat i \<noteq> dst + of_nat j" if "i < j" "j < unat sz" for i j
    using that False assms by (intro no_wrap_add_neq) (auto simp: fits_def word_less_nat_alt)
  then have "dst + of_nat j \<noteq> src + of_nat i" if "i < j" "j < unat sz" for i j
    using that by metis
  then show ?thesis
    using False fold_copy_backward [of "unat sz" dst src m a] unat_u64_less [of sz]
    by (simp add: memmove_def word_less_nat_alt)
qed

lemma memset_apply:
  "memset m s c sz a = (if a - s < sz then ucast c else m a)"
proof -
  have "fold (\<lambda>i m. m(s + of_nat i := v)) [0..<n] m a = (if unat (a - s) < n then v else m a)"
    if "n \<le> 18446744073709551616" for n and v :: u8
    using that by (induction n) (auto simp: less_Suc_eq offset_eq_iff)
  from this [of "unat sz" "ucast c"] show ?thesis
    using unat_u64_less [of sz] by (simp add: memset_def word_less_nat_alt)
qed

text \<open>
  C15: \<open>memmove\<close> copies correctly whether or not the two ranges overlap: afterwards the destination
  range holds the bytes the source range held before, and every byte outside the destination
  range is unchanged, provided neither range wraps around the end of the address space.
\<close>

theorem memmove_correct:
  assumes "fits dst (unat sz)" "fits src (unat sz)"
  shows "bytes (memmove m dst src sz) dst (unat sz) = bytes m src (unat sz)
    \<and> (\<forall>a. \<not> a - dst < sz \<longrightarrow> memmove m dst src sz a = m a)"
proof -
  have "bytes (memmove m dst src sz) dst (unat sz) = bytes m src (unat sz)"
    using unat_u64_less [of sz]
    by (auto intro!: nth_equalityI simp: memmove_apply [OF assms] word_less_nat_alt)
  then show ?thesis
    by (simp add: memmove_apply [OF assms])
qed

theorem memmove_correct_witness:
  "bytes (memmove (\<lambda>a. ucast a) 0x1002 0x1000 5) 0x1002 5 = [0, 1, 2, 3, 4]"
proof -
  have "bytes (memmove (\<lambda>a. ucast a) 0x1002 0x1000 5) 0x1002 5 = bytes (\<lambda>a. ucast a) 0x1000 5"
    using memmove_correct [of "0x1002" 5 "0x1000" "\<lambda>a. ucast a"] by (simp add: fits_def)
  then show ?thesis by (simp add: bytes_def upt_rec)
qed

section \<open>Comparing, measuring and copying strings\<close>

lemma bytes_drop_Cons:
  "i < n \<Longrightarrow> drop i (bytes m p n) = m (p + of_nat i) # drop (Suc i) (bytes m p n)"
  by (simp add: Cons_nth_drop_Suc [symmetric])

lemma memcmp_loop_cmp_lists:
  "memcmp_loop m a b n i = cmp_lists (drop i (bytes m a n)) (drop i (bytes m b n))"
proof (induction m a b n i rule: memcmp_loop.induct)
  case (1 m a b n i)
  show ?case
  proof (cases "i < n")
    case True
    with 1 show ?thesis
      by (simp add: memcmp_loop.simps [of m a b n i] bytes_drop_Cons)
  qed (simp add: memcmp_loop.simps [of m a b n i])
qed

lemma cmp_lists_0_iff: "length xs = length ys \<Longrightarrow> cmp_lists xs ys = 0 \<longleftrightarrow> xs = ys"
  by (induction xs ys rule: cmp_lists.induct) auto

lemma cmp_lists_neg_iff:
  "length xs = length ys \<Longrightarrow>
   cmp_lists xs ys = - 1 \<longleftrightarrow> (\<exists>k < length xs. take k xs = take k ys \<and> xs ! k < ys ! k)"
proof (induction xs ys rule: cmp_lists.induct)
  case (1 x xs y ys)
  then show ?case
    by (auto simp: Ex_less_Suc2)
qed simp_all

lemma cmp_lists_pos: "cmp_lists xs ys = - cmp_lists ys xs"
  by (induction xs ys rule: cmp_lists.induct) auto

lemma strnlen_loop_takeWhile:
  "i \<le> n \<Longrightarrow> strnlen_loop m s n i = i + length (takeWhile (\<lambda>x. x \<noteq> 0) (drop i (bytes m s n)))"
proof (induction m s n i rule: strnlen_loop.induct)
  case (1 m s n i)
  show ?case
  proof (cases "i < n")
    case True
    with 1 show ?thesis
      by (auto simp add: strnlen_loop.simps [of m s n i] bytes_drop_Cons)
  next
    case False
    with 1 show ?thesis
      by (subst strnlen_loop.simps) simp
  qed
qed

lemma strncmp_loop_0_iff:
  "strncmp_loop m a b n i = 0 \<longleftrightarrow>
    takeWhile (\<lambda>x. x \<noteq> 0) (drop i (bytes m a n)) = takeWhile (\<lambda>x. x \<noteq> 0) (drop i (bytes m b n))"
proof (induction m a b n i rule: strncmp_loop.induct)
  case (1 m a b n i)
  show ?case
  proof (cases "i < n")
    case True
    with 1 show ?thesis
      by (auto simp add: strncmp_loop.simps [of m a b n i] bytes_drop_Cons)
  qed (simp add: strncmp_loop.simps [of m a b n i])
qed

lemma unat_strnlen: "unat (strnlen m s n) = length (cstring m s (unat n))"
proof -
  have "length (cstring m s (unat n)) \<le> unat n"
    unfolding cstring_def using length_takeWhile_le [of _ "bytes m s (unat n)"] by simp
  then show ?thesis
    using unat_u64_less [of n] by (simp add: strnlen_def strnlen_loop_takeWhile cstring_def)
qed

lemma strlen_loop_Some:
  assumes "k \<le> n" "m (s + of_nat n) = 0" "\<And>j. j < n \<Longrightarrow> m (s + of_nat j) \<noteq> 0"
  shows "strlen_loop m s (of_nat k) = Some (of_nat n)"
  using assms
proof (induction "n - k" arbitrary: k)
  case 0
  then show ?case by (simp add: strlen_loop.simps)
next
  case (Suc x)
  then have "strlen_loop m s (of_nat (Suc k)) = Some (of_nat n)" by (intro Suc.hyps) auto
  with Suc.prems Suc.hyps show ?case
    by (subst strlen_loop.simps) (simp add: add.commute)
qed

lemma unat_strnlen_le: "unat (strnlen m s n) \<le> unat n"
  using length_takeWhile_le [of "\<lambda>x. x \<noteq> 0" "bytes m s (unat n)"]
  by (simp add: unat_strnlen cstring_def)

lemma strncpy_apply:
  assumes "fits dst (unat n)" "fits src (unat n)"
    and "unat dst + unat n \<le> unat src \<or> unat src + unat n \<le> unat dst"
  shows "strncpy m dst src n a =
     (if a - dst < strnlen m src n then m (src + (a - dst)) else if a - dst < n then 0 else m a)"
proof -
  let ?k = "strnlen m src n"
  note k = unat_strnlen_le [of m src n]
  have "dst + of_nat i \<noteq> src + of_nat j" if "i < j" "j < unat ?k" for i j
  proof (cases "unat dst + unat n \<le> unat src")
    case True
    show ?thesis using that True k assms by (intro no_wrap_add_neq) (auto simp: fits_def)
  next
    case False
    show ?thesis using that False k assms 
      by (intro no_wrap_add_neq [THEN not_sym]) (auto simp: fits_def)
  qed
  then have cp: "memcpy m dst src ?k a = (if a - dst < ?k then m (src + (a - dst)) else m a)" for a
    by (rule memcpy_apply)
  have res: "strncpy m dst src n a =
     (if a - (dst + ?k) < n - ?k then 0 else if a - dst < ?k then m (src + (a - dst)) else m a)" for a
    by (simp add: strncpy_def Let_def memset_apply cp)
  show ?thesis
    using word_range_sub [of ?k n "a - dst"] k
    by (auto simp: res word_le_nat_alt word_less_nat_alt diff_diff_eq [symmetric])
qed

text \<open>
  C24: \<open>memcmp\<close> compares two ranges by their first differing byte: it agrees with the reference
  comparison of the two byte lists; it is 0 exactly when the ranges hold the same bytes, and
  \<open>-1\<close> exactly when at the first difference the first range holds the smaller byte.
\<close>

theorem memcmp_correct:
  "memcmp m a b sz = cmp_lists (bytes m a (unat sz)) (bytes m b (unat sz))
    \<and> (memcmp m a b sz = 0 \<longleftrightarrow> bytes m a (unat sz) = bytes m b (unat sz))
    \<and> (memcmp m a b sz = - 1 \<longleftrightarrow>
         (\<exists>k < unat sz. take k (bytes m a (unat sz)) = take k (bytes m b (unat sz))
            \<and> m (a + of_nat k) < m (b + of_nat k)))"
proof -
  have "memcmp m a b sz = cmp_lists (bytes m a (unat sz)) (bytes m b (unat sz))"
    by (simp add: memcmp_def memcmp_loop_cmp_lists)
  then show ?thesis
    by (auto simp: cmp_lists_0_iff cmp_lists_neg_iff)
qed

text \<open>
  \<open>strncpy\<close> fills exactly the \<open>dsize\<close> bytes of the destination: the source string, cut after
  \<open>dsize\<close> bytes, followed by zeros; no other byte changes. The ranges must not overlap (the
  parameters are \<open>restrict\<close>) nor wrap around.
\<close>

lemma strncpy_correct:
  assumes "fits dst (unat n)" "fits src (unat n)"
    and "unat dst + unat n \<le> unat src \<or> unat src + unat n \<le> unat dst"
  shows "bytes (strncpy m dst src n) dst (unat n) =
      cstring m src (unat n) @ replicate (unat n - length (cstring m src (unat n))) 0
    \<and> (\<forall>a. \<not> a - dst < n \<longrightarrow> strncpy m dst src n a = m a)"
proof -
  note k = unat_strnlen_le [of m src n]
  note res' = strncpy_apply [OF assms]
  have "bytes (strncpy m dst src n) dst (unat n) =
      cstring m src (unat n) @ replicate (unat n - length (cstring m src (unat n))) 0"
  proof (rule nth_equalityI)
    fix i
    assume "i < length (bytes (strncpy m dst src n) dst (unat n))"
    then have i: "i < unat n" "unat (of_nat i :: u64) = i" using unat_u64_less [of n] by simp_all
    then show "bytes (strncpy m dst src n) dst (unat n) ! i =
       (cstring m src (unat n) @ replicate (unat n - length (cstring m src (unat n))) 0) ! i"
      using takeWhile_nth [of i "\<lambda>x. x \<noteq> 0" "bytes m src (unat n)"]
      by (simp add: res' word_less_nat_alt nth_append unat_strnlen cstring_def)
  qed (use k in \<open>simp add: unat_strnlen\<close>)
  moreover have "strncpy m dst src n a = m a" if "\<not> a - dst < n" for a
    using that k by (auto simp: res' word_le_nat_alt word_less_nat_alt)
  ultimately show ?thesis by blast
qed
text \<open>Comparing strings: \<open>strncmp\<close> returns 0 exactly when the strings agree up to their terminator or
  up to \<open>n\<close> bytes; and \<open>strlen\<close> returns when there is a terminator.\<close>

lemma strncmp_0_iff:
  "strncmp m a b n = 0 \<longleftrightarrow> cstring m a (unat n) = cstring m b (unat n)"
  by (simp add: strncmp_def strncmp_loop_0_iff cstring_def)

lemma strlen_Some:
  "m (s + of_nat n) = 0 \<Longrightarrow> (\<And>j. j < n \<Longrightarrow> m (s + of_nat j) \<noteq> 0) \<Longrightarrow> strlen m s = Some (of_nat n)"
  using strlen_loop_Some [of 0 n m s] by (simp add: strlen_def)

end
