(* ===== verification/Phys_Allocator.thy ===== *)
theory Phys_Allocator
  imports Kernel_List Memory_Layout Libc_String
begin

text \<open>
  \<open>kernel/arch/x86-64/memory/physical_allocator.c\<close>: the allocator of 4 KiB physical pages. Free pages
  hang on a list that is threaded through the pages themselves, at the addresses where the window
  at \<open>PHYSICAL_OFFSET\<close> shows them; a bitmap at the start of the memory records the pages in use.
\<close>

section \<open>State and operations\<close>

text \<open>
  \<open>free_lst\<close> and \<open>phys_alloc_lock\<close> are the addresses the linker gives to these two objects; the other
  fields are the static variables of the file and the byte memory in which the bitmap lies.
\<close>

record phys_state = list_state +
  free_lst :: ptr
  phys_alloc_lock :: ptr
  pa_base :: u64
  pa_alloc :: ptr
  pa_alloc_size :: u64
  phys_mem :: mem

definition page_index :: "'a phys_state_scheme \<Rightarrow> u64 \<Rightarrow> u64" where
  "page_index s a = (PAGE_START a PAGE_SIZE - pa_base s) div PAGE_SIZE"

definition page_addr :: "'a phys_state_scheme \<Rightarrow> u64 \<Rightarrow> u64" where
  "page_addr s i = pa_base s + i * PAGE_SIZE"

definition bit_isset :: "'a phys_state_scheme \<Rightarrow> u64 \<Rightarrow> bool" where
  "bit_isset s i = bit (phys_mem s (pa_alloc s + i div 8)) (unat (i mod 8))"

definition bit_set :: "u64 \<Rightarrow> 'a phys_state_scheme \<Rightarrow> 'a phys_state_scheme" where
  "bit_set i s =
     (let a = pa_alloc s + i div 8
      in s\<lparr>phys_mem := (phys_mem s)(a := phys_mem s a OR push_bit (unat (i mod 8)) 1)\<rparr>)"

definition bit_clear :: "u64 \<Rightarrow> 'a phys_state_scheme \<Rightarrow> 'a phys_state_scheme" where
  "bit_clear i s =
     (let a = pa_alloc s + i div 8
      in s\<lparr>phys_mem := (phys_mem s)(a := phys_mem s a AND NOT (push_bit (unat (i mod 8)) 1))\<rparr>)"

text \<open>\<open>init_phys_pages\<close> is the second half of \<open>init_phys_allocator\<close>, its three loops over the pages.\<close>

definition init_phys_pages :: "u64 \<Rightarrow> 'a phys_state_scheme \<Rightarrow> 'a phys_state_scheme res" where
  "init_phys_pages page_count s =
     (let index = page_index s (pa_base s + pa_alloc_size s - 1) + 1;
          s = fold (\<lambda>i. bit_set (of_nat i)) [0..<unat index] s
      in bind_res
           (iter_res (\<lambda>i s. lst_push_end (free_lst s) (pa_base s + of_nat i * PAGE_SIZE + PHYSICAL_OFFSET) s)
              [unat index..<unat page_count] s) (\<lambda>s.
         Inr (fold (\<lambda>i. bit_set (of_nat i))
                [max (unat index) (unat page_count)..<unat (pa_alloc_size s * 8)] s)))"

definition init_phys_allocator :: "u64 \<Rightarrow> u64 \<Rightarrow> 'a phys_state_scheme \<Rightarrow> 'a phys_state_scheme res" where
  "init_phys_allocator start sz s =
     bind_res (lst_init (free_lst s) s) (\<lambda>s.
     let s = s\<lparr>pa_base := PAGE_END start PAGE_SIZE + 1\<rparr>;
         page_count = sz div PAGE_SIZE
     in if page_count = 0 then Inr s
        else
          let s = s\<lparr>pa_alloc := pa_base s + PHYSICAL_OFFSET, pa_alloc_size := (page_count - 1) div 8 + 1\<rparr>;
              s = s\<lparr>phys_mem := memset (phys_mem s) (pa_alloc s) 0 (pa_alloc_size s)\<rparr>
          in init_phys_pages page_count s)"

definition kalloc :: "'a phys_state_scheme \<Rightarrow> (ptr \<times> 'a phys_state_scheme) res" where
  "kalloc s =
     bind_res (acquire (phys_alloc_lock s) s) (\<lambda>s.
     bind_res (lst_empty (free_lst s) s) (\<lambda>e.
     if e then bind_res (release (phys_alloc_lock s) s) (\<lambda>s. Inr (0, s))
     else bind_res (lst_pop (free_lst s) s) (\<lambda>(n, s).
          let page = n - PHYSICAL_OFFSET;
              s = bit_set (page_index s page) s
          in bind_res (release (phys_alloc_lock s) s) (\<lambda>s. Inr (page, s)))))"

definition kfree :: "ptr \<Rightarrow> 'a phys_state_scheme \<Rightarrow> 'a phys_state_scheme res" where
  "kfree page s =
     (let a = PAGE_START page PAGE_SIZE;
          index = page_index s a
      in if \<not> bit_isset s index then Inr s
         else bind_res (acquire (phys_alloc_lock s) s) (\<lambda>s.
              bind_res (lst_push (free_lst s) (a + PHYSICAL_OFFSET) s) (\<lambda>s.
              release (phys_alloc_lock s) (bit_clear index s))))"

section \<open>Pages and the bitmap\<close>

text \<open>\<open>page_va s i\<close> is the address of page \<open>i\<close> in the window, \<open>page_pa s i\<close> its physical address.\<close>

definition page_pa :: "'a phys_state_scheme \<Rightarrow> nat \<Rightarrow> u64" where
  "page_pa s i = pa_base s + of_nat i * 0x1000"

definition page_va :: "'a phys_state_scheme \<Rightarrow> nat \<Rightarrow> u64" where
  "page_va s i = page_pa s i + 0xFFFFFE8000000000"

text \<open>
  \<open>phys_wf s n\<close>: the allocator manages \<open>n\<close> pages that start at an aligned, non-zero address and lie in
  the 512 GiB that the window shows, and the list head lies outside the window.
\<close>

definition phys_wf :: "'a phys_state_scheme \<Rightarrow> nat \<Rightarrow> bool" where
  "phys_wf s n \<longleftrightarrow>
     page_aligned (pa_base s) \<and> 0 < unat (pa_base s) \<and> unat (pa_base s) + n * 4096 \<le> 2 ^ 39
     \<and> free_lst s \<noteq> NULL \<and> \<not> free_lst s - 0xFFFFFE8000000000 < 0x8000000000
     \<and> phys_alloc_lock s \<noteq> NULL"

lemma unat_page_pa:
  assumes "phys_wf s n" "i < n"
  shows "unat (page_pa s i) = unat (pa_base s) + i * 4096"
proof -
  have "unat (pa_base s) + i * 4096 < 2 ^ 39" using assms by (simp add: phys_wf_def)
  then have "unat (of_nat i * 0x1000 :: u64) = i * 4096"
    by (simp add: unat_word_ariths unsigned_of_nat take_bit_nat_eq_self)
  then show ?thesis
    using \<open>unat (pa_base s) + i * 4096 < 2 ^ 39\<close> by (simp add: page_pa_def unat_word_ariths)
qed

lemma page_pa_facts:
  assumes "phys_wf s n" "i < n"
  shows "page_aligned (page_pa s i)" "page_pa s i \<noteq> 0" "page_pa s i < 0x8000000000"
    "page_index s (page_pa s i) = of_nat i" "page_va s i \<noteq> NULL" "page_va s i \<noteq> free_lst s"
proof -
  note u = unat_page_pa [OF assms]
  have b: "unat (pa_base s) + i * 4096 < 2 ^ 39" "0 < unat (pa_base s)"
    using assms by (auto simp: phys_wf_def)
  show al: "page_aligned (page_pa s i)"
    using assms by (simp add: page_aligned_def u phys_wf_def mod_add_eq)
  show "page_pa s i \<noteq> 0" using u b by auto
  show lt: "page_pa s i < 0x8000000000" using u b by (simp add: word_less_nat_alt)
  have "page_pa s i - pa_base s = of_nat i * 0x1000" by (simp add: page_pa_def)
  moreover have "unat (of_nat i * 0x1000 :: u64) = i * 4096"
    using b by (simp add: unat_word_ariths unsigned_of_nat take_bit_nat_eq_self)
  ultimately show "page_index s (page_pa s i) = of_nat i"
    using al b by (simp add: page_index_def word_unat_eq_iff unat_div)
  have "unat (page_va s i) = unat (page_pa s i) + 0xFFFFFE8000000000"
    using u b by (simp add: page_va_def unat_word_ariths)
  then show "page_va s i \<noteq> NULL" by auto
  have "page_va s i - 0xFFFFFE8000000000 = page_pa s i" by (simp add: page_va_def)
  with lt show "page_va s i \<noteq> free_lst s" using assms(1) by (auto simp: phys_wf_def)
qed

lemma page_pa_inj:
  assumes "phys_wf s n" "i < n" "j < n" "page_pa s i = page_pa s j"
  shows "i = j"
proof -
  have "unat (page_pa s i) = unat (page_pa s j)" using assms(4) by (rule arg_cong)
  then show ?thesis unfolding unat_page_pa [OF assms(1,2)] unat_page_pa [OF assms(1,3)] by linarith
qed

lemma of_nat_page_inj:
  assumes "phys_wf s n" "i < n" "j < n"
  shows "(of_nat i :: u64) = of_nat j \<longleftrightarrow> i = j"
proof -
  have "i < 18446744073709551616" "j < 18446744073709551616"
    using assms by (auto simp: phys_wf_def)
  then show ?thesis by (metis unat_of_nat_u64)
qed

lemma bitmap_index_eq: "(i::u64) = j \<longleftrightarrow> i div 8 = j div 8 \<and> i mod 8 = j mod 8"
  by (metis div_mult_mod_eq)

lemma mod_8_less: "unat ((i::u64) mod 8) < 8"
  by (simp add: unat_mod)

lemma bit_isset_bit_set [simp]:
  "bit_isset (bit_set i s) j \<longleftrightarrow> i = j \<or> bit_isset s j"
proof -
  have "unat (i mod 8) = unat (j mod 8) \<longleftrightarrow> i mod 8 = j mod 8" by (simp add: word_unat_eq_iff)
  then show ?thesis
    using bitmap_index_eq [of i j] mod_8_less [of i] mod_8_less [of j]
    by (auto simp: bit_isset_def bit_set_def Let_def bit_or_iff bit_push_bit_iff bit_exp_iff)
qed

lemma bit_isset_bit_clear [simp]:
  "bit_isset (bit_clear i s) j \<longleftrightarrow> i \<noteq> j \<and> bit_isset s j"
proof -
  have "unat (i mod 8) = unat (j mod 8) \<longleftrightarrow> i mod 8 = j mod 8" by (simp add: word_unat_eq_iff)
  then show ?thesis
    using bitmap_index_eq [of i j] mod_8_less [of i] mod_8_less [of j]
    by (auto simp: bit_isset_def bit_clear_def Let_def bit_and_iff bit_not_iff bit_push_bit_iff bit_exp_iff)
qed

text \<open>The locking and bitmap operations leave the allocator's variables and the list links alone.\<close>

lemma locked_fields [simp]:
  "lst_prev (locked l s) = lst_prev s" "lst_next (locked l s) = lst_next s"
  "free_lst (locked l s) = free_lst s" "phys_alloc_lock (locked l s) = phys_alloc_lock s"
  "pa_base (locked l s) = pa_base s" "pa_alloc (locked l s) = pa_alloc s"
  "pa_alloc_size (locked l s) = pa_alloc_size s" "phys_mem (locked l s) = phys_mem s"
  "apic_id (locked l s) = apic_id s" "phys_state.more (locked l s) = phys_state.more s"
  for s :: "'a phys_state_scheme"
  by (simp_all add: locked_def)

lemma unlocked_fields [simp]:
  "lst_prev (unlocked l s) = lst_prev s" "lst_next (unlocked l s) = lst_next s"
  "free_lst (unlocked l s) = free_lst s" "phys_alloc_lock (unlocked l s) = phys_alloc_lock s"
  "pa_base (unlocked l s) = pa_base s" "pa_alloc (unlocked l s) = pa_alloc s"
  "pa_alloc_size (unlocked l s) = pa_alloc_size s" "phys_mem (unlocked l s) = phys_mem s"
  "apic_id (unlocked l s) = apic_id s" "phys_state.more (unlocked l s) = phys_state.more s"
  "spinlocks (unlocked l s) k = (if k = l then (spinlocks s l)\<lparr>held := 0, lock_cpu_id := 0\<rparr> else spinlocks s k)"
  for s :: "'a phys_state_scheme"
  by (simp_all add: unlocked_def Let_def)

lemma bit_op_fields:
  assumes "s' = bit_set i s \<or> s' = bit_clear i s"
  shows "lst_prev s' = lst_prev s" "lst_next s' = lst_next s"
    "free_lst s' = free_lst s" "phys_alloc_lock s' = phys_alloc_lock s"
    "pa_base s' = pa_base s" "pa_alloc s' = pa_alloc s" "pa_alloc_size s' = pa_alloc_size s"
    "apic_id s' = apic_id s" "phys_state.more s' = phys_state.more s"
    "spinlocks s' = spinlocks s" "this_cpu s' = this_cpu s"
  using assms by (auto simp: bit_set_def bit_clear_def Let_def this_cpu_def)

lemmas bit_set_fields [simp] = bit_op_fields [OF disjI1 [OF refl]]
lemmas bit_clear_fields [simp] = bit_op_fields [OF disjI2 [OF refl]]

lemma lst_rel_phys_ops [simp]:
  "lst_rel (locked l s) h xs = lst_rel s h xs" "lst_rel (unlocked l s) h xs = lst_rel s h xs"
  "lst_rel (bit_set i s) h xs = lst_rel s h xs" "lst_rel (bit_clear i s) h xs = lst_rel s h xs"
  for s :: "'a phys_state_scheme"
  by (rule lst_rel_cong; simp)+

lemma bit_isset_locks [simp]:
  "bit_isset (locked l s) i = bit_isset s i" "bit_isset (unlocked l s) i = bit_isset s i"
  by (simp_all add: bit_isset_def)

lemma same_outside_fields:
  assumes "same_outside A s s'"
  shows "free_lst s' = free_lst s" "phys_alloc_lock s' = phys_alloc_lock s"
    "pa_base s' = pa_base s" "pa_alloc s' = pa_alloc s" "pa_alloc_size s' = pa_alloc_size s"
    "apic_id s' = apic_id s" "phys_state.more s' = phys_state.more s" "phys_mem s' = phys_mem s"
    "spinlocks s' = spinlocks s" "this_cpu s' = this_cpu s" "bit_isset s' = bit_isset s"
proof -
  have s': "s' = s\<lparr>lst_prev := lst_prev s', lst_next := lst_next s'\<rparr>"
    using assms by (simp add: same_outside_def)
  show "free_lst s' = free_lst s" "phys_alloc_lock s' = phys_alloc_lock s"
    "pa_base s' = pa_base s" "pa_alloc s' = pa_alloc s" "pa_alloc_size s' = pa_alloc_size s"
    "apic_id s' = apic_id s" "phys_state.more s' = phys_state.more s" "phys_mem s' = phys_mem s"
    "spinlocks s' = spinlocks s" "this_cpu s' = this_cpu s" "bit_isset s' = bit_isset s"
    by (subst s', simp add: this_cpu_def bit_isset_def fun_eq_iff)+
qed

section \<open>The invariant\<close>

definition phys_inv :: "'a phys_state_scheme \<Rightarrow> nat \<Rightarrow> nat list \<Rightarrow> bool" where
  "phys_inv s n is \<longleftrightarrow>
     phys_wf s n \<and> lst_rel s (free_lst s) (map (page_va s) is) \<and> distinct is
     \<and> (\<forall>i \<in> set is. i < n) \<and> (\<forall>i < n. bit_isset s (of_nat i) \<longleftrightarrow> i \<notin> set is)
     \<and> held (spinlocks s (phys_alloc_lock s)) = 0"

text \<open>\<open>phys_static s s'\<close>: nothing but locking state, list links and bitmap changed.\<close>

definition phys_static :: "'a phys_state_scheme \<Rightarrow> 'a phys_state_scheme \<Rightarrow> bool" where
  "phys_static s s' \<longleftrightarrow>
     free_lst s' = free_lst s \<and> phys_alloc_lock s' = phys_alloc_lock s \<and> pa_base s' = pa_base s
     \<and> pa_alloc s' = pa_alloc s \<and> pa_alloc_size s' = pa_alloc_size s \<and> apic_id s' = apic_id s
     \<and> (\<forall>l. l \<noteq> phys_alloc_lock s \<longrightarrow> spinlocks s' l = spinlocks s l)
     \<and> phys_state.more s' = phys_state.more s"

lemma phys_static_wf: "phys_static s s' \<Longrightarrow> phys_wf s' n = phys_wf s n"
  by (simp add: phys_static_def phys_wf_def)

lemma phys_static_pages: "phys_static s s' \<Longrightarrow> page_pa s' = page_pa s \<and> page_va s' = page_va s"
  by (auto simp: phys_static_def page_pa_def page_va_def fun_eq_iff)

lemma page_va_sub [simp]: "page_va s i - 0xFFFFFE8000000000 = page_pa s i"
  by (simp add: page_va_def)

lemma kalloc_spec:
  assumes inv: "phys_inv s n is"
  shows "\<exists>s'. kalloc s = Inr (case is of [] \<Rightarrow> 0 | i # _ \<Rightarrow> page_pa s i, s') \<and> phys_inv s' n (tl is)
    \<and> phys_static s s'"
proof -
  let ?l = "phys_alloc_lock s" and ?h = "free_lst s"
  let ?s1 = "locked ?l s"
  have wf: "phys_wf s n" and rel: "lst_rel ?s1 ?h (map (page_va s) is)"
    using inv by (simp_all add: phys_inv_def)
  have l: "?l \<noteq> NULL" using wf by (simp add: phys_wf_def)
  have acq: "acquire ?l s = Inr ?s1"
    using inv l by (intro acquire_free) (simp_all add: phys_inv_def)
  show ?thesis
  proof (cases "is")
    case Nil
    let ?s' = "unlocked ?l ?s1"
    have "kalloc s = Inr (0, ?s')"
      using acq rel Nil release_locked [OF l, of ?s1] by (simp add: kalloc_def lst_empty_rel)
    moreover have st: "phys_static s ?s'"
      by (simp add: phys_static_def locked_def)
    then have "phys_inv ?s' n (tl is)"
      using inv Nil phys_static_wf [OF st] by (simp add: phys_inv_def)
    ultimately show ?thesis using st Nil by auto
  next
    case (Cons i js)
    from rel [unfolded Cons] obtain s2 where s2: "lst_pop ?h ?s1 = Inr (page_va s i, s2)"
        "lst_rel s2 ?h (map (page_va s) js)" "same_outside (set (?h # map (page_va s) (i # js))) ?s1 s2"
      using klist.pop_rel [of ?s1 ?h "page_va s i" "map (page_va s) js"] by auto
    note f = same_outside_fields [OF s2(3)]
    let ?s' = "unlocked ?l (bit_set (of_nat i) s2)"
    have i: "i < n" using inv Cons by (simp add: phys_inv_def)
    have "page_index s2 (page_pa s i) = of_nat i"
      using page_pa_facts(4) [OF wf i] by (simp add: page_index_def f)
    then have "kalloc s = Inr (page_pa s i, ?s')"
      using acq rel Cons s2(1) f release_locked [OF l, of "bit_set (of_nat i) s2"]
      by (simp add: kalloc_def lst_empty_rel)
    moreover have st: "phys_static s ?s'"
      using f by (simp add: phys_static_def locked_def)
    moreover have "bit_isset ?s' (of_nat j) \<longleftrightarrow> j \<notin> set js" if "j < n" for j
      using inv Cons i that of_nat_page_inj [OF wf i that] by (auto simp: phys_inv_def f)
    then have "phys_inv ?s' n js"
      using inv Cons s2(2) f phys_static_wf [OF st] phys_static_pages [OF st]
      by (simp add: phys_inv_def)
    ultimately show ?thesis using Cons by simp
  qed
qed

lemma kfree_spec:
  assumes inv: "phys_inv s n is" and i: "i < n" and p: "PAGE_START p 0x1000 = page_pa s i"
  shows "\<exists>s'. kfree p s = Inr s' \<and> phys_inv s' n (if i \<in> set is then is else i # is) \<and> phys_static s s'"
proof (cases "i \<in> set is")
  case True
  have wf: "phys_wf s n" using inv by (simp add: phys_inv_def)
  have "\<not> bit_isset s (of_nat i)" using True inv i by (simp add: phys_inv_def)
  then have "kfree p s = Inr s"
    by (simp add: kfree_def Let_def p page_pa_facts(4) [OF wf i])
  with True inv show ?thesis by (simp add: phys_static_def)
next
  case False
  let ?l = "phys_alloc_lock s" and ?h = "free_lst s"
  let ?s1 = "locked ?l s"
  have wf: "phys_wf s n" and rel: "lst_rel ?s1 ?h (map (page_va s) is)"
    using inv by (simp_all add: phys_inv_def)
  have l: "?l \<noteq> NULL" using wf by (simp add: phys_wf_def)
  have acq: "acquire ?l s = Inr ?s1"
    using inv l by (intro acquire_free) (simp_all add: phys_inv_def)
  have "page_va s i \<notin> page_va s ` set is"
  proof
    assume "page_va s i \<in> page_va s ` set is"
    then obtain j where j: "j \<in> set is" "page_pa s i = page_pa s j" by (auto simp: page_va_def)
    then have "j < n" using inv by (simp add: phys_inv_def)
    from page_pa_inj [OF wf i this j(2)] j(1) False show False by simp
  qed
  then obtain s2 where s2: "lst_push ?h (page_va s i) ?s1 = Inr s2"
      "lst_rel s2 ?h (map (page_va s) (i # is))" "same_outside (set (?h # page_va s i # map (page_va s) is)) ?s1 s2"
    using klist.push_rel [OF rel, of "page_va s i"] page_pa_facts(5,6) [OF wf i] by auto
  note f = same_outside_fields [OF s2(3)]
  let ?s' = "unlocked ?l (bit_clear (of_nat i) s2)"
  have "bit_isset s (of_nat i)" using False inv i by (simp add: phys_inv_def)
  then have "kfree p s = Inr ?s'"
    using acq s2(1) f release_locked [OF l, of "bit_clear (of_nat i) s2"]
    by (simp add: kfree_def Let_def page_va_def p page_pa_facts(4) [OF wf i])
  moreover have st: "phys_static s ?s'"
    using f by (simp add: phys_static_def locked_def)
  moreover have "bit_isset ?s' (of_nat j) \<longleftrightarrow> j \<notin> set (i # is)" if "j < n" for j
    using inv i that of_nat_page_inj [OF wf i that] by (auto simp: phys_inv_def f)
  then have "phys_inv ?s' n (i # is)"
    using inv False i s2(2) f phys_static_wf [OF st] phys_static_pages [OF st]
    by (simp add: phys_inv_def)
  ultimately show ?thesis using False by simp
qed

section \<open>Initialisation\<close>

definition set_bits :: "nat list \<Rightarrow> 'a phys_state_scheme \<Rightarrow> 'a phys_state_scheme" where
  "set_bits is s = fold (\<lambda>i. bit_set (of_nat i)) is s"

lemma bit_isset_set_bits:
  "bit_isset (set_bits is s) j \<longleftrightarrow> bit_isset s j \<or> (\<exists>i \<in> set is. of_nat i = j)"
  unfolding set_bits_def by (induction "is" arbitrary: s) auto

lemma set_bits_frame: "set_bits is s = s\<lparr>phys_mem := phys_mem (set_bits is s)\<rparr>"
  unfolding set_bits_def
proof (induction "is" arbitrary: s)
  case (Cons i "is")
  show ?case
    using Cons [of "bit_set (of_nat i) s"] by (simp add: bit_set_def Let_def)
qed simp

lemma set_bits_fields [simp]:
  "free_lst (set_bits is s) = free_lst s" "phys_alloc_lock (set_bits is s) = phys_alloc_lock s"
  "pa_base (set_bits is s) = pa_base s" "pa_alloc (set_bits is s) = pa_alloc s"
  "pa_alloc_size (set_bits is s) = pa_alloc_size s" "spinlocks (set_bits is s) = spinlocks s"
  "apic_id (set_bits is s) = apic_id s" "lst_prev (set_bits is s) = lst_prev s" "lst_next (set_bits is s) = lst_next s"
  "phys_state.more (set_bits is s) = phys_state.more s"
  by (subst set_bits_frame, simp)+

lemma lst_rel_set_bits [simp]: "lst_rel (set_bits is s) h xs = lst_rel s h xs"
  by (rule lst_rel_cong) simp

lemma page_set_bits [simp]: "page_va (set_bits is s) = page_va s" "page_pa (set_bits is s) = page_pa s"
  by (simp_all add: page_va_def page_pa_def fun_eq_iff)

lemma push_pages:
  assumes "lst_rel s (free_lst s) (map (page_va s) xs)" "phys_wf s n" "distinct (xs @ ys)"
    "\<forall>i \<in> set (xs @ ys). i < n"
  shows "\<exists>s'. iter_res (\<lambda>i s. lst_push_end (free_lst s)
        (pa_base s + of_nat i * PAGE_SIZE + PHYSICAL_OFFSET) s) ys s = Inr s'
    \<and> lst_rel s' (free_lst s) (map (page_va s) (xs @ ys)) \<and> same_outside UNIV s s'"
  using assms
proof (induction ys arbitrary: s xs)
  case Nil
  then show ?case by (simp add: same_outside_def)
next
  case (Cons y ys)
  have y: "y < n" using Cons.prems(4) by simp
  have "page_va s y \<notin> page_va s ` set xs"
  proof
    assume "page_va s y \<in> page_va s ` set xs"
    then obtain j where j: "j \<in> set xs" "page_pa s y = page_pa s j" by (auto simp: page_va_def)
    with Cons.prems page_pa_inj [OF Cons.prems(2) y] have "y = j" by simp
    with j(1) Cons.prems(3) show False by simp
  qed
  then obtain s1 where s1: "lst_push_end (free_lst s) (page_va s y) s = Inr s1"
      "lst_rel s1 (free_lst s) (map (page_va s) (xs @ [y]))" "same_outside UNIV s s1"
    using klist.push_end_rel [OF Cons.prems(1), of "page_va s y"] page_pa_facts(5,6) [OF Cons.prems(2) y]
    by (auto simp: same_outside_def)
  note f = same_outside_fields [OF s1(3)]
  have va: "page_va s1 = page_va s" "phys_wf s1 n"
    using Cons.prems(2) by (auto simp: page_va_def page_pa_def f fun_eq_iff phys_wf_def)
  obtain s2 where s2: "iter_res (\<lambda>i s. lst_push_end (free_lst s)
        (pa_base s + of_nat i * PAGE_SIZE + PHYSICAL_OFFSET) s) ys s1 = Inr s2"
      "lst_rel s2 (free_lst s) (map (page_va s) (xs @ y # ys))" "same_outside UNIV s1 s2"
    using Cons.IH [of s1 "xs @ [y]"] s1(2) Cons.prems(3,4) va f by auto
  have "same_outside UNIV s s2"
    using same_outside_trans [OF s1(3) s2(3)] by simp
  moreover have "page_va s y = pa_base s + of_nat y * PAGE_SIZE + PHYSICAL_OFFSET"
    by (simp add: page_va_def page_pa_def)
  ultimately show ?case using s1(1) s2 by simp
qed

lemma PAGE_END_plus_1:
  assumes "unat a div 4096 * 4096 + 4096 < 2 ^ 64"
  shows "unat (PAGE_END a 0x1000 + 1) = unat a div 4096 * 4096 + 4096"
  using assms by (simp add: unat_word_ariths unat_PAGE_END_4K)

text \<open>The number of pages at the start of the memory that the bitmap for \<open>n\<close> pages occupies.\<close>

definition bitmap_pages :: "nat \<Rightarrow> nat" where
  "bitmap_pages n = (n - 1) div 32768 + 1"

lemma init_index:
  assumes "page_aligned (pa_base s)" "unat (pa_base s) + n * 4096 \<le> 2 ^ 39" "0 < n"
    and sz: "unat (pa_alloc_size s) = (n - 1) div 8 + 1"
  shows "unat (page_index s (pa_base s + pa_alloc_size s - 1) + 1) = bitmap_pages n"
proof -
  let ?x = "pa_base s + pa_alloc_size s - 1"
  define d where "d = (n - 1) div 8"
  obtain k where k: "unat (pa_base s) = 4096 * k" using assms(1) by (rule page_alignedE)
  have d: "unat (pa_base s) + d < 2 ^ 39" using assms(2,3) by (simp add: d_def)
  have "pa_alloc_size s = of_nat (Suc d)"
    using sz of_nat_unat_u64 [of "pa_alloc_size s"] by (simp add: d_def)
  then have "?x = pa_base s + of_nat d" by simp
  moreover have "unat (pa_base s + of_nat d) = unat (pa_base s) + d"
    using d by (simp add: unat_word_ariths)
  ultimately have x: "unat (PAGE_START ?x 0x1000) = unat (pa_base s) + d div 4096 * 4096"
    by (simp only: unat_PAGE_START_4K k) simp
  then have "pa_base s \<le> PAGE_START ?x 0x1000" by (simp only: word_le_nat_alt)
  with x have "unat (page_index s ?x) = d div 4096"
    by (simp add: page_index_def unat_div unat_sub)
  moreover have "d div 4096 = (n - 1) div 32768" by (simp add: d_def flip: div_mult2_eq)
  ultimately show ?thesis
    using d by (simp add: bitmap_pages_def unat_word_ariths)
qed

lemma init_phys_pages_spec:
  assumes wf: "phys_wf s n" "0 < n" and rel: "lst_rel s (free_lst s) []"
    and sz: "unat (pa_alloc_size s) = (n - 1) div 8 + 1"
    and zero: "\<And>j. j < n \<Longrightarrow> \<not> bit_isset s (of_nat j)"
    and held: "held (spinlocks s (phys_alloc_lock s)) = 0" and pc: "unat page_count = n"
  shows "\<exists>s'. init_phys_pages page_count s = Inr s' \<and> phys_inv s' n [bitmap_pages n..<n]
    \<and> phys_static s s'"
proof -
  have idx: "unat (page_index s (pa_base s + pa_alloc_size s - 1) + 1) = bitmap_pages n"
    using wf sz by (intro init_index) (simp_all add: phys_wf_def)
  have le: "bitmap_pages n \<le> n" using wf(2) by (simp add: bitmap_pages_def)
  let ?s3 = "set_bits [0..<bitmap_pages n] s"
  have rel3: "lst_rel ?s3 (free_lst ?s3) (map (page_va ?s3) [])" and wf3: "phys_wf ?s3 n"
    using wf rel by (simp_all add: phys_wf_def)
  obtain s4 where s4: "iter_res (\<lambda>i s. lst_push_end (free_lst s)
        (pa_base s + of_nat i * PAGE_SIZE + PHYSICAL_OFFSET) s) [bitmap_pages n..<n] ?s3 = Inr s4"
      "lst_rel s4 (free_lst ?s3) (map (page_va ?s3) [bitmap_pages n..<n])" "same_outside UNIV ?s3 s4"
    using push_pages [OF rel3 wf3, of "[bitmap_pages n..<n]"] by auto
  note f4 = same_outside_fields [OF s4(3)]
  let ?s5 = "set_bits [n..<unat (pa_alloc_size s4 * 8)] s4"
  have "init_phys_pages page_count s = Inr ?s5"
    using s4(1) le unfolding init_phys_pages_def Let_def idx pc set_bits_def [symmetric]
    by (simp add: max_def)
  moreover have "bit_isset ?s5 (of_nat j) \<longleftrightarrow> j \<notin> set [bitmap_pages n..<n]" if "j < n" for j
  proof -
    have s8: "unat (pa_alloc_size s4 * 8) < 2 ^ 60"
    proof -
      have "(n - 1) div 8 * 8 \<le> n - 1" by (rule div_times_less_eq_dividend)
      moreover have "n * 4096 \<le> 2 ^ 39" using wf(1) by (simp add: phys_wf_def)
      ultimately have "((n - 1) div 8 + 1) * 8 < 2 ^ 60" by simp
      then show ?thesis using sz by (simp add: f4 unat_word_ariths)
    qed
    have "(of_nat i :: u64) = of_nat j \<longleftrightarrow> i = j" if "i < 2 ^ 60" for i
    proof -
      have "i < 18446744073709551616" "j < 18446744073709551616"
        using that \<open>j < n\<close> wf(1) by (simp_all add: phys_wf_def)
      then show ?thesis by (metis unat_of_nat_u64)
    qed
    then have "(\<exists>i \<in> set [n..<unat (pa_alloc_size s4 * 8)]. of_nat i = (of_nat j :: u64)) \<longleftrightarrow> False"
        "(\<exists>i \<in> set [0..<bitmap_pages n]. of_nat i = (of_nat j :: u64)) \<longleftrightarrow> j < bitmap_pages n"
      using s8 that le wf(1) by (auto simp: phys_wf_def)
    then show ?thesis
      using that zero [OF that] by (auto simp: bit_isset_set_bits f4)
  qed
  moreover have st: "phys_static s ?s5"
    by (simp add: phys_static_def f4)
  ultimately show ?thesis
    using phys_static_wf [OF st] phys_static_pages [OF st] wf s4(2) le held
    by (auto simp: phys_inv_def f4)
qed

lemma init_phys_allocator_spec:
  fixes start sz :: u64
  assumes n: "n = unat sz div 4096" "0 < n" and b: "b = unat start div 4096 * 4096 + 4096" "b + n * 4096 \<le> 2 ^ 39"
    and "free_lst s \<noteq> NULL" "\<not> free_lst s - 0xFFFFFE8000000000 < 0x8000000000"
    and "phys_alloc_lock s \<noteq> NULL" "held (spinlocks s (phys_alloc_lock s)) = 0"
  shows "\<exists>s'. init_phys_allocator start sz s = Inr s' \<and> phys_inv s' n [bitmap_pages n..<n]
    \<and> unat (pa_base s') = b \<and> phys_state.more s' = phys_state.more s"
proof -
  let ?B = "PAGE_END start 0x1000 + 1"
  let ?A = "(sz div 0x1000 - 1) div 8 + 1"
  have B: "unat ?B = b" using b by (simp add: PAGE_END_plus_1)
  have pc: "unat (sz div 0x1000) = n" by (simp add: n unat_div)
  then have pc0: "sz div 0x1000 \<noteq> 0" using n by auto
  then have "unat (sz div 0x1000 - 1) = n - 1" using pc by (simp add: unat_minus_one)
  then have A: "unat ?A = (n - 1) div 8 + 1"
    using b by (simp add: unat_word_ariths unat_div)
  obtain s1 where s1: "lst_init (free_lst s) s = Inr s1" "lst_rel s1 (free_lst s) []"
      "same_outside {free_lst s} s s1"
    using klist.init_rel [OF assms(5), of s] by auto
  note f1 = same_outside_fields [OF s1(3)]
  define s2 where "s2 = s1\<lparr>pa_base := ?B, pa_alloc := ?B + 0xFFFFFE8000000000, pa_alloc_size := ?A,
    phys_mem := memset (phys_mem s1) (?B + 0xFFFFFE8000000000) 0 ?A\<rparr>"
  have s2: "pa_base s2 = ?B" "pa_alloc_size s2 = ?A" "free_lst s2 = free_lst s"
      "phys_alloc_lock s2 = phys_alloc_lock s" "spinlocks s2 = spinlocks s"
      "phys_state.more s2 = phys_state.more s"
    by (simp_all add: s2_def f1)
  have wf: "phys_wf s2 n"
    using assms(5-) B b by (simp add: phys_wf_def s2 page_aligned_def)
  have rel: "lst_rel s2 (free_lst s2) []"
    using s1(2) lst_rel_cong [of "free_lst s" "[]" s2 s1] by (simp add: s2) (simp add: s2_def)
  have zero: "\<not> bit_isset s2 (of_nat j)" if "j < n" for j
  proof -
    have "unat (of_nat j div 8 :: u64) = j div 8" using that b by (simp add: unat_div)
    moreover have "j div 8 \<le> (n - 1) div 8" using that by (intro div_le_mono) simp
    ultimately have "of_nat j div 8 < ?A" unfolding word_less_nat_alt A by simp
    then show ?thesis by (simp add: bit_isset_def s2_def memset_apply)
  qed
  have "init_phys_allocator start sz s = init_phys_pages (sz div 0x1000) s2"
    using s1(1) pc0 by (simp add: init_phys_allocator_def Let_def s2_def)
  then show ?thesis
    using init_phys_pages_spec [OF wf n(2) rel _ zero, of "sz div 0x1000"] assms(8) A pc B
    by (auto simp: s2 phys_static_def)
qed

section \<open>The contract of a page allocator\<close>

text \<open>
  What the paging code relies on. \<open>inv s M F\<close>: the allocator manages the pages \<open>M\<close>, of which \<open>F\<close> are free;
  \<open>keep s s'\<close>: the allocator touched nothing but its own variables.
\<close>

locale page_allocator =
  fixes inv :: "'s \<Rightarrow> u64 set \<Rightarrow> u64 set \<Rightarrow> bool"
    and keep :: "'s \<Rightarrow> 's \<Rightarrow> bool"
    and alloc :: "'s \<Rightarrow> (u64 \<times> 's) res"
    and dealloc :: "u64 \<Rightarrow> 's \<Rightarrow> 's res"
  assumes managed: "inv s M F \<Longrightarrow> p \<in> M \<Longrightarrow> page_aligned p \<and> p \<noteq> 0 \<and> p < 0x8000000000"
    and free_managed: "inv s M F \<Longrightarrow> F \<subseteq> M \<and> finite F"
    and alloc_none: "inv s M {} \<Longrightarrow> \<exists>s'. alloc s = Inr (0, s') \<and> inv s' M {} \<and> keep s s'"
    and alloc_some: "inv s M F \<Longrightarrow> F \<noteq> {} \<Longrightarrow>
      \<exists>p s'. alloc s = Inr (p, s') \<and> p \<in> F \<and> inv s' M (F - {p}) \<and> keep s s'"
    and dealloc_managed: "inv s M F \<Longrightarrow> PAGE_START p 0x1000 \<in> M \<Longrightarrow>
      \<exists>s'. dealloc p s = Inr s' \<and> inv s' M (insert (PAGE_START p 0x1000) F) \<and> keep s s'"
    and keep_refl: "keep s s"
    and keep_trans: "keep s s' \<Longrightarrow> keep s' s'' \<Longrightarrow> keep s s''"
begin

lemma alloc_total:
  assumes "inv s M F"
  shows "\<exists>p s'. alloc s = Inr (p, s') \<and> inv s' M (F - {p}) \<and> keep s s' \<and> (p = 0 \<longleftrightarrow> F = {}) \<and> (p \<noteq> 0 \<longrightarrow> p \<in> F)"
proof (cases "F = {}")
  case True
  then show ?thesis using alloc_none assms by auto
next
  case False
  then obtain p s' where p: "alloc s = Inr (p, s')" "p \<in> F" "inv s' M (F - {p})" "keep s s'"
    using alloc_some [OF assms] by blast
  then have "p \<noteq> 0" using managed [OF assms] free_managed [OF assms] by blast
  with p False show ?thesis by auto
qed

lemma alloc_distinct:
  assumes "inv s M F" "k \<le> card F"
  shows "\<exists>ps s'. pop_times alloc k s = Inr (ps, s') \<and> distinct ps \<and> length ps = k \<and> set ps \<subseteq> F
    \<and> inv s' M (F - set ps) \<and> keep s s'"
  using assms
proof (induction k arbitrary: s F)
  case 0
  then show ?case using keep_refl by auto
next
  case (Suc k)
  have F: "F \<noteq> {}" "finite F" using Suc.prems free_managed by force+
  obtain p s1 where p: "alloc s = Inr (p, s1)" "p \<in> F" "inv s1 M (F - {p})" "keep s s1"
    using alloc_some [OF Suc.prems(1) F(1)] by blast
  have "k \<le> card (F - {p})" using Suc.prems(2) p(2) F(2) by (simp add: card_Diff_singleton)
  from Suc.IH [OF p(3) this] obtain ps s2 where s2: "pop_times alloc k s1 = Inr (ps, s2)" "distinct ps"
      "length ps = k" "set ps \<subseteq> F - {p}" "inv s2 M (F - {p} - set ps)" "keep s1 s2" by blast
  have "F - {p} - set ps = F - set (p # ps)" by auto
  with p s2 keep_trans [OF p(4) s2(6)] show ?case by auto
qed

lemma alloc_dealloc:
  assumes "inv s M F" "alloc s = Inr (p, s1)" "p \<noteq> 0"
  shows "\<exists>s2. dealloc p s1 = Inr s2 \<and> inv s2 M F \<and> keep s s2"
proof -
  have p: "p \<in> F" "inv s1 M (F - {p})" "keep s s1" using alloc_total [OF assms(1)] assms(2,3) by auto
  then have "p \<in> M" "PAGE_START p 0x1000 = p"
    using free_managed [OF assms(1)] managed [OF assms(1)] PAGE_START_aligned by auto
  with dealloc_managed [OF p(2), of p] p keep_trans show ?thesis by (auto simp: insert_absorb)
qed

end

definition phys_pages :: "'a phys_state_scheme \<Rightarrow> u64 set \<Rightarrow> u64 set \<Rightarrow> bool" where
  "phys_pages s M F \<longleftrightarrow>
     (\<exists>n is. phys_inv s n is \<and> M = page_pa s ` {..<n} \<and> F = page_pa s ` set is)"

lemma phys_inv_wf: "phys_inv s n is \<Longrightarrow> phys_wf s n"
  by (simp add: phys_inv_def)

interpretation phys: page_allocator phys_pages phys_static kalloc kfree
proof
  fix s s' s'' :: "'a phys_state_scheme" and M F p
  assume "phys_static s s'" "phys_static s' s''"
  then show "phys_static s s''" by (simp add: phys_static_def)
next
  fix s :: "'a phys_state_scheme" and M F p
  assume "phys_pages s M F"
  then obtain n "is" where inv: "phys_inv s n is" and M: "M = page_pa s ` {..<n}" and F: "F = page_pa s ` set is"
    by (auto simp: phys_pages_def)
  note wf = phys_inv_wf [OF inv]
  show "p \<in> M \<Longrightarrow> page_aligned p \<and> p \<noteq> 0 \<and> p < 0x8000000000"
    using page_pa_facts(1-3) [OF wf] M by auto
  show "F \<subseteq> M \<and> finite F"
    using inv M F by (auto simp: phys_inv_def)
  show "\<exists>p s'. kalloc s = Inr (p, s') \<and> p \<in> F \<and> phys_pages s' M (F - {p}) \<and> phys_static s s'" if "F \<noteq> {}"
  proof -
    from that F obtain i js where "is": "is = i # js" by (cases "is") auto
    obtain s' where s': "kalloc s = Inr (page_pa s i, s')" "phys_inv s' n js" "phys_static s s'"
      using kalloc_spec [OF inv] "is" by auto
    have i: "i < n" "i \<notin> set js" using inv "is" by (auto simp: phys_inv_def)
    have "F - {page_pa s i} = page_pa s ` set js"
    proof -
      have "page_pa s i \<notin> page_pa s ` set js"
        using i inv "is" page_pa_inj [OF wf i(1)] by (auto simp: phys_inv_def)
      then show ?thesis using F "is" by auto
    qed
    with s' M phys_static_pages [OF s'(3)] have "phys_pages s' M (F - {page_pa s i})"
      by (auto simp: phys_pages_def)
    with s' F "is" show ?thesis by auto
  qed
  show "\<exists>s'. kfree p s = Inr s' \<and> phys_pages s' M (insert (PAGE_START p 0x1000) F) \<and> phys_static s s'"
    if "PAGE_START p 0x1000 \<in> M"
  proof -
    from that M obtain i where i: "i < n" "PAGE_START p 0x1000 = page_pa s i" by auto
    obtain s' where s': "kfree p s = Inr s'" "phys_inv s' n (if i \<in> set is then is else i # is)"
        "phys_static s s'" using kfree_spec [OF inv i] by blast
    have "insert (PAGE_START p 0x1000) F = page_pa s ` set (if i \<in> set is then is else i # is)"
      using i F by auto
    with s' M phys_static_pages [OF s'(3)] show ?thesis
      unfolding phys_pages_def by (metis (no_types, lifting))
  qed
next
  fix s :: "'a phys_state_scheme" and M
  assume "phys_pages s M {}"
  then obtain n where inv: "phys_inv s n []" and M: "M = page_pa s ` {..<n}" by (auto simp: phys_pages_def)
  with kalloc_spec [OF inv] show "\<exists>s'. kalloc s = Inr (0, s') \<and> phys_pages s' M {} \<and> phys_static s s'"
    using phys_static_pages by (fastforce simp: phys_pages_def)
qed (simp add: phys_static_def)


section \<open>Properties\<close>

text \<open>
  C12: initialisation. For a memory area whose pages fit into the 512 GiB window, \<open>init_phys_allocator\<close>
  succeeds and establishes the allocator's invariant: the free list holds exactly the pages after
  the bitmap, in increasing order, and the bitmap marks exactly the pages that hold the bitmap.
\<close>

theorem init_phys_allocator_correct:
  assumes "n = unat sz div 4096" "0 < n"
    and "b = unat start div 4096 * 4096 + 4096" "b + n * 4096 \<le> 2 ^ 39"
    and "free_lst s \<noteq> NULL" "\<not> free_lst s - PHYSICAL_OFFSET < 0x8000000000"
    and "phys_alloc_lock s \<noteq> NULL" "held (spinlocks s (phys_alloc_lock s)) = 0"
  shows "\<exists>s'. init_phys_allocator start sz s = Inr s' \<and> phys_inv s' n [bitmap_pages n..<n]
    \<and> unat (pa_base s') = b"
  using init_phys_allocator_spec [OF assms(1-5) _ assms(7,8)] assms(6) by auto

definition example_boot :: phys_state where
  "example_boot = \<lparr>apic_id = 0,
     cpu_status_of = \<lambda>_. \<lparr>cpu_status_id = 0, push_off_count = 0, int_on = 0, cpu_thread = 0, cpu_vmm = 0\<rparr>,
     eflags_if = False, spinlocks = \<lambda>_. \<lparr>held = 0, lock_cpu_id = 0, lock_name = 0\<rparr>,
     lst_prev = \<lambda>_. 0, lst_next = \<lambda>_. 0,
     free_lst = 0xFFFFFFFF80105000, phys_alloc_lock = 0xFFFFFFFF80105010,
     pa_base = 0, pa_alloc = 0, pa_alloc_size = 0, phys_mem = \<lambda>_. 0xAA\<rparr>"

theorem init_phys_allocator_correct_witness:
  "\<exists>s'. init_phys_allocator 0x200000 0x100000 example_boot = Inr s' \<and> phys_inv s' 256 [1..<256]
    \<and> unat (pa_base s') = 0x201000"
  using init_phys_allocator_correct [of 256 "0x100000" "0x201000" "0x200000" example_boot]
  by (simp add: example_boot_def bitmap_pages_def)

lemma phys_inv_example:
  "\<exists>s :: 'a phys_state_scheme. phys_inv s 256 [1..<256] \<and> unat (pa_base s) = 0x201000 \<and> phys_state.more s = x"
proof -
  let ?s = "phys_state.extend example_boot x"
  have s: "free_lst ?s = 0xFFFFFFFF80105000" "phys_alloc_lock ?s = 0xFFFFFFFF80105010"
      "held (spinlocks ?s (phys_alloc_lock ?s)) = 0" "phys_state.more ?s = x"
    by (simp_all add: example_boot_def phys_state.extend_def)
  have n: "(256::nat) = unat (0x100000 :: u64) div 4096" "(0::nat) < 256"
      "0x201000 = unat (0x200000 :: u64) div 4096 * 4096 + 4096" "0x201000 + 256 * 4096 \<le> (2::nat) ^ 39"
      "free_lst ?s \<noteq> NULL" "\<not> free_lst ?s - 0xFFFFFE8000000000 < 0x8000000000" "phys_alloc_lock ?s \<noteq> NULL"
    by (simp_all add: s)
  have "bitmap_pages 256 = 1" by (simp add: bitmap_pages_def)
  with init_phys_allocator_spec [OF n s(3)] s(4) show ?thesis by (simp only:) blast
qed

text \<open>
  C2: \<open>kalloc\<close> and \<open>kfree\<close> implement a stack of page numbers. In a state that satisfies the invariant with
  the free pages \<open>is\<close>, \<open>kalloc\<close> returns the address of the first of them and removes it, or 0 when there
  is none; \<open>kfree\<close> of any address inside a page in use puts that page in front; \<open>kfree\<close> of a page that is
  already free changes nothing. The invariant holds again, and the lock is released.
\<close>

theorem kalloc_kfree_refine:
  assumes "phys_inv s n is"
  shows "(\<exists>s'. kalloc s = Inr (case is of [] \<Rightarrow> 0 | i # _ \<Rightarrow> page_pa s i, s')
        \<and> phys_inv s' n (tl is) \<and> phys_static s s')
    \<and> (\<forall>i p. i < n \<and> PAGE_START p PAGE_SIZE = page_pa s i \<longrightarrow>
        (\<exists>s'. kfree p s = Inr s' \<and> phys_inv s' n (if i \<in> set is then is else i # is) \<and> phys_static s s'
          \<and> (i \<in> set is \<longrightarrow> s' = s)))"
proof -
  have wf: "phys_wf s n" using assms by (rule phys_inv_wf)
  have "kfree p s = Inr s" if "i < n" "PAGE_START p 0x1000 = page_pa s i" "i \<in> set is" for i p
  proof -
    have "\<not> bit_isset s (of_nat i)" using that assms by (simp add: phys_inv_def)
    then show ?thesis by (simp add: kfree_def Let_def that(2) page_pa_facts(4) [OF wf that(1)])
  qed
  then have "\<exists>s'. kfree p s = Inr s' \<and> phys_inv s' n (if i \<in> set is then is else i # is) \<and> phys_static s s'
      \<and> (i \<in> set is \<longrightarrow> s' = s)" if "i < n" "PAGE_START p 0x1000 = page_pa s i" for i p
    using kfree_spec [OF assms that] that by fastforce
  then show ?thesis using kalloc_spec [OF assms] by simp
qed

theorem kalloc_kfree_refine_witness:
  "\<exists>s s' :: phys_state. kalloc s = Inr (0x202000, s') \<and> phys_inv s' 256 (tl [1..<256])"
proof -
  obtain s :: phys_state where s: "phys_inv s 256 [1..<256]" "unat (pa_base s) = 0x201000"
    using phys_inv_example [where x = "()"] by blast
  then have "pa_base s = 0x201000" by (simp add: word_unat_eq_iff)
  then have "page_pa s 1 = 0x202000" by (simp add: page_pa_def)
  moreover have "[1..<256] = 1 # [Suc 1..<256]" by (rule upt_conv_Cons) simp
  ultimately have "(case [1..<256] of [] \<Rightarrow> 0 | i # _ \<Rightarrow> page_pa s i) = 0x202000"
    by (simp only: list.case)
  then show ?thesis
    using conjunct1 [OF kalloc_kfree_refine [OF s(1)]] by (simp only:) blast
qed

text \<open>
  C18: as long as free pages are left, successive calls of \<open>kalloc\<close> return distinct, page-aligned,
  non-null addresses below the end of the 512 GiB window.
\<close>

theorem kalloc_distinct:
  assumes "phys_inv s n is" "k \<le> length is"
  shows "\<exists>ps s'. pop_times kalloc k s = Inr (ps, s') \<and> distinct ps \<and> length ps = k
    \<and> (\<forall>p \<in> set ps. page_aligned p \<and> p \<noteq> 0 \<and> p < 0x8000000000)"
proof -
  let ?M = "page_pa s ` {..<n}" and ?F = "page_pa s ` set is"
  have P: "phys_pages s ?M ?F" using assms(1) by (auto simp: phys_pages_def)
  have "inj_on (page_pa s) (set is)"
    using page_pa_inj [OF phys_inv_wf [OF assms(1)]] assms(1) by (auto simp: phys_inv_def inj_on_def)
  then have "card ?F = length is"
    using assms(1) by (simp add: card_image distinct_card phys_inv_def)
  with assms(2) have "k \<le> card ?F" by (simp only:)
  from phys.alloc_distinct [OF P this] obtain ps s' where
    ps: "pop_times kalloc k s = Inr (ps, s')" "distinct ps" "length ps = k" "set ps \<subseteq> ?F" by blast
  have "?F \<subseteq> ?M" using phys.free_managed [OF P] by blast
  with ps(4) have "page_aligned p \<and> p \<noteq> 0 \<and> p < 0x8000000000" if "p \<in> set ps" for p
    using that by (intro phys.managed [OF P]) blast
  with ps show ?thesis by blast
qed

theorem kalloc_distinct_witness:
  "\<exists>(s :: phys_state) ps s'. pop_times kalloc 3 s = Inr (ps, s') \<and> distinct ps \<and> length ps = 3"
proof -
  obtain s :: phys_state where "phys_inv s 256 [1..<256]"
    using phys_inv_example [where x = "()"] by blast
  from kalloc_distinct [OF this, of 3] show ?thesis by auto
qed

text \<open>
  C22: the allocator manages memory that does not exist. When the area given to \<open>init_phys_allocator\<close>
  starts on a page boundary, as the one computed by \<open>kvminit\<close> always does, and its size is a multiple of
  the page size, the first page of the area is skipped and the last managed page starts exactly
  at the end of the area; it is handed out like any other page.
\<close>

theorem init_phys_allocator_overshoots:
  assumes "page_aligned start" "unat sz = 4096 * n" "1 < n" "unat start + 4096 * (n + 1) \<le> 2 ^ 39"
    and "free_lst s \<noteq> NULL" "\<not> free_lst s - PHYSICAL_OFFSET < 0x8000000000"
    and "phys_alloc_lock s \<noteq> NULL" "held (spinlocks s (phys_alloc_lock s)) = 0"
  shows "\<exists>s'. init_phys_allocator start sz s = Inr s' \<and> phys_inv s' n [bitmap_pages n..<n]
    \<and> n - 1 \<in> set [bitmap_pages n..<n] \<and> page_pa s' (n - 1) = start + sz"
proof -
  have b: "unat start div 4096 * 4096 = unat start"
    using assms(1) by (auto elim!: page_alignedE)
  have n: "n = unat sz div 4096" "0 < n" "unat start + 4096 = unat start div 4096 * 4096 + 4096"
      "unat start + 4096 + n * 4096 \<le> 2 ^ 39" "\<not> free_lst s - 0xFFFFFE8000000000 < 0x8000000000"
    using assms(2-4,6) b by simp_all
  obtain s' where s': "init_phys_allocator start sz s = Inr s'" "phys_inv s' n [bitmap_pages n..<n]"
      "unat (pa_base s') = unat start + 4096"
    using init_phys_allocator_spec [OF n(1-4) assms(5) n(5) assms(7,8)] by blast
  have "unat (page_pa s' (n - 1)) = unat start + 4096 + (n - 1) * 4096"
    using unat_page_pa [OF phys_inv_wf [OF s'(2)], of "n - 1"] s'(3) assms(3) by simp
  also have "\<dots> = unat start + 4096 * n" using assms(3) by (simp add: diff_mult_distrib)
  also have "\<dots> = unat (start + sz)" using assms(2,4) by (simp add: unat_word_ariths)
  finally have "page_pa s' (n - 1) = start + sz" by (simp add: word_unat_eq_iff)
  moreover have "bitmap_pages n \<le> n - 1" using assms(3) by (simp add: bitmap_pages_def)
  ultimately show ?thesis using s'(1,2) n(2) by (intro exI [of _ s']) simp
qed

theorem init_phys_allocator_overshoots_witness:
  "\<exists>s'. init_phys_allocator 0x200000 0x100000 example_boot = Inr s' \<and> page_pa s' 255 = 0x300000"
  using init_phys_allocator_overshoots [of "0x200000" "0x100000" 256 example_boot]
  by (auto simp: example_boot_def page_aligned_def)
end
