(* ===== verification/Paging.thy ===== *)
theory Paging
  imports Phys_Allocator
begin

text \<open>
  \<open>kernel/arch/x86-64/memory/vm.c\<close>: the four-level page tables. Tables are reached through the window
  at \<open>PHYSICAL_OFFSET\<close>; \<open>pt_mem\<close> maps the address of an entry to its 64 bits. The pages that hold tables
  come from the physical allocator, of which only the contract \<open>page_allocator\<close> is used.
\<close>

section \<open>State and operations\<close>

record paging_state = phys_state +
  pt_mem :: "ptr \<Rightarrow> pte_t"
  nx_flag_enabled :: bool
  kernel_pml4 :: ptr

definition MEMORY_FLAG_WRITE :: u8 where [simp]: "MEMORY_FLAG_WRITE = 1"
definition MEMORY_FLAG_USER :: u8 where [simp]: "MEMORY_FLAG_USER = 2"
definition MEMORY_FLAG_EXEC :: u8 where [simp]: "MEMORY_FLAG_EXEC = 4"

definition vmflag_to_x86flag :: "bool \<Rightarrow> u64 \<Rightarrow> u64" where
  "vmflag_to_x86flag nx flag =
     (let result = (if nx \<and> flag AND ucast MEMORY_FLAG_EXEC = 0 then push_bit 63 1 else 0)
      in result OR push_bit 1 (flag AND (ucast MEMORY_FLAG_WRITE OR ucast MEMORY_FLAG_USER)))"

text \<open>The address of the entry for \<open>va\<close> in a table of the given level; the table an entry refers to.\<close>

definition entry_at :: "ptr \<Rightarrow> u64 \<Rightarrow> nat \<Rightarrow> ptr" where
  "entry_at table va level = table + 8 * VA2INDEX va level"

definition child_table :: "pte_t \<Rightarrow> ptr" where
  "child_table e = push_bit 12 (pte_addr e) + PHYSICAL_OFFSET"

definition set_entry :: "ptr \<Rightarrow> pte_t \<Rightarrow> 'a paging_state_scheme \<Rightarrow> 'a paging_state_scheme" where
  "set_entry p e s = s\<lparr>pt_mem := (pt_mem s)(p := e)\<rparr>"

text \<open>\<open>memset(table, 0, PAGE_SIZE)\<close> on a table.\<close>

definition zero_table :: "ptr \<Rightarrow> 'a paging_state_scheme \<Rightarrow> 'a paging_state_scheme" where
  "zero_table t s = s\<lparr>pt_mem := (\<lambda>a. if a - t < PAGE_SIZE then 0 else pt_mem s a)\<rparr>"

definition new_table_entry :: "ptr \<Rightarrow> pte_t" where
  "new_table_entry new_pt = pte_set_user_page True (pte_set_writable True (pte_set_present True new_pt))"

primrec walk_loop :: "nat \<Rightarrow> ptr \<Rightarrow> u64 \<Rightarrow> bool \<Rightarrow> 'a paging_state_scheme \<Rightarrow> (ptr \<times> 'a paging_state_scheme) res"
  where
  "walk_loop 0 current_pt addr alloc s = Inr (entry_at current_pt addr 0, s)"
| "walk_loop (Suc level) current_pt addr alloc s =
     (let entry = entry_at current_pt addr (Suc level); e = pt_mem s entry
      in if pte_present e
         then if pte_page_size e then Inr (entry, s)
              else walk_loop level (child_table e) addr alloc s
         else if \<not> alloc then Inr (0, s)
         else bind_res (kalloc s) (\<lambda>(new_pt, s).
              if new_pt = 0 then Inr (0, s)
              else let s = set_entry entry (new_table_entry new_pt) s;
                       current_pt = new_pt + PHYSICAL_OFFSET;
                       s = zero_table current_pt s
                   in walk_loop level current_pt addr alloc s))"

definition walk :: "ptr \<Rightarrow> u64 \<Rightarrow> bool \<Rightarrow> 'a paging_state_scheme \<Rightarrow> (ptr \<times> 'a paging_state_scheme) res" where
  "walk pagetable va alloc s =
     (if pagetable = NULL then Inl NullDeref else walk_loop 3 pagetable va alloc s)"

text \<open>
  \<open>freewalk\<close> recurses from a table at \<open>level\<close> to level 0. Its assignment to \<open>entry.present\<close> is to a local
  copy and so changes no state.
\<close>

primrec freewalk :: "nat \<Rightarrow> ptr \<Rightarrow> 'a paging_state_scheme \<Rightarrow> 'a paging_state_scheme res" where
  "freewalk 0 table s =
     iter_res (\<lambda>i s. let e = pt_mem s (table + 8 * of_nat i)
                     in if \<not> pte_present e then Inr s
                        else Inl (Panic ''freewalk: some leaf were not freed'')) [0..<512] s"
| "freewalk (Suc level) table s =
     iter_res (\<lambda>i s. let e = pt_mem s (table + 8 * of_nat i)
                     in if \<not> pte_present e then Inr s
                        else if \<not> pte_page_size e
                        then let child = push_bit 12 (pte_addr e)
                             in bind_res (freewalk level (child + PHYSICAL_OFFSET) s) (kfree child)
                        else Inl (Panic ''freewalk: some leaf were not freed'')) [0..<512] s"

text \<open>
  The page loops \<open>while (current < end)\<close> of \<open>mappages\<close>, \<open>updatepages\<close> and \<open>unmappages\<close>. The first argument
  bounds the number of turns; there are \<open>2 ^ 52\<close> pages in the address space, and that bound is used.
\<close>

definition MAX_PAGES :: nat where "MAX_PAGES = 2 ^ 52"

primrec unmappages_loop ::
    "nat \<Rightarrow> ptr \<Rightarrow> u64 \<Rightarrow> u64 \<Rightarrow> bool \<Rightarrow> 'a paging_state_scheme \<Rightarrow> 'a paging_state_scheme res" where
  "unmappages_loop 0 pagetable current end free s = Inl Diverges"
| "unmappages_loop (Suc fuel) pagetable current end free s =
     (if \<not> current < end then Inr s
      else bind_res (walk pagetable current False s) (\<lambda>(descriptor, s).
           if descriptor = 0 then unmappages_loop fuel pagetable (current + PAGE_SIZE) end free s
           else bind_res (if free then kfree (push_bit 12 (pte_addr (pt_mem s descriptor))) s else Inr s) (\<lambda>s.
                let s = set_entry descriptor (pte_set_present False (pt_mem s descriptor)) s
                in unmappages_loop fuel pagetable (current + PAGE_SIZE) end free s)))"

definition unmappages :: "ptr \<Rightarrow> u64 \<Rightarrow> u64 \<Rightarrow> bool \<Rightarrow> 'a paging_state_scheme \<Rightarrow> (int \<times> 'a paging_state_scheme) res"
  where
  "unmappages pagetable va sz free s =
     bind_res (unmappages_loop MAX_PAGES pagetable (PAGE_START va SMALL_PAGE_SIZE)
                 (PAGE_END (va + sz - 1) SMALL_PAGE_SIZE) free s) (\<lambda>s. Inr (0, s))"

primrec mappages_loop ::
    "nat \<Rightarrow> ptr \<Rightarrow> u64 \<Rightarrow> u64 \<Rightarrow> u64 \<Rightarrow> u64 \<Rightarrow> u64 \<Rightarrow> 'a paging_state_scheme \<Rightarrow> (int \<times> 'a paging_state_scheme) res"
  where
  "mappages_loop 0 pagetable va current current_pa end x86_flags s = Inl Diverges"
| "mappages_loop (Suc fuel) pagetable va current current_pa end x86_flags s =
     (if \<not> current < end then Inr (0, s)
      else bind_res (walk pagetable current True s) (\<lambda>(descriptor, s).
           if descriptor = 0 \<or> pte_present (pt_mem s descriptor)
           then bind_res (unmappages pagetable va (current - va) False s) (\<lambda>(_, s). Inr (- 1, s))
           else let s = set_entry descriptor (pte_set_present True (current_pa OR x86_flags)) s
                in mappages_loop fuel pagetable va (current + PAGE_SIZE) (current_pa + PAGE_SIZE) end x86_flags s))"

definition mappages ::
    "ptr \<Rightarrow> u64 \<Rightarrow> u64 \<Rightarrow> u64 \<Rightarrow> u8 \<Rightarrow> 'a paging_state_scheme \<Rightarrow> (int \<times> 'a paging_state_scheme) res" where
  "mappages pagetable va sz pa flags s =
     mappages_loop MAX_PAGES pagetable va (PAGE_START va PAGE_SIZE) (PAGE_START pa PAGE_SIZE)
       (PAGE_END (va + sz - 1) PAGE_SIZE) (vmflag_to_x86flag (nx_flag_enabled s) (ucast flags)) s"

primrec updatepages_loop ::
    "nat \<Rightarrow> ptr \<Rightarrow> u64 \<Rightarrow> u64 \<Rightarrow> u64 \<Rightarrow> 'a paging_state_scheme \<Rightarrow> (int \<times> 'a paging_state_scheme) res" where
  "updatepages_loop 0 pagetable current end x86_flags s = Inl Diverges"
| "updatepages_loop (Suc fuel) pagetable current end x86_flags s =
     (if \<not> current < end then Inr (0, s)
      else bind_res (walk pagetable current False s) (\<lambda>(descriptor, s).
           if descriptor = 0 then Inr (1, s)
           else let s = set_entry descriptor (pt_mem s descriptor AND NOT PAGE_FLAG_MASK OR x86_flags) s
                in updatepages_loop fuel pagetable (current + PAGE_SIZE) end x86_flags s))"

definition updatepages ::
    "ptr \<Rightarrow> u64 \<Rightarrow> u64 \<Rightarrow> u8 \<Rightarrow> 'a paging_state_scheme \<Rightarrow> (int \<times> 'a paging_state_scheme) res" where
  "updatepages pagetable va sz flags s =
     updatepages_loop MAX_PAGES pagetable (PAGE_START va SMALL_PAGE_SIZE)
       (PAGE_END (va + sz - 1) SMALL_PAGE_SIZE) (vmflag_to_x86flag (nx_flag_enabled s) (ucast flags)) s"

definition map_higher_half :: "ptr \<Rightarrow> 'a paging_state_scheme \<Rightarrow> 'a paging_state_scheme" where
  "map_higher_half pagetable s =
     fold (\<lambda>i s. set_entry (pagetable + 8 * of_nat i) (pt_mem s (kernel_pml4 s + 8 * of_nat i)) s)
       [256..<512] s"

end
