(* ===== verification/Page_Tree.thy ===== *)
theory Page_Tree
  imports Paging
begin

text \<open>
  The page tables as a tree. This theory defines the tree of tables below a root, what it means for
  the tree to be well formed, and the translation it stands for; and it shows what \<open>walk\<close> and the
  write of a last-level entry do to them. The allocator enters through its contract only.
\<close>

section \<open>The tree of tables\<close>

text \<open>
  \<open>link e\<close>: the entry refers to a table of the next level. \<open>tset l m t\<close>: the tables of the tree whose
  root \<open>t\<close> has level \<open>l\<close>. \<open>wf_tree\<close>: all of them are page aligned and not null, and no table is shared.
\<close>

definition link :: "pte_t \<Rightarrow> bool" where
  "link e \<longleftrightarrow> pte_present e \<and> \<not> pte_page_size e"

abbreviation (input) slot :: "ptr \<Rightarrow> nat \<Rightarrow> ptr" where
  "slot t i \<equiv> t + 8 * of_nat i"

primrec tset :: "nat \<Rightarrow> (ptr \<Rightarrow> pte_t) \<Rightarrow> ptr \<Rightarrow> ptr set" where
  "tset 0 m t = {t}"
| "tset (Suc l) m t =
     insert t (\<Union>i \<in> {i. i < 512 \<and> link (m (slot t i))}. tset l m (child_table (m (slot t i))))"

primrec wf_tree :: "nat \<Rightarrow> (ptr \<Rightarrow> pte_t) \<Rightarrow> ptr \<Rightarrow> bool" where
  "wf_tree 0 m t \<longleftrightarrow> page_aligned t \<and> t \<noteq> NULL"
| "wf_tree (Suc l) m t \<longleftrightarrow> page_aligned t \<and> t \<noteq> NULL
     \<and> (\<forall>i < 512. link (m (slot t i)) \<longrightarrow> wf_tree l m (child_table (m (slot t i)))
          \<and> t \<notin> tset l m (child_table (m (slot t i))))
     \<and> (\<forall>i < 512. \<forall>j < 512. i \<noteq> j \<and> link (m (slot t i)) \<and> link (m (slot t j)) \<longrightarrow>
          tset l m (child_table (m (slot t i))) \<inter> tset l m (child_table (m (slot t j))) = {})"

text \<open>
  \<open>look l m t va\<close>: the entry that translates \<open>va\<close>, if it is mapped; \<open>leaf_entry l m t va\<close>: the address of the
  last-level entry for \<open>va\<close>, if all tables on the way exist; \<open>same_path l a b\<close>: \<open>a\<close> and \<open>b\<close> use the same entries.
\<close>

primrec look :: "nat \<Rightarrow> (ptr \<Rightarrow> pte_t) \<Rightarrow> ptr \<Rightarrow> u64 \<Rightarrow> pte_t option" where
  "look 0 m t va = (let e = m (entry_at t va 0) in if pte_present e then Some e else None)"
| "look (Suc l) m t va =
     (let e = m (entry_at t va (Suc l))
      in if \<not> pte_present e then None else if pte_page_size e then Some e
         else look l m (child_table e) va)"

primrec leaf_entry :: "nat \<Rightarrow> (ptr \<Rightarrow> pte_t) \<Rightarrow> ptr \<Rightarrow> u64 \<Rightarrow> ptr option" where
  "leaf_entry 0 m t va = Some (entry_at t va 0)"
| "leaf_entry (Suc l) m t va =
     (let e = m (entry_at t va (Suc l)) in if link e then leaf_entry l m (child_table e) va else None)"

definition same_path :: "nat \<Rightarrow> u64 \<Rightarrow> u64 \<Rightarrow> bool" where
  "same_path l a b \<longleftrightarrow> (\<forall>k \<le> l. VA2INDEX a k = VA2INDEX b k)"

definition va_index :: "u64 \<Rightarrow> nat \<Rightarrow> nat" where
  "va_index va l = unat (VA2INDEX va l)"

lemma va_index_less [simp]: "va_index va l < 512"
  by (simp add: va_index_def VA2INDEX_less)

lemma entry_at_slot: "entry_at t va l = slot t (va_index va l)"
  by (simp add: entry_at_def va_index_def)

lemma va_index_eq: "va_index a l = va_index b l \<longleftrightarrow> VA2INDEX a l = VA2INDEX b l"
  by (simp add: va_index_def word_unat_eq_iff)

lemma unat_slot:
  assumes "page_aligned t" "i < 512"
  shows "unat (slot t i) = unat t + 8 * i"
proof -
  obtain k where k: "unat t = 4096 * k" using assms(1) by (rule page_alignedE)
  have "unat (8 * of_nat i :: u64) = 8 * i"
    using assms(2) by (simp add: unat_word_ariths unsigned_of_nat take_bit_nat_eq_self)
  moreover have "unat t + 8 * i < 2 ^ 64"
    using unat_u64_less [of t] assms(2) k by simp
  ultimately show ?thesis by (simp add: unat_word_ariths)
qed

lemma PAGE_START_slot [simp]:
  assumes "page_aligned t" "i < 512"
  shows "PAGE_START (slot t i) 0x1000 = t"
proof -
  obtain k where k: "unat t = 4096 * k" using assms(1) by (rule page_alignedE)
  have "(4096 * k + 8 * i) div 4096 = k" using assms(2) by simp
  then show ?thesis
    using unat_slot [OF assms] k by (simp add: word_unat_eq_iff unat_PAGE_START_4K)
qed

lemma slot_inj:
  assumes "page_aligned t" "i < 512" "j < 512" "slot t i = slot t j"
  shows "i = j"
proof -
  have "unat (slot t i) = unat (slot t j)" using assms(4) by (rule arg_cong)
  then show ?thesis by (simp add: unat_slot assms(1-3))
qed

lemma slot_nonzero: "page_aligned t \<Longrightarrow> t \<noteq> NULL \<Longrightarrow> i < 512 \<Longrightarrow> slot t i \<noteq> NULL"
  using unat_slot [of t i] by (metis add_is_0 unat_0 word_unat_eq_iff)

lemma tset_root [simp]: "t \<in> tset l m t"
  by (cases l) auto

lemma wf_tree_root: "wf_tree l m t \<Longrightarrow> page_aligned t \<and> t \<noteq> NULL"
  by (cases l) auto

lemma wf_tree_aligned: "wf_tree l m t \<Longrightarrow> t' \<in> tset l m t \<Longrightarrow> page_aligned t' \<and> t' \<noteq> NULL"
  by (induction l arbitrary: t) auto

lemma wf_tree_child:
  assumes "wf_tree (Suc l) m t" "i < 512" "link (m (slot t i))"
  shows "wf_tree l m (child_table (m (slot t i)))" "t \<notin> tset l m (child_table (m (slot t i)))"
    "tset l m (child_table (m (slot t i))) \<subseteq> tset (Suc l) m t"
  using assms by auto

text \<open>The tree, its well-formedness and its translations depend only on the entries of its tables.\<close>

lemma tree_cong:
  assumes "wf_tree l m t" "\<And>a. PAGE_START a 0x1000 \<in> tset l m t \<Longrightarrow> m' a = m a"
  shows "tset l m' t = tset l m t \<and> wf_tree l m' t \<and> look l m' t = look l m t
    \<and> leaf_entry l m' t = leaf_entry l m t"
  using assms
proof (induction l arbitrary: t)
  case 0
  have "m' (entry_at t va 0) = m (entry_at t va 0)" for va
    unfolding entry_at_slot using 0 by (intro 0(2)) simp
  with 0 show ?case by (auto simp: fun_eq_iff)
next
  case (Suc l)
  have al: "page_aligned t" using Suc.prems(1) by simp
  have e: "m' (slot t i) = m (slot t i)" if "i < 512" for i
    using that al by (intro Suc.prems(2)) simp
  have IH: "tset l m' (child_table (m (slot t i))) = tset l m (child_table (m (slot t i)))
      \<and> wf_tree l m' (child_table (m (slot t i)))
      \<and> look l m' (child_table (m (slot t i))) = look l m (child_table (m (slot t i)))
      \<and> leaf_entry l m' (child_table (m (slot t i))) = leaf_entry l m (child_table (m (slot t i)))"
    if "i < 512" "link (m (slot t i))" for i
    using that Suc.prems by (intro Suc.IH) auto
  have "{i. i < 512 \<and> link (m' (slot t i))} = {i. i < 512 \<and> link (m (slot t i))}"
    using e by auto
  then have "tset (Suc l) m' t = tset (Suc l) m t"
    using e IH by simp
  moreover have "wf_tree (Suc l) m' t"
    using Suc.prems(1) e IH by simp
  moreover have "look (Suc l) m' t va = look (Suc l) m t va \<and> leaf_entry (Suc l) m' t va = leaf_entry (Suc l) m t va" for va
    using e [of "va_index va (Suc l)"] IH [of "va_index va (Suc l)"]
    by (simp add: entry_at_slot link_def Let_def)
  ultimately show ?case by (simp add: fun_eq_iff)
qed

section \<open>Growing the tree\<close>

text \<open>
  \<open>ext l m m' t N\<close>: the tree at \<open>t\<close> was extended by tables among \<open>N\<close>: it is still well formed, every
  address translates as before, last-level entries stay where they are, and nothing outside the tree and \<open>N\<close> changed.
\<close>

definition ext :: "nat \<Rightarrow> (ptr \<Rightarrow> pte_t) \<Rightarrow> (ptr \<Rightarrow> pte_t) \<Rightarrow> ptr \<Rightarrow> ptr set \<Rightarrow> bool" where
  "ext l m m' t N \<longleftrightarrow>
     wf_tree l m' t \<and> tset l m' t \<subseteq> tset l m t \<union> N \<and> look l m' t = look l m t
     \<and> (\<forall>va. leaf_entry l m t va \<noteq> None \<longrightarrow> leaf_entry l m' t va = leaf_entry l m t va)
     \<and> (\<forall>a. PAGE_START a 0x1000 \<notin> tset l m t \<union> N \<longrightarrow> m' a = m a)"

lemma ext_refl: "wf_tree l m t \<Longrightarrow> ext l m m t N"
  by (simp add: ext_def)

lemma ext_trans:
  assumes "ext l m m1 t N1" "ext l m1 m2 t N2"
  shows "ext l m m2 t (N1 \<union> N2)"
proof -
  have "m2 a = m a" if "PAGE_START a 0x1000 \<notin> tset l m t \<union> (N1 \<union> N2)" for a
  proof -
    have "PAGE_START a 0x1000 \<notin> tset l m1 t \<union> N2" using that assms(1) by (auto simp: ext_def)
    then have "m2 a = m1 a" using assms(2) by (simp add: ext_def)
    also have "m1 a = m a" using that assms(1) by (simp add: ext_def)
    finally show ?thesis .
  qed
  then show ?thesis using assms unfolding ext_def by auto
qed

text \<open>Extending one child of a table: the entries of the table and the other children are untouched.\<close>

lemma ext_child_parts:
  assumes wf: "wf_tree (Suc l) m t" and i: "i < 512" "link (m (slot t i))"
    and ext: "ext l m m' (child_table (m (slot t i))) N" and N: "N \<inter> tset (Suc l) m t = {}"
    and j: "j < 512"
  shows "m' (slot t j) = m (slot t j)"
    and "link (m (slot t j)) \<Longrightarrow> wf_tree l m' (child_table (m (slot t j)))
      \<and> look l m' (child_table (m (slot t j))) = look l m (child_table (m (slot t j)))
      \<and> (\<forall>va. leaf_entry l m (child_table (m (slot t j))) va \<noteq> None \<longrightarrow>
          leaf_entry l m' (child_table (m (slot t j))) va = leaf_entry l m (child_table (m (slot t j))) va)
      \<and> tset l m' (child_table (m (slot t j))) \<subseteq> tset l m (child_table (m (slot t j))) \<union> (if j = i then N else {})"
proof -
  let ?c = "\<lambda>j. child_table (m (slot t j))"
  have "t \<notin> tset l m (?c i) \<union> N" using wf i N by auto
  then have "PAGE_START (slot t j) 0x1000 \<notin> tset l m (?c i) \<union> N" using wf j by simp
  then show "m' (slot t j) = m (slot t j)" using ext unfolding ext_def by blast
  assume lj: "link (m (slot t j))"
  have "tset l m' (?c j) = tset l m (?c j) \<and> wf_tree l m' (?c j) \<and> look l m' (?c j) = look l m (?c j)
      \<and> leaf_entry l m' (?c j) = leaf_entry l m (?c j)"
    if "j \<noteq> i"
  proof -
    have wfj: "wf_tree l m (?c j)" using wf j lj by simp
    have "tset l m (?c j) \<inter> tset l m (?c i) = {}" using wf that i j lj by simp
    moreover have "tset l m (?c j) \<subseteq> tset (Suc l) m t" using j lj by auto
    ultimately have "m' a = m a" if "PAGE_START a 0x1000 \<in> tset l m (?c j)" for a
      using that ext N unfolding ext_def by blast
    with tree_cong [OF wfj, of m'] show ?thesis by blast
  qed
  with ext show "wf_tree l m' (?c j) \<and> look l m' (?c j) = look l m (?c j)
      \<and> (\<forall>va. leaf_entry l m (?c j) va \<noteq> None \<longrightarrow> leaf_entry l m' (?c j) va = leaf_entry l m (?c j) va)
      \<and> tset l m' (?c j) \<subseteq> tset l m (?c j) \<union> (if j = i then N else {})"
    by (cases "j = i") (simp_all add: ext_def)
qed

lemma ext_child_wf:
  assumes wf: "wf_tree (Suc l) m t" and i: "i < 512" "link (m (slot t i))"
    and ext: "ext l m m' (child_table (m (slot t i))) N" and N: "N \<inter> tset (Suc l) m t = {}"
  shows "wf_tree (Suc l) m' t"
  unfolding wf_tree.simps
proof (intro conjI allI impI)
  let ?c = "\<lambda>j. child_table (m (slot t j))"
  note parts = ext_child_parts [OF wf i ext N]
  fix j
  assume j: "j < 512" "link (m' (slot t j))"
  then have j': "link (m (slot t j))" "?c j = child_table (m' (slot t j))" using parts(1) by simp_all
  have "t \<notin> tset l m (?c j) \<union> N" using wf j(1) j' N by auto
  then show "t \<notin> tset l m' (child_table (m' (slot t j)))"
    using parts(2) [OF j(1) j'(1)] j'(2) by (auto split: if_splits)
  show "wf_tree l m' (child_table (m' (slot t j)))"
    using parts(2) [OF j(1) j'(1)] j'(2) by simp
next
  let ?c = "\<lambda>j. child_table (m (slot t j))"
  note parts = ext_child_parts [OF wf i ext N]
  fix j k
  assume jk: "j < 512" "k < 512" "j \<noteq> k \<and> link (m' (slot t j)) \<and> link (m' (slot t k))"
  then have l: "link (m (slot t j))" "link (m (slot t k))" using parts(1) by simp_all
  have "tset l m (?c j) \<inter> tset l m (?c k) = {}" using wf jk l by simp
  moreover have "tset l m (?c j) \<inter> N = {}" "tset l m (?c k) \<inter> N = {}"
    using jk l N by auto
  moreover note parts(2) [OF jk(1) l(1)] parts(2) [OF jk(2) l(2)]
  ultimately have "tset l m' (?c j) \<inter> tset l m' (?c k) = {}"
    using jk(3) by (cases "j = i"; cases "k = i") (simp_all, blast+)
  then show "tset l m' (child_table (m' (slot t j))) \<inter> tset l m' (child_table (m' (slot t k))) = {}"
    using parts(1) jk by simp
qed (use wf in simp_all)

lemma ext_child:
  assumes wf: "wf_tree (Suc l) m t" and i: "i < 512" "link (m (slot t i))"
    and ext: "ext l m m' (child_table (m (slot t i))) N" and N: "N \<inter> tset (Suc l) m t = {}"
  shows "ext (Suc l) m m' t N \<and> m' (slot t i) = m (slot t i)"
proof -
  let ?c = "\<lambda>j. child_table (m (slot t j))"
  note parts = ext_child_parts [OF wf i ext N]
  have "tset l m' (?c j) \<subseteq> tset (Suc l) m t \<union> N" if "j < 512" "link (m (slot t j))" for j
    using parts(2) [OF that] that by (auto split: if_splits)
  then have "tset (Suc l) m' t \<subseteq> tset (Suc l) m t \<union> N"
    using parts(1) by (auto simp del: tset.simps(2) simp: tset.simps(2) [of l m' t]) blast
  moreover have "look (Suc l) m' t va = look (Suc l) m t va"
      "leaf_entry (Suc l) m t va \<noteq> None \<longrightarrow> leaf_entry (Suc l) m' t va = leaf_entry (Suc l) m t va" for va
    using parts [of "va_index va (Suc l)"] by (simp_all add: entry_at_slot link_def Let_def)
  moreover have "tset l m (?c i) \<subseteq> tset (Suc l) m t" using i by auto
  then have "m' a = m a" if "PAGE_START a 0x1000 \<notin> tset (Suc l) m t \<union> N" for a
    using that ext unfolding ext_def by blast
  ultimately show ?thesis
    using parts(1) [OF i(1)] ext_child_wf [OF assms] by (auto simp: ext_def)
qed

text \<open>The window address of a physical page, and the entry that \<open>walk\<close> writes for a new table.\<close>

definition win :: "u64 \<Rightarrow> ptr" where
  "win p = p + 0xFFFFFE8000000000"

lemma win_inj: "win p = win q \<longleftrightarrow> p = q"
  by (simp add: win_def)

lemma page_aligned_take_bit: "page_aligned p \<longleftrightarrow> take_bit 12 p = 0"
proof -
  have "unat (take_bit 12 p) = unat p mod 4096"
    by (simp add: take_bit_eq_mod unat_mod)
  then show ?thesis by (simp add: page_aligned_def word_unat_eq_iff)
qed

lemma not_bit_page_aligned: "page_aligned p \<Longrightarrow> n < 12 \<Longrightarrow> \<not> bit p n"
  by (metis bit_0_eq bit_take_bit_iff page_aligned_take_bit bot_apply bot_bool_def)

lemma win_facts:
  assumes "page_aligned p" "p < 0x8000000000"
  shows "page_aligned (win p)" "win p \<noteq> NULL"
proof -
  have "unat p < 2 ^ 39" using assms(2) by (simp add: word_less_nat_alt)
  then have "unat (win p) = unat p + 0xFFFFFE8000000000"
    by (simp add: win_def unat_word_ariths)
  then show "page_aligned (win p)" "win p \<noteq> NULL"
    using assms(1) by (auto simp: page_aligned_def elim!: page_alignedE)
qed

lemma new_table_entry_facts:
  assumes "page_aligned p" "p < 0x8000000000"
  shows "link (new_table_entry p)" "child_table (new_table_entry p) = win p"
proof -
  have lt: "unat p < 2 ^ 39" using assms(2) by (simp add: word_less_nat_alt)
  have "push_bit 12 (take_bit 39 (drop_bit 12 p)) = p"
  proof (rule bit_word_eqI)
    fix n
    assume "n < LENGTH(64)"
    then show "bit (push_bit 12 (take_bit 39 (drop_bit 12 p))) n = bit p n"
      using not_bit_page_aligned [OF assms(1), of n] not_bit_if_unat_less [OF lt, of n]
      by (cases "n < 12"; cases "n < 39") (auto simp: bit_simps)
  qed
  then show "child_table (new_table_entry p) = win p"
    by (simp add: child_table_def new_table_entry_def win_def pte_addr_def [of p])
  have "\<not> bit p 7" using assms(1) by (rule not_bit_page_aligned) simp
  then show "link (new_table_entry p)"
    by (simp add: link_def new_table_entry_def pte_page_size_def [of p])
qed

lemma fresh_table:
  assumes "page_aligned q" "q \<noteq> NULL" "\<And>a. PAGE_START a 0x1000 = q \<Longrightarrow> m a = 0"
  shows "wf_tree l m q \<and> tset l m q = {q} \<and> look l m q va = None"
proof (cases l)
  case 0
  have "m (entry_at q va 0) = 0" unfolding entry_at_slot using assms(1) by (intro assms(3)) simp
  with 0 assms show ?thesis by (simp add: pte_present_def)
next
  case (Suc k)
  have e: "m (slot q i) = 0" if "i < 512" for i
    using that assms(1) by (intro assms(3)) simp
  then have "\<not> link (m (slot q i))" if "i < 512" for i
    using that by (simp add: link_def pte_present_def)
  then show ?thesis
    using Suc assms e [of "va_index va (Suc k)"] by (auto simp: entry_at_slot pte_present_def)
qed

lemma in_page_iff: "page_aligned q \<Longrightarrow> a - q < 0x1000 \<longleftrightarrow> PAGE_START a 0x1000 = q"
proof
  assume q: "page_aligned q" and "PAGE_START a 0x1000 = q"
  then have "a = q + a mod 0x1000" by (auto simp: PAGE_START_def)
  then have "a - q = a mod 0x1000" by (metis add_diff_cancel_left')
  then show "a - q < 0x1000" by (simp add: word_less_nat_alt unat_mod)
next
  assume q: "page_aligned q" and "a - q < 0x1000"
  define d where "d = unat (a - q)"
  have d: "d < 4096" using \<open>a - q < 0x1000\<close> by (simp add: d_def word_less_nat_alt)
  obtain k where k: "unat q = 4096 * k" using q by (rule page_alignedE)
  have "a = q + of_nat d" by (simp add: d_def)
  moreover have "unat (q + of_nat d) = 4096 * k + d"
    using unat_u64_less [of q] d k by (simp add: unat_word_ariths)
  ultimately have "unat a div 4096 * 4096 = unat q" using d k by simp
  then show "PAGE_START a 0x1000 = q" by (simp add: word_unat_eq_iff unat_PAGE_START_4K)
qed

lemma ext_new_parts:
  assumes wf: "wf_tree (Suc l) m t" and i: "i < 512" "\<not> pte_present (m (slot t i))"
    and q: "page_aligned q" "q \<noteq> NULL" "q \<notin> tset (Suc l) m t"
    and m1: "m1 = (\<lambda>a. if PAGE_START a 0x1000 = q then 0 else (m(slot t i := e)) a)"
    and j: "j < 512"
  shows "m1 (slot t j) = (if j = i then e else m (slot t j))"
    and "link (m (slot t j)) \<Longrightarrow> wf_tree l m1 (child_table (m (slot t j)))
      \<and> look l m1 (child_table (m (slot t j))) = look l m (child_table (m (slot t j)))
      \<and> leaf_entry l m1 (child_table (m (slot t j))) = leaf_entry l m (child_table (m (slot t j)))
      \<and> tset l m1 (child_table (m (slot t j))) = tset l m (child_table (m (slot t j)))"
proof -
  let ?c = "child_table (m (slot t j))"
  have al: "page_aligned t" using wf by simp
  have "t \<noteq> q" using q(3) by auto
  then show "m1 (slot t j) = (if j = i then e else m (slot t j))"
    using al i(1) j slot_inj [OF al j i(1)] by (auto simp: m1)
  assume lj: "link (m (slot t j))"
  have wfj: "wf_tree l m ?c" using wf j lj by simp
  have "t \<notin> tset l m ?c" "q \<notin> tset l m ?c" using wf j lj q(3) by auto
  then have "m1 a = m a" if "PAGE_START a 0x1000 \<in> tset l m ?c" for a
    using that al i(1) by (auto simp: m1)
  then show "wf_tree l m1 ?c \<and> look l m1 ?c = look l m ?c \<and> leaf_entry l m1 ?c = leaf_entry l m ?c
      \<and> tset l m1 ?c = tset l m ?c"
    using tree_cong [OF wfj, of m1] by blast
qed

lemma ext_new:
  assumes wf: "wf_tree (Suc l) m t" and i: "i < 512" "\<not> pte_present (m (slot t i))"
    and q: "page_aligned q" "q \<noteq> NULL" "q \<notin> tset (Suc l) m t"
    and m1: "m1 = (\<lambda>a. if PAGE_START a 0x1000 = q then 0 else (m(slot t i := e)) a)"
    and e: "link e" "child_table e = q"
  shows "ext (Suc l) m m1 t {q} \<and> m1 (slot t i) = e \<and> tset l m1 q = {q} \<and> wf_tree l m1 q"
proof -
  let ?c = "\<lambda>j. child_table (m (slot t j))"
  note parts = ext_new_parts [OF wf i q m1]
  have fresh: "wf_tree l m1 q" "tset l m1 q = {q}" "\<And>va. look l m1 q va = None"
    using fresh_table [OF q(1,2), of m1 l] by (auto simp: m1)
  have ni: "\<not> link (m (slot t i))" using i(2) by (simp add: link_def)
  have c: "link (m1 (slot t j)) \<longleftrightarrow> j = i \<or> link (m (slot t j))"
      "child_table (m1 (slot t j)) = (if j = i then q else ?c j)" if "j < 512" for j
    using parts(1) [OF that] e by auto
  have sub: "tset l m (?c j) \<subseteq> tset (Suc l) m t" if "j < 512" "link (m (slot t j))" for j
    using that by auto
  have "wf_tree (Suc l) m1 t"
    unfolding wf_tree.simps
  proof (intro conjI allI impI)
    fix j
    assume j: "j < 512" "link (m1 (slot t j))"
    show "wf_tree l m1 (child_table (m1 (slot t j)))" "t \<notin> tset l m1 (child_table (m1 (slot t j)))"
      using j c [OF j(1)] parts(2) [OF j(1)] fresh wf q(3) ni by (cases "j = i"; auto)+
  next
    fix j k
    assume jk: "j < 512" "k < 512" "j \<noteq> k \<and> link (m1 (slot t j)) \<and> link (m1 (slot t k))"
    have "q \<notin> tset l m (?c j)" if "j < 512" "link (m (slot t j))" for j
      using sub [OF that] q(3) by blast
    moreover have "tset l m (?c j) \<inter> tset l m (?c k) = {}" if "link (m (slot t j))" "link (m (slot t k))"
      using that jk wf by simp
    ultimately show "tset l m1 (child_table (m1 (slot t j))) \<inter> tset l m1 (child_table (m1 (slot t k))) = {}"
      using jk c [OF jk(1)] c [OF jk(2)] parts(2) [OF jk(1)] parts(2) [OF jk(2)] fresh(2)
      by (cases "j = i"; cases "k = i") auto
  qed (use wf in simp_all)
  moreover have "tset l m1 (child_table (m1 (slot t j))) \<subseteq> tset (Suc l) m t \<union> {q}"
    if "j < 512" "link (m1 (slot t j))" for j
    using that c [OF that(1)] parts(2) [OF that(1)] sub [OF that(1)] fresh(2) by (cases "j = i") auto
  then have "tset (Suc l) m1 t \<subseteq> tset (Suc l) m t \<union> {q}"
    by (auto simp del: tset.simps(2) simp: tset.simps(2) [of l m1 t])
  moreover have "look (Suc l) m1 t va = look (Suc l) m t va"
      "leaf_entry (Suc l) m t va \<noteq> None \<longrightarrow> leaf_entry (Suc l) m1 t va = leaf_entry (Suc l) m t va" for va
    using parts [of "va_index va (Suc l)"] i(2) e fresh(3)
    by (auto simp: entry_at_slot link_def Let_def)
  moreover have "m1 a = m a" if "PAGE_START a 0x1000 \<notin> tset (Suc l) m t \<union> {q}" for a
    using that wf i(1) by (auto simp: m1)
  ultimately show ?thesis
    using fresh parts(1) [OF i(1)] by (auto simp: ext_def)
qed

section \<open>The walk\<close>

text \<open>\<open>vm_static s s'\<close>: only locking state, free list, bitmap and page tables differ.\<close>

definition vm_static :: "'a paging_state_scheme \<Rightarrow> 'a paging_state_scheme \<Rightarrow> bool" where
  "vm_static s s' \<longleftrightarrow>
     free_lst s' = free_lst s \<and> phys_alloc_lock s' = phys_alloc_lock s \<and> pa_base s' = pa_base s
     \<and> pa_alloc s' = pa_alloc s \<and> pa_alloc_size s' = pa_alloc_size s \<and> apic_id s' = apic_id s
     \<and> (\<forall>l. l \<noteq> phys_alloc_lock s \<longrightarrow> spinlocks s' l = spinlocks s l)
     \<and> nx_flag_enabled s' = nx_flag_enabled s \<and> kernel_pml4 s' = kernel_pml4 s
     \<and> paging_state.more s' = paging_state.more s"

lemma vm_static_refl [simp]: "vm_static s s"
  by (simp add: vm_static_def)

lemma vm_static_trans [trans]: "vm_static s s' \<Longrightarrow> vm_static s' s'' \<Longrightarrow> vm_static s s''"
  by (simp add: vm_static_def)

lemma phys_static_vm:
  assumes "phys_static s s'"
  shows "vm_static s s' \<and> pt_mem s' = pt_mem s"
  using assms by (cases s; cases s') (simp add: phys_static_def vm_static_def)

lemma phys_inv_pt_mem [simp]: "phys_inv (s\<lparr>pt_mem := m\<rparr>) n is = phys_inv s n is"
proof -
  have "lst_rel (s\<lparr>pt_mem := m\<rparr>) h xs = lst_rel s h xs" for h xs
    by (rule lst_rel_cong) simp
  moreover have "page_va (s\<lparr>pt_mem := m\<rparr>) = page_va s"
    by (simp add: fun_eq_iff page_va_def page_pa_def)
  ultimately show ?thesis
    by (simp add: phys_inv_def phys_wf_def bit_isset_def)
qed

lemma phys_pages_pt_mem [simp]: "phys_pages (s\<lparr>pt_mem := m\<rparr>) M F = phys_pages s M F"
proof -
  have "page_pa (s\<lparr>pt_mem := m\<rparr>) = page_pa s"
    by (simp add: fun_eq_iff page_pa_def)
  then show ?thesis by (simp add: phys_pages_def)
qed

lemma vm_static_pt_mem [simp]: "vm_static s (s'\<lparr>pt_mem := m\<rparr>) = vm_static s s'"
  by (simp add: vm_static_def)

text \<open>What \<open>walk\<close> returns, in terms of the final tables.\<close>

definition walked :: "nat \<Rightarrow> (ptr \<Rightarrow> pte_t) \<Rightarrow> ptr \<Rightarrow> u64 \<Rightarrow> ptr \<Rightarrow> bool" where
  "walked l m t va d \<longleftrightarrow>
     (case leaf_entry l m t va of Some d' \<Rightarrow> d = d'
      | None \<Rightarrow> (d = 0 \<and> look l m t va = None) \<or> (d \<noteq> 0 \<and> look l m t va = Some (m d)))"

lemma walked_Suc:
  assumes "link (m (slot t (va_index va (Suc l))))"
  shows "walked (Suc l) m t va d = walked l m (child_table (m (slot t (va_index va (Suc l))))) va d"
proof -
  let ?c = "child_table (m (slot t (va_index va (Suc l))))"
  have "look (Suc l) m t va = look l m ?c va" "leaf_entry (Suc l) m t va = leaf_entry l m ?c va"
    using assms by (simp_all add: entry_at_slot link_def Let_def)
  then show ?thesis by (simp only: walked_def)
qed

lemma walk_no_alloc:
  "wf_tree l (pt_mem s) t \<Longrightarrow> \<exists>d. walk_loop l t va False s = Inr (d, s) \<and> walked l (pt_mem s) t va d"
proof (induction l arbitrary: t)
  case 0
  then show ?case by (simp add: walked_def)
next
  case (Suc l)
  let ?i = "va_index va (Suc l)"
  have sl: "slot t ?i \<noteq> NULL" using Suc.prems by (intro slot_nonzero) simp_all
  show ?case
  proof (cases "link (pt_mem s (slot t ?i))")
    case True
    then show ?thesis
      using Suc.IH [OF wf_tree_child(1) [OF Suc.prems _ True]] walked_Suc [of "pt_mem s" t va l, OF True]
      by (simp add: entry_at_slot link_def)
  next
    case False
    then show ?thesis
      using sl by (auto simp: walked_def entry_at_slot link_def Let_def)
  qed
qed

lemma walk_descend:
  fixes l m t va
  defines "i \<equiv> va_index va (Suc l)"
  assumes wf: "wf_tree (Suc l) m t" and link: "link (m (slot t i))"
    and disj: "tset (Suc l) m t \<inter> win ` F = {}" and sub: "F' \<subseteq> F"
    and ext: "ext l m m' (child_table (m (slot t i))) (win ` (F - F'))"
    and wk: "walked l m' (child_table (m (slot t i))) va d"
  shows "ext (Suc l) m m' t (win ` (F - F')) \<and> walked (Suc l) m' t va d"
proof -
  have N: "win ` (F - F') \<inter> tset (Suc l) m t = {}" using disj by blast
  have "ext (Suc l) m m' t (win ` (F - F')) \<and> m' (slot t i) = m (slot t i)"
    by (rule ext_child [OF wf _ link ext N]) (simp add: i_def)
  then show ?thesis
    using link wk walked_Suc [of m' t va l d] by (simp flip: i_def)
qed

text \<open>The tables after \<open>walk\<close> linked the fresh page \<open>p\<close> into slot \<open>i\<close> of table \<open>t\<close> and cleared it.\<close>

lemma walk_new_table:
  assumes "page_aligned p" "p < 0x8000000000" "i < 512" "win p \<noteq> t" "page_aligned t"
  shows "pt_mem (zero_table (p + PHYSICAL_OFFSET) (set_entry (slot t i) (new_table_entry p) s)) =
    (\<lambda>a. if PAGE_START a 0x1000 = win p then 0 else ((pt_mem s)(slot t i := new_table_entry p)) a)"
  using in_page_iff [OF win_facts(1) [OF assms(1,2)]]
  by (simp add: zero_table_def set_entry_def win_def fun_eq_iff)

text \<open>\<open>walk_post\<close>: the outcome of a walk that may allocate, for the tree at \<open>t\<close>.\<close>

definition walk_post ::
    "nat \<Rightarrow> ptr \<Rightarrow> u64 \<Rightarrow> u64 set \<Rightarrow> u64 set \<Rightarrow> 'a paging_state_scheme \<Rightarrow> (ptr \<times> 'a paging_state_scheme) res \<Rightarrow> bool"
  where
  "walk_post l t va M F s r \<longleftrightarrow>
     (\<exists>d s' F'. r = Inr (d, s') \<and> phys_pages s' M F' \<and> F' \<subseteq> F \<and> vm_static s s'
       \<and> ext l (pt_mem s) (pt_mem s') t (win ` (F - F')) \<and> walked l (pt_mem s') t va d \<and> (d = 0 \<longrightarrow> F' = {})
       \<and> card F \<le> card F' + l)"

lemma disjoint_extend: "A \<subseteq> B \<union> {w} \<Longrightarrow> w \<notin> W' \<Longrightarrow> B \<inter> W = {} \<Longrightarrow> W' \<subseteq> W \<Longrightarrow> A \<inter> W' = {}"
  by blast

lemma walk_alloc_absent:
  fixes s :: "'a paging_state_scheme"
  defines "m \<equiv> pt_mem s"
  assumes IH: "\<And>(s :: 'a paging_state_scheme) t F. phys_pages s M F \<Longrightarrow> wf_tree l (pt_mem s) t \<Longrightarrow>
      tset l (pt_mem s) t \<inter> win ` F = {} \<Longrightarrow> walk_post l t va M F s (walk_loop l t va True s)"
    and inv: "phys_pages s M F" and wf: "wf_tree (Suc l) m t" and disj: "tset (Suc l) m t \<inter> win ` F = {}"
    and absent: "\<not> pte_present (m (slot t (va_index va (Suc l))))"
  shows "walk_post (Suc l) t va M F s (walk_loop (Suc l) t va True s)"
proof -
  let ?i = "va_index va (Suc l)"
  obtain p s1 where k: "kalloc s = Inr (p, s1)" "phys_pages s1 M (F - {p})" "phys_static s s1"
      "p = 0 \<longleftrightarrow> F = {}" "p \<noteq> 0 \<longrightarrow> p \<in> F"
    using phys.alloc_total [OF inv] by blast
  note st = phys_static_vm [OF k(3)]
  show ?thesis
  proof (cases "p = 0")
    case True
    then have "walk_loop (Suc l) t va True s = Inr (0, s1)"
      using absent k(1) by (simp add: entry_at_slot m_def)
    moreover have "walked (Suc l) (pt_mem s1) t va 0"
      using absent st by (simp add: walked_def entry_at_slot link_def m_def)
    ultimately show ?thesis
      using True k st ext_refl [OF wf] by (auto simp: walk_post_def m_def)
  next
    case False
    then have p: "p \<in> F" "page_aligned p" "p < 0x8000000000"
      using k(5) phys.managed [OF inv] phys.free_managed [OF inv] by auto
    have q: "win p \<notin> tset (Suc l) m t" "win p \<noteq> t" using disj p(1) by auto
    let ?s2 = "zero_table (p + PHYSICAL_OFFSET) (set_entry (slot t ?i) (new_table_entry p) s1)"
    define m2 where "m2 = pt_mem ?s2"
    have m2: "m2 = (\<lambda>a. if PAGE_START a 0x1000 = win p then 0 else (m(slot t ?i := new_table_entry p)) a)"
      unfolding m2_def using walk_new_table [OF p(2,3) _ q(2), of ?i s1] wf_tree_root [OF wf] st
      by (simp add: m_def cong: if_cong)
    have new: "ext (Suc l) m m2 t {win p}" "m2 (slot t ?i) = new_table_entry p"
        "tset l m2 (win p) = {win p}" "wf_tree l m2 (win p)"
      using ext_new [OF wf _ absent win_facts [OF p(2,3)] q(1) m2 new_table_entry_facts [OF p(2,3)]] by auto
    have pre: "phys_pages ?s2 M (F - {p})" "vm_static s ?s2"
      using k(2) st by (simp_all add: zero_table_def set_entry_def)
    have disj2: "tset (Suc l) m2 t \<inter> win ` (F - {p}) = {}"
    proof -
      have "tset (Suc l) m2 t \<subseteq> tset (Suc l) m t \<union> {win p}" using new(1) by (simp only: ext_def)
      moreover have "win p \<notin> win ` (F - {p})" by (auto simp: win_inj)
      ultimately show ?thesis by (rule disjoint_extend [OF _ _ disj]) blast
    qed
    have "walk_post l (win p) va M (F - {p}) ?s2 (walk_loop l (win p) va True ?s2)"
    proof (rule IH [OF pre(1)])
      show "wf_tree l (pt_mem ?s2) (win p)" using new(4) by (simp only: m2_def)
      show "tset l (pt_mem ?s2) (win p) \<inter> win ` (F - {p}) = {}"
        unfolding m2_def [symmetric] new(3) by (auto simp: win_inj)
    qed
    then obtain d s' F' where r: "walk_loop l (win p) va True ?s2 = Inr (d, s')" "phys_pages s' M F'"
        "F' \<subseteq> F - {p}" "vm_static ?s2 s'" "ext l m2 (pt_mem s') (win p) (win ` (F - {p} - F'))"
        "walked l (pt_mem s') (win p) va d" "d = 0 \<longrightarrow> F' = {}" "card (F - {p}) \<le> card F' + l"
      unfolding walk_post_def m2_def by blast
    have c: "wf_tree (Suc l) m2 t" "link (m2 (slot t ?i))" "win p = child_table (m2 (slot t ?i))"
      using new(1) new_table_entry_facts [OF p(2,3)] by (simp_all only: ext_def new(2))
    have D: "ext (Suc l) m2 (pt_mem s') t (win ` (F - {p} - F')) \<and> walked (Suc l) (pt_mem s') t va d"
      by (rule walk_descend [OF c(1,2) disj2 r(3) r(5,6) [unfolded c(3)]])
    have run: "walk_loop (Suc l) t va True s = Inr (d, s')"
      using absent k(1) False r(1) by (simp add: entry_at_slot m_def win_def Let_def)
    have "{win p} \<union> win ` (F - {p} - F') = win ` (F - F')" using p(1) r(3) by auto
    then have E: "ext (Suc l) m (pt_mem s') t (win ` (F - F'))"
      using ext_trans [OF new(1) conjunct1 [OF D]] by (simp only:)
    have c': "card F \<le> card F' + Suc l"
      using r(8) p(1) phys.free_managed [OF inv] card_Suc_Diff1 [of F p] by linarith
    have "F' \<subseteq> F" "vm_static s s'" using r(3) vm_static_trans [OF pre(2) r(4)] by auto
    then show ?thesis
      unfolding walk_post_def m_def [symmetric] using run r(2,7) c' E conjunct2 [OF D] by blast
  qed
qed

lemma walk_alloc:
  assumes "phys_pages s M F" "wf_tree l (pt_mem s) t" "tset l (pt_mem s) t \<inter> win ` F = {}"
  shows "walk_post l t va M F s (walk_loop l t va True s)"
  using assms
proof (induction l arbitrary: s t F)
  case 0
  then have "slot t (va_index va 0) \<noteq> NULL" by (intro slot_nonzero) simp_all
  then show ?case using 0 ext_refl [OF 0(2)] by (auto simp: walk_post_def walked_def entry_at_slot)
next
  case (Suc l)
  let ?i = "va_index va (Suc l)" and ?m = "pt_mem s"
  let ?e = "?m (slot t ?i)"
  have sl: "slot t ?i \<noteq> NULL" using Suc.prems(2) by (intro slot_nonzero) simp_all
  consider (huge) "pte_present ?e" "pte_page_size ?e" | (link) "link ?e" | (absent) "\<not> pte_present ?e"
    by (auto simp: link_def)
  then show ?case
  proof cases
    case huge
    with Suc.prems ext_refl [OF Suc.prems(2)] sl show ?thesis
      by (auto simp: walk_post_def entry_at_slot walked_def link_def)
  next
    case link
    let ?c = "child_table ?e"
    have "walk_post l ?c va M F s (walk_loop l ?c va True s)"
      using Suc.prems(1,3) wf_tree_child(1,3) [OF Suc.prems(2) _ link] by (intro Suc.IH) auto
    then obtain d s' F' where r: "walk_loop l ?c va True s = Inr (d, s')" "phys_pages s' M F'" "F' \<subseteq> F"
        "vm_static s s'" "ext l ?m (pt_mem s') ?c (win ` (F - F'))" "walked l (pt_mem s') ?c va d" "d = 0 \<longrightarrow> F' = {}" "card F \<le> card F' + l"
      by (auto simp: walk_post_def)
    have "walk_loop (Suc l) t va True s = Inr (d, s')"
      using link r(1) by (simp add: entry_at_slot link_def)
    then show ?thesis
      using r walk_descend [OF Suc.prems(2) link Suc.prems(3) r(3,5,6)] by (auto simp: walk_post_def)
  next
    case absent
    with Suc show ?thesis by (intro walk_alloc_absent)
  qed
qed

section \<open>Writing a last-level entry\<close>

lemma same_path_Suc: "same_path (Suc l) a b \<longleftrightarrow> same_path l a b \<and> va_index a (Suc l) = va_index b (Suc l)"
  by (auto simp: same_path_def va_index_eq le_Suc_eq)

text \<open>\<open>same_shape\<close>: two memories hold the same tree of tables.\<close>

definition same_shape :: "nat \<Rightarrow> (ptr \<Rightarrow> pte_t) \<Rightarrow> (ptr \<Rightarrow> pte_t) \<Rightarrow> ptr \<Rightarrow> bool" where
  "same_shape l m m' t \<longleftrightarrow>
     tset l m' t = tset l m t \<and> wf_tree l m' t \<and> leaf_entry l m' t = leaf_entry l m t"

lemma same_shape_Suc:
  assumes wf: "wf_tree (Suc l) m t"
    and e: "\<And>i. i < 512 \<Longrightarrow> m' (slot t i) = m (slot t i)"
    and c: "\<And>i. i < 512 \<Longrightarrow> link (m (slot t i)) \<Longrightarrow> same_shape l m m' (child_table (m (slot t i)))"
  shows "same_shape (Suc l) m m' t"
proof -
  have "{i. i < 512 \<and> link (m' (slot t i))} = {i. i < 512 \<and> link (m (slot t i))}"
    using e by auto
  then have "tset (Suc l) m' t = tset (Suc l) m t"
    using e c by (simp add: same_shape_def)
  moreover have "wf_tree (Suc l) m' t"
    using wf e c by (simp add: same_shape_def)
  moreover have "leaf_entry (Suc l) m' t va = leaf_entry (Suc l) m t va" for va
    using e [of "va_index va (Suc l)"] c [of "va_index va (Suc l)"]
    by (simp add: entry_at_slot same_shape_def Let_def)
  ultimately show ?thesis by (simp add: same_shape_def fun_eq_iff)
qed

lemma leaf_entry_page:
  "wf_tree l m t \<Longrightarrow> leaf_entry l m t va = Some d \<Longrightarrow> d \<noteq> 0 \<and> PAGE_START d 0x1000 \<in> tset l m t"
proof (induction l arbitrary: t)
  case 0
  then have "d = slot t (va_index va 0)" by (simp add: entry_at_slot)
  with 0(1) show ?case by (simp add: slot_nonzero)
next
  case (Suc l)
  let ?i = "va_index va (Suc l)"
  have l: "link (m (slot t ?i))" using Suc.prems(2) by (auto simp: entry_at_slot Let_def split: if_splits)
  then have "leaf_entry l m (child_table (m (slot t ?i))) va = Some d"
    using Suc.prems(2) by (simp add: entry_at_slot)
  with Suc.IH [OF wf_tree_child(1) [OF Suc.prems(1) _ l]] wf_tree_child(3) [OF Suc.prems(1) _ l]
  show ?case by auto
qed

lemma leaf_write:
  assumes "wf_tree l m t" "leaf_entry l m t va = Some d"
  shows "same_shape l m (m(d := v)) t
    \<and> look l (m(d := v)) t = (\<lambda>va'. if same_path l va va' then if pte_present v then Some v else None
        else look l m t va')"
  using assms
proof (induction l arbitrary: t)
  case 0
  let ?i = "va_index va 0"
  have d: "d = slot t ?i" and al: "page_aligned t" using 0 by (auto simp: entry_at_slot)
  have "slot t (va_index va' 0) = d \<longleftrightarrow> same_path 0 va va'" for va'
    using slot_inj [OF al, of "va_index va' 0" ?i] d va_index_eq [of va 0 va'] by (auto simp: same_path_def)
  then show ?case
    using 0 by (auto simp: entry_at_slot same_shape_def fun_eq_iff Let_def)
next
  case (Suc l)
  define m' where "m' = m(d := v)"
  let ?i = "va_index va (Suc l)"
  let ?c = "\<lambda>i. child_table (m (slot t i))"
  have l: "link (m (slot t ?i))" using Suc.prems(2) by (auto simp: entry_at_slot Let_def split: if_splits)
  have le: "leaf_entry l m (?c ?i) va = Some d"
    using Suc.prems(2) l by (simp add: entry_at_slot)
  note wfc = wf_tree_child [OF Suc.prems(1) _ l, simplified]
  note IH = Suc.IH [OF wfc(1) le, folded m'_def]
  have pg: "PAGE_START d 0x1000 \<in> tset l m (?c ?i)" using leaf_entry_page [OF wfc(1) le] by simp
  have e: "m' (slot t i) = m (slot t i)" if "i < 512" for i
    using pg wfc(2) that Suc.prems(1) PAGE_START_slot [of t i] by (auto simp: m'_def)
  have sib: "same_shape l m m' (?c j) \<and> look l m' (?c j) = look l m (?c j)"
    if "j < 512" "j \<noteq> ?i" "link (m (slot t j))" for j
  proof -
    have "tset l m (?c j) \<inter> tset l m (?c ?i) = {}" using Suc.prems(1) that l by simp
    then have "m' a = m a" if "PAGE_START a 0x1000 \<in> tset l m (?c j)" for a
      using that pg by (auto simp: m'_def)
    with tree_cong [OF wf_tree_child(1) [OF Suc.prems(1) that(1,3)], of m'] show ?thesis
      unfolding same_shape_def by blast
  qed
  have "same_shape (Suc l) m m' t"
    using IH sib by (intro same_shape_Suc [OF Suc.prems(1) e]) blast+
  moreover have "look (Suc l) m' t va' = (if same_path (Suc l) va va' then if pte_present v then Some v else None
        else look (Suc l) m t va')" for va'
  proof (cases "va_index va' (Suc l) = ?i")
    case True
    then show ?thesis using IH l e [of ?i] same_path_Suc [of l va va'] by (simp add: entry_at_slot link_def Let_def)
  next
    case False
    then show ?thesis
      using sib [of "va_index va' (Suc l)"] e [of "va_index va' (Suc l)"] same_path_Suc [of l va va']
      by (auto simp: entry_at_slot link_def Let_def)
  qed
  ultimately show ?case unfolding m'_def [symmetric] by (intro conjI ext)
qed

end
