(* ===== verification/Page_Mapping.thy ===== *)
theory Page_Mapping
  imports Page_Tree
begin

text \<open>
  The page loops of \<open>vm.c\<close>: what \<open>mappages\<close> and \<open>unmappages\<close> do to the translation that a page table stands
  for, over ranges of pages, and what the entries that \<open>mappages\<close> writes mean.
\<close>

section \<open>Ranges of pages\<close>

definition page_at :: "u64 \<Rightarrow> nat \<Rightarrow> u64" where
  "page_at start k = start + of_nat k * 0x1000"

text \<open>
  \<open>span start n\<close>: \<open>n\<close> pages from \<open>start\<close>, neither containing page 0 nor reaching the end of the address
  space, and not more than the 48 bits of a virtual address can tell apart.
\<close>

definition span :: "u64 \<Rightarrow> nat \<Rightarrow> bool" where
  "span start n \<longleftrightarrow> page_aligned start \<and> 0 < unat start \<and> unat start + n * 4096 < 2 ^ 64 \<and> n \<le> 2 ^ 36"

lemma page_at_0 [simp]: "page_at start 0 = start"
  by (simp add: page_at_def)

lemma page_at_Suc: "page_at start (Suc k) = page_at start k + 0x1000"
  by (simp add: page_at_def algebra_simps)

lemma unat_page_at:
  assumes "span start n" "k \<le> n"
  shows "unat (page_at start k) = unat start + k * 4096"
proof -
  have "unat start + k * 4096 < 2 ^ 64"
    using assms mult_le_mono1 [of k n 4096] unfolding span_def by linarith
  moreover from this have "unat (of_nat k * 0x1000 :: u64) = k * 4096"
    by (simp add: unat_word_ariths)
  ultimately show ?thesis by (simp add: page_at_def unat_word_ariths)
qed

lemma page_at_less_end:
  assumes "span start n" "k \<le> n" "unat e = unat start + n * 4096 - 1"
  shows "page_at start k < e \<longleftrightarrow> k < n"
proof -
  have "0 < unat start" using assms(1) by (simp add: span_def)
  moreover have "k < n \<Longrightarrow> k * 4096 + 4096 \<le> n * 4096" by simp
  ultimately show ?thesis
    unfolding word_less_nat_alt unat_page_at [OF assms(1,2)] assms(3) using assms(2) by auto
qed

lemma same_path_vpn:
  assumes "same_path 3 a b"
  shows "(unat a div 4096) mod 2 ^ 36 = (unat b div 4096) mod 2 ^ 36"
proof -
  have "take_bit 36 (drop_bit 12 a) = take_bit 36 (drop_bit 12 b)"
  proof (rule bit_word_eqI)
    fix n
    assume "n < LENGTH(64)"
    have *: "bit a (12 + k * 9 + j) = bit b (12 + k * 9 + j)" if "k \<le> 3" "j < 9" "12 + k * 9 + j < 64" for k j
    proof -
      have "bit (VA2INDEX a k) j = bit (VA2INDEX b k) j" using assms that(1) by (simp add: same_path_def)
      then show ?thesis using that by (simp add: VA2INDEX_take_bit bit_simps add.commute add.left_commute)
    qed
    have "bit a (12 + n) = bit b (12 + n)" if "n < 36"
    proof -
      have "n div 9 \<le> 3" "n mod 9 < 9" "12 + n div 9 * 9 + n mod 9 = 12 + n" using that by auto
      with * [of "n div 9" "n mod 9"] that show ?thesis by simp
    qed
    then show "bit (take_bit 36 (drop_bit 12 a)) n = bit (take_bit 36 (drop_bit 12 b)) n"
      by (auto simp: bit_simps add.commute)
  qed
  then have "unat (take_bit 36 (drop_bit 12 a)) = unat (take_bit 36 (drop_bit 12 b))" by simp
  then show ?thesis
    by (simp add: take_bit_eq_mod drop_bit_eq_div unat_div unat_mod)
qed

lemma page_at_distinct_path:
  assumes "span start n" "j < n" "k < n" "same_path 3 (page_at start j) (page_at start k)"
  shows "j = k"
proof -
  obtain q where q: "unat start = 4096 * q" using assms(1) by (auto simp: span_def elim: page_alignedE)
  have "unat (page_at start i) div 4096 = q + i" if "i < n" for i
    using unat_page_at [OF assms(1), of i] that q by simp
  with same_path_vpn [OF assms(4)] assms(2,3) have "(q + j) mod 2 ^ 36 = (q + k) mod 2 ^ 36" by simp
  then have "j mod 2 ^ 36 = k mod 2 ^ 36" by (auto simp: nat_mod_eq_iff)
  moreover have "j < 2 ^ 36" "k < 2 ^ 36" using assms(1-3) by (auto simp: span_def)
  ultimately show ?thesis by simp
qed

section \<open>Translations and paths\<close>

lemma same_path_refl [simp]: "same_path l a a"
  by (simp add: same_path_def)

lemma look_same_path:
  "same_path l a b \<Longrightarrow> look l m t a = look l m t b \<and> leaf_entry l m t a = leaf_entry l m t b"
proof (induction l arbitrary: t)
  case 0
  then show ?case by (simp add: same_path_def entry_at_def)
next
  case (Suc l)
  then have "same_path l a b" "entry_at t a (Suc l) = entry_at t b (Suc l)"
    by (simp_all add: same_path_def entry_at_def)
  with Suc.IH show ?case by (simp add: Let_def)
qed

lemma look_present: "look l m t va = Some e \<Longrightarrow> pte_present e"
  by (induction l arbitrary: t) (auto simp: Let_def split: if_splits)

lemma look_leaf:
  "leaf_entry l m t va = Some d \<Longrightarrow> look l m t va = (if pte_present (m d) then Some (m d) else None)"
  by (induction l arbitrary: t) (auto simp: Let_def link_def split: if_splits)

section \<open>Removing translations\<close>

text \<open>\<open>in_pages start j n va\<close>: \<open>va\<close> is translated by the entry of one of the pages \<open>j\<close> to \<open>n - 1\<close>.\<close>

definition in_pages :: "u64 \<Rightarrow> nat \<Rightarrow> nat \<Rightarrow> u64 \<Rightarrow> bool" where
  "in_pages start j n va \<longleftrightarrow> (\<exists>k. j \<le> k \<and> k < n \<and> same_path 3 (page_at start k) va)"

lemma in_pages_Suc:
  "j < n \<Longrightarrow> in_pages start j n va \<longleftrightarrow> same_path 3 (page_at start j) va \<or> in_pages start (Suc j) n va"
  unfolding in_pages_def by (metis Suc_leD Suc_leI le_neq_implies_less order_refl)

lemma in_pages_empty [simp]: "\<not> in_pages start n n va"
  by (simp add: in_pages_def)

definition not_huge :: "(ptr \<Rightarrow> pte_t) \<Rightarrow> ptr \<Rightarrow> u64 \<Rightarrow> bool" where
  "not_huge m root va \<longleftrightarrow> leaf_entry 3 m root va \<noteq> None \<or> look 3 m root va = None"

lemma unmap_one:
  assumes wf: "wf_tree 3 m root" and wk: "walked 3 m root va d" and nh: "not_huge m root va"
    and m1: "m1 = (if d = 0 then m else m(d := pte_set_present False (m d)))"
  shows "same_shape 3 m m1 root
    \<and> look 3 m1 root = (\<lambda>va'. if same_path 3 va va' then None else look 3 m root va')"
proof (cases "leaf_entry 3 m root va")
  case None
  then have "look 3 m root va = None" "d = 0" using nh wk by (auto simp: not_huge_def walked_def)
  moreover from this(2) have "m1 = m" by (simp add: m1)
  ultimately show ?thesis
    using wf look_same_path [of 3 va _ m root] by (auto simp: same_shape_def)
next
  case (Some d')
  then have "d = d'" using wk by (simp add: walked_def)
  with Some have "leaf_entry 3 m root va = Some d" "d \<noteq> 0"
    using leaf_entry_page [OF wf Some] by simp_all
  with leaf_write [OF wf this(1), of "pte_set_present False (m d)"] m1 show ?thesis by simp
qed

lemma not_huge_unmap:
  assumes "same_shape 3 m m1 root" "look 3 m1 root = (\<lambda>va'. if same_path 3 va va' then None else look 3 m root va')"
    "not_huge m root va'"
  shows "not_huge m1 root va'"
  using assms by (auto simp: not_huge_def same_shape_def)

lemma same_shape_trans: "same_shape l m m1 t \<Longrightarrow> same_shape l m1 m2 t \<Longrightarrow> same_shape l m m2 t"
  by (simp add: same_shape_def)

lemma unmappages_loop_spec:
  assumes "span start n" "k \<le> n" "unat e = unat start + n * 4096 - 1" "n - k < fuel"
    and "wf_tree 3 (pt_mem s) root" "\<And>j. k \<le> j \<Longrightarrow> j < n \<Longrightarrow> not_huge (pt_mem s) root (page_at start j)"
  shows "\<exists>m'. unmappages_loop fuel root (page_at start k) e False s = Inr (s\<lparr>pt_mem := m'\<rparr>)
    \<and> same_shape 3 (pt_mem s) m' root
    \<and> look 3 m' root = (\<lambda>va. if in_pages start k n va then None else look 3 (pt_mem s) root va)"
  using assms(2,4-6)
proof (induction fuel arbitrary: k s)
  case (Suc fuel)
  let ?va = "page_at start k"
  have root: "root \<noteq> NULL" using wf_tree_root [OF Suc.prems(3)] by simp
  show ?case
  proof (cases "k < n")
    case False
    with Suc.prems(1) have "k = n" by simp
    then show ?thesis
      using page_at_less_end [OF assms(1) Suc.prems(1) assms(3)] Suc.prems(3)
      by (intro exI [of _ "pt_mem s"]) (simp add: same_shape_def)
  next
    case True
    then have less: "?va < e" using page_at_less_end [OF assms(1) Suc.prems(1) assms(3)] by simp
    obtain d where d: "walk_loop 3 root ?va False s = Inr (d, s)" "walked 3 (pt_mem s) root ?va d"
      using walk_no_alloc [OF Suc.prems(3)] by blast
    define m1 where "m1 = (if d = 0 then pt_mem s else (pt_mem s)(d := pte_set_present False (pt_mem s d)))"
    have "not_huge (pt_mem s) root ?va" using Suc.prems(4) True by simp
    with unmap_one [OF Suc.prems(3) d(2) _ m1_def]
    have m1: "same_shape 3 (pt_mem s) m1 root"
        "look 3 m1 root = (\<lambda>va. if same_path 3 ?va va then None else look 3 (pt_mem s) root va)"
      by blast+
    let ?s1 = "s\<lparr>pt_mem := m1\<rparr>"
    have step: "unmappages_loop (Suc fuel) root ?va e False s = unmappages_loop fuel root (page_at start (Suc k)) e False ?s1"
      using less root d(1) by (simp add: walk_def set_entry_def page_at_Suc m1_def)
    have "\<exists>m'. unmappages_loop fuel root (page_at start (Suc k)) e False ?s1 = Inr (?s1\<lparr>pt_mem := m'\<rparr>)
      \<and> same_shape 3 (pt_mem ?s1) m' root
      \<and> look 3 m' root = (\<lambda>va. if in_pages start (Suc k) n va then None else look 3 (pt_mem ?s1) root va)"
      using Suc.prems True m1 not_huge_unmap [OF m1]
      by (intro Suc.IH) (simp_all add: same_shape_def)
    then show ?thesis
      using step m1 same_shape_trans [OF m1(1)] by (auto simp: in_pages_Suc [OF True] fun_eq_iff)
  qed
qed simp

section \<open>Adding translations\<close>

text \<open>
  \<open>pt_ok s M F root\<close>: the allocator is consistent and the tree at \<open>root\<close> is well formed and uses no page
  that the allocator considers free.
\<close>

definition pt_ok :: "'a paging_state_scheme \<Rightarrow> u64 set \<Rightarrow> u64 set \<Rightarrow> ptr \<Rightarrow> bool" where
  "pt_ok s M F root \<longleftrightarrow>
     phys_pages s M F \<and> wf_tree 3 (pt_mem s) root \<and> tset 3 (pt_mem s) root \<inter> win ` F = {}"

text \<open>The translations after the first \<open>k\<close> pages were mapped on top of the translations \<open>L\<close>.\<close>

definition new_pte :: "u64 \<Rightarrow> u64 \<Rightarrow> nat \<Rightarrow> pte_t" where
  "new_pte pa x86_flags k = pte_set_present True (page_at pa k OR x86_flags)"

primrec mapped :: "u64 \<Rightarrow> u64 \<Rightarrow> u64 \<Rightarrow> (u64 \<Rightarrow> pte_t option) \<Rightarrow> nat \<Rightarrow> u64 \<Rightarrow> pte_t option" where
  "mapped start pa x86_flags L 0 = L"
| "mapped start pa x86_flags L (Suc k) =
     (\<lambda>va. if same_path 3 (page_at start k) va then Some (new_pte pa x86_flags k)
           else mapped start pa x86_flags L k va)"

lemma mapped_outside: "\<not> in_pages start 0 k va \<Longrightarrow> mapped start pa fl L k va = L va"
  by (induction k) (auto simp: in_pages_def less_Suc_eq)

lemma mapped_inside:
  assumes "span start n" "k \<le> n" "j < k"
  shows "mapped start pa fl L k (page_at start j) = Some (new_pte pa fl j)"
  using assms(2,3)
proof (induction k)
  case (Suc k)
  show ?case
  proof (cases "j = k")
    case False
    with Suc.prems have "\<not> same_path 3 (page_at start k) (page_at start j)"
      using page_at_distinct_path [OF assms(1), of k j] by auto
    with Suc False show ?thesis by simp
  qed simp
qed simp

text \<open>
  The loop of \<open>mappages\<close>: \<open>map_inv\<close> holds when the first \<open>k\<close> pages have been mapped on top of \<open>L\<close>, none of
  which was mapped in \<open>L\<close>; \<open>map_post\<close> is the outcome, all pages or none.
\<close>

definition map_inv ::
    "u64 \<Rightarrow> u64 \<Rightarrow> u64 \<Rightarrow> (u64 \<Rightarrow> pte_t option) \<Rightarrow> ptr \<Rightarrow> nat \<Rightarrow> (ptr \<Rightarrow> pte_t) \<Rightarrow> bool" where
  "map_inv start pa fl L root k m \<longleftrightarrow>
     look 3 m root = mapped start pa fl L k
     \<and> (\<forall>va. in_pages start 0 k va \<longrightarrow> L va = None)
     \<and> (\<forall>j < k. leaf_entry 3 m root (page_at start j) \<noteq> None)"

definition map_post ::
    "u64 \<Rightarrow> nat \<Rightarrow> u64 \<Rightarrow> u64 \<Rightarrow> (u64 \<Rightarrow> pte_t option) \<Rightarrow> ptr \<Rightarrow> u64 set \<Rightarrow> u64 set \<Rightarrow> nat \<Rightarrow> 'a paging_state_scheme \<Rightarrow>
     (int \<times> 'a paging_state_scheme) res \<Rightarrow> bool" where
  "map_post start n pa fl L root M F c s r \<longleftrightarrow>
     (\<exists>s' F'. vm_static s s' \<and> pt_ok s' M F' root \<and> F' \<subseteq> F \<and> card F \<le> card F' + c
       \<and> (r = Inr (0, s') \<and> look 3 (pt_mem s') root = mapped start pa fl L n
              \<and> (\<forall>va. in_pages start 0 n va \<longrightarrow> L va = None)
          \<or> r = Inr (- 1, s') \<and> look 3 (pt_mem s') root = L \<and> (F' = {} \<or> (\<exists>j < n. L (page_at start j) \<noteq> None))))"

lemma map_post_static:
  assumes "vm_static s s2" "F2 \<subseteq> F" "card F \<le> card F2 + 3" "map_post start n pa fl L root M F2 c s2 r"
  shows "map_post start n pa fl L root M F (3 + c) s r"
proof -
  obtain s' F' where *: "vm_static s2 s'" "pt_ok s' M F' root" "F' \<subseteq> F2" "card F2 \<le> card F' + c"
      "r = Inr (0, s') \<and> look 3 (pt_mem s') root = mapped start pa fl L n \<and> (\<forall>va. in_pages start 0 n va \<longrightarrow> L va = None)
        \<or> r = Inr (- 1, s') \<and> look 3 (pt_mem s') root = L \<and> (F' = {} \<or> (\<exists>j < n. L (page_at start j) \<noteq> None))"
    using assms(4) unfolding map_post_def by blast
  moreover have "card F \<le> card F' + (3 + c)" using assms(3) *(4) by linarith
  ultimately show ?thesis unfolding map_post_def using assms(2) vm_static_trans [OF assms(1)]
    by (intro exI [of _ s'] exI [of _ F']) blast
qed

lemma PAGE_END_before:
  assumes "page_aligned p" "0 < unat p"
  shows "unat (PAGE_END (p - 1) 0x1000) = unat p - 1"
proof -
  obtain k where k: "unat p = 4096 * k" using assms(1) by (rule page_alignedE)
  have "p \<noteq> 0" using assms(2) by auto
  then have "unat (p - 1) = 4096 * k - 1" using k by (simp add: unat_minus_one)
  moreover have "(4096 * k - 1) div 4096 * 4096 + 4095 = 4096 * k - 1" using assms(2) k
    by (cases k) auto
  ultimately show ?thesis by (simp only: unat_PAGE_END_4K k)
qed

lemma page_aligned_page_at: "span start n \<Longrightarrow> k \<le> n \<Longrightarrow> page_aligned (page_at start k) \<and> 0 < unat (page_at start k)"
  using unat_page_at [of start n k] by (auto simp: span_def page_aligned_def)

lemma unmap_prefix:
  assumes sp: "span start n" "k \<le> n" and va: "PAGE_START va 0x1000 = start"
    and ok: "pt_ok s M F root" and inv: "map_inv start pa fl L root k (pt_mem s)"
  shows "\<exists>m'. unmappages root va (page_at start k - va) False s = Inr (0, s\<lparr>pt_mem := m'\<rparr>)
    \<and> pt_ok (s\<lparr>pt_mem := m'\<rparr>) M F root \<and> look 3 m' root = L"
proof -
  let ?e = "PAGE_END (page_at start k - 1) 0x1000"
  have spk: "span start k" using sp mult_le_mono1 [of k n 4096] unfolding span_def by linarith
  have "unat ?e = unat start + k * 4096 - 1"
    using PAGE_END_before page_aligned_page_at [OF sp] unat_page_at [OF sp] by simp
  moreover have "not_huge (pt_mem s) root (page_at start j)" if "j < k" for j
    using inv that by (simp add: map_inv_def not_huge_def)
  moreover have "k < MAX_PAGES" using sp by (simp add: span_def MAX_PAGES_def)
  ultimately obtain m' where m': "unmappages_loop MAX_PAGES root start ?e False s = Inr (s\<lparr>pt_mem := m'\<rparr>)"
      "same_shape 3 (pt_mem s) m' root"
      "look 3 m' root = (\<lambda>va. if in_pages start 0 k va then None else look 3 (pt_mem s) root va)"
    using unmappages_loop_spec [OF spk, of 0 ?e MAX_PAGES s root] ok by (auto simp: pt_ok_def)
  have "look 3 m' root = L"
  proof
    fix va
    show "look 3 m' root va = L va"
      using inv mapped_outside [of start k va] by (auto simp: m'(3) map_inv_def)
  qed
  moreover have "unmappages root va (page_at start k - va) False s = Inr (0, s\<lparr>pt_mem := m'\<rparr>)"
    using m'(1) va by (simp add: unmappages_def)
  ultimately show ?thesis using ok m'(2) by (auto simp: pt_ok_def same_shape_def)
qed

lemma in_pages_0_Suc: "in_pages start 0 (Suc k) va \<longleftrightarrow> same_path 3 (page_at start k) va \<or> in_pages start 0 k va"
  by (auto simp: in_pages_def less_Suc_eq)

lemma map_inv_step:
  assumes sp: "span start n" "k < n" and wf: "wf_tree 3 m root" and inv: "map_inv start pa fl L root k m"
    and leaf: "leaf_entry 3 m root (page_at start k) = Some d" and np: "\<not> pte_present (m d)"
  shows "map_inv start pa fl L root (Suc k) (m(d := new_pte pa fl k))
    \<and> same_shape 3 m (m(d := new_pte pa fl k)) root"
proof -
  let ?m' = "m(d := new_pte pa fl k)"
  have w: "same_shape 3 m ?m' root" "look 3 ?m' root = (\<lambda>va. if same_path 3 (page_at start k) va
      then Some (new_pte pa fl k) else look 3 m root va)"
    using leaf_write [OF wf leaf, of "new_pte pa fl k"] by (simp_all add: new_pte_def)
  have "L va = None" if "same_path 3 (page_at start k) va" for va
  proof -
    have "look 3 m root va = None"
      using look_leaf [OF leaf] np look_same_path [OF that, of m root] by simp
    moreover have "\<not> in_pages start 0 k va"
    proof
      assume "in_pages start 0 k va"
      then obtain j where "j < k" "same_path 3 (page_at start j) va" by (auto simp: in_pages_def)
      moreover from this(2) that have "same_path 3 (page_at start j) (page_at start k)"
        by (simp add: same_path_def)
      ultimately show False using page_at_distinct_path [OF sp(1), of j k] sp(2) by simp
    qed
    ultimately show ?thesis using inv mapped_outside [of start k va pa fl L] by (simp add: map_inv_def)
  qed
  moreover have "leaf_entry 3 ?m' root = leaf_entry 3 m root" using w(1) by (simp add: same_shape_def)
  ultimately show ?thesis
    using inv w leaf by (simp add: map_inv_def in_pages_0_Suc less_Suc_eq) auto
qed

lemma map_blocked:
  assumes sp: "span start n" "k < n" and inv: "map_inv start pa fl L root k m"
    and "walked 3 m root (page_at start k) d" "d = 0 \<or> pte_present (m d)"
  shows "d = 0 \<or> L (page_at start k) \<noteq> None"
proof (cases "d = 0")
  case False
  then have "look 3 m root (page_at start k) \<noteq> None"
    using assms(4,5) look_leaf by (fastforce simp: walked_def split: option.splits)
  moreover have "\<not> in_pages start 0 k (page_at start k)"
    using page_at_distinct_path [OF sp(1), of _ k] sp(2) 
    unfolding in_pages_def by (metis less_trans nat_neq_iff)
  ultimately show ?thesis using inv mapped_outside [of start k] by (simp add: map_inv_def)
qed simp

lemma mappages_loop_spec:
  assumes sp: "span start n" and va: "PAGE_START va 0x1000 = start"
    and e: "unat e = unat start + n * 4096 - 1"
    and "k \<le> n" "n - k < fuel" "pt_ok s M F root" "map_inv start pa fl L root k (pt_mem s)"
  shows "map_post start n pa fl L root M F (3 * (n - k)) s
    (mappages_loop fuel root va (page_at start k) (page_at pa k) e fl s)"
  using assms(4-)
proof (induction fuel arbitrary: k s F)
  case (Suc fuel)
  have less: "page_at start k < e \<longleftrightarrow> k < n" by (rule page_at_less_end [OF sp Suc.prems(1) e])
  show ?case
  proof (cases "k < n")
    case False
    with Suc.prems(1) have "k = n" by simp
    with less Suc.prems(3,4) show ?thesis
      unfolding map_post_def by (intro exI [of _ s] exI [of _ F]) (simp add: map_inv_def)
  next
    case True
    let ?va = "page_at start k"
    have ok: "phys_pages s M F" "wf_tree 3 (pt_mem s) root" "tset 3 (pt_mem s) root \<inter> win ` F = {}"
      using Suc.prems(3) by (simp_all add: pt_ok_def)
    have root: "root \<noteq> NULL" using wf_tree_root [OF ok(2)] by simp
    obtain d s1 F1 where w: "walk_loop 3 root ?va True s = Inr (d, s1)" "phys_pages s1 M F1" "F1 \<subseteq> F"
        "vm_static s s1" "ext 3 (pt_mem s) (pt_mem s1) root (win ` (F - F1))" "walked 3 (pt_mem s1) root ?va d"
        "d = 0 \<longrightarrow> F1 = {}" "card F \<le> card F1 + 3"
      using walk_alloc [OF ok, of ?va] by (auto simp: walk_post_def)
    have ok1: "pt_ok s1 M F1 root"
    proof -
      have "win ` (F - F1) \<inter> win ` F1 = {}" by (auto simp: win_inj)
      moreover have "win ` F1 \<subseteq> win ` F" using w(3) by blast
      moreover have "tset 3 (pt_mem s1) root \<subseteq> tset 3 (pt_mem s) root \<union> win ` (F - F1)" "wf_tree 3 (pt_mem s1) root"
        using w(5) by (simp_all only: ext_def)
      ultimately show ?thesis using w(2) ok(3) unfolding pt_ok_def by blast
    qed
    have inv1: "map_inv start pa fl L root k (pt_mem s1)"
      using Suc.prems(4) w(5) by (simp add: map_inv_def ext_def)
    show ?thesis
    proof (cases "d = 0 \<or> pte_present (pt_mem s1 d)")
      case fail: True
      obtain m' where "unmappages root va (?va - va) False s1 = Inr (0, s1\<lparr>pt_mem := m'\<rparr>)"
          "pt_ok (s1\<lparr>pt_mem := m'\<rparr>) M F1 root" "look 3 m' root = L"
        using unmap_prefix [OF sp Suc.prems(1) va ok1 inv1] by blast
      moreover have "F1 = {} \<or> (\<exists>j < n. L (page_at start j) \<noteq> None)"
        using map_blocked [OF sp True inv1 w(6) fail] w(7) True by blast
      moreover have "mappages_loop (Suc fuel) root va ?va (page_at pa k) e fl s =
          bind_res (unmappages root va (?va - va) False s1) (\<lambda>(_, s). Inr (- 1, s))"
        using True less root w(1) fail by (simp add: walk_def)
      ultimately show ?thesis
        unfolding map_post_def using w(3,4,8) True
        by (intro exI [of _ "s1\<lparr>pt_mem := m'\<rparr>"] exI [of _ F1]) simp
    next
      case False
      then have leaf: "leaf_entry 3 (pt_mem s1) root ?va = Some d"
        using w(6) look_present by (fastforce simp: walked_def split: option.splits)
      define m2 where "m2 = (pt_mem s1)(d := new_pte pa fl k)"
      have m2: "map_inv start pa fl L root (Suc k) m2" "same_shape 3 (pt_mem s1) m2 root"
        unfolding m2_def using map_inv_step [OF sp True _ inv1 leaf] ok1 False by (auto simp: pt_ok_def)
      let ?s2 = "s1\<lparr>pt_mem := m2\<rparr>"
      have "pt_ok ?s2 M F1 root" using ok1 m2(2) by (simp add: pt_ok_def same_shape_def)
      then have "map_post start n pa fl L root M F1 (3 * (n - Suc k)) ?s2
          (mappages_loop fuel root va (page_at start (Suc k)) (page_at pa (Suc k)) e fl ?s2)"
        using True Suc.prems(2) m2(1) by (intro Suc.IH) simp_all
      moreover have "mappages_loop (Suc fuel) root va ?va (page_at pa k) e fl s =
          mappages_loop fuel root va (page_at start (Suc k)) (page_at pa (Suc k)) e fl ?s2"
        using True less root w(1) False by (simp add: walk_def set_entry_def page_at_Suc new_pte_def m2_def)
      moreover have "vm_static s ?s2" using w(4) by simp
      moreover have "3 + 3 * (n - Suc k) = 3 * (n - k)" using True by simp
      ultimately show ?thesis using map_post_static [OF _ w(3,8)] by metis
    qed
  qed
qed simp

section \<open>The properties of the mapping functions\<close>

text \<open>The number of pages that the bytes \<open>va\<close> to \<open>va + sz - 1\<close> touch.\<close>

definition page_span :: "u64 \<Rightarrow> u64 \<Rightarrow> nat" where
  "page_span va sz = (unat va + unat sz - 1) div 4096 - unat va div 4096 + 1"

lemma page_span_end:
  assumes "0 < unat sz" "unat va + unat sz \<le> 2 ^ 64"
  shows "unat (PAGE_END (va + sz - 1) 0x1000) = unat (PAGE_START va 0x1000) + page_span va sz * 4096 - 1"
proof -
  have "sz \<noteq> 0" using assms(1) by auto
  then have "unat (sz - 1) = unat sz - 1" by (simp add: unat_minus_one)
  then have "unat (va + (sz - 1)) = unat va + unat sz - 1"
    using assms by (simp add: unat_word_ariths)
  moreover have "va + sz - 1 = va + (sz - 1)" by simp
  moreover have "unat va div 4096 \<le> (unat va + unat sz - 1) div 4096"
    using assms(1) by (intro div_le_mono) simp
  ultimately show ?thesis
    by (simp only: unat_PAGE_END_4K unat_PAGE_START_4K page_span_def)
      (simp add: algebra_simps)
qed

lemma mappages_spec:
  fixes va sz pa :: u64
  defines "start \<equiv> PAGE_START va PAGE_SIZE" and "n \<equiv> page_span va sz"
  assumes "pt_ok s M F root" "0 < unat sz" "unat va + unat sz \<le> 2 ^ 64" "span start n"
  shows "\<exists>s' F'. vm_static s s' \<and> pt_ok s' M F' root \<and> F' \<subseteq> F \<and> card F \<le> card F' + 3 * n
    \<and> (mappages root va sz pa flags s = Inr (0, s')
        \<and> (\<forall>j < n. look 3 (pt_mem s) root (page_at start j) = None
              \<and> look 3 (pt_mem s') root (page_at start j) =
                  Some (new_pte (PAGE_START pa PAGE_SIZE) (vmflag_to_x86flag (nx_flag_enabled s) (ucast flags)) j))
        \<and> (\<forall>a. \<not> in_pages start 0 n a \<longrightarrow> look 3 (pt_mem s') root a = look 3 (pt_mem s) root a)
      \<or> mappages root va sz pa flags s = Inr (- 1, s') \<and> look 3 (pt_mem s') root = look 3 (pt_mem s) root
        \<and> (F' = {} \<or> (\<exists>j < n. look 3 (pt_mem s) root (page_at start j) \<noteq> None)))"
proof -
  let ?fl = "vmflag_to_x86flag (nx_flag_enabled s) (ucast flags)" and ?L = "look 3 (pt_mem s) root"
  have "n < MAX_PAGES" using assms(6) by (simp add: span_def MAX_PAGES_def)
  moreover have "map_inv start (PAGE_START pa 0x1000) ?fl ?L root 0 (pt_mem s)"
    by (simp add: map_inv_def)
  ultimately have "map_post start n (PAGE_START pa 0x1000) ?fl ?L root M F (3 * n) s (mappages root va sz pa flags s)"
    using mappages_loop_spec [OF assms(6) _ _ _ _ assms(3), of va _ 0 MAX_PAGES] page_span_end [OF assms(4,5)]
    by (simp add: mappages_def start_def n_def)
  then obtain s' F' where *: "vm_static s s'" "pt_ok s' M F' root" "F' \<subseteq> F" "card F \<le> card F' + 3 * n"
      "mappages root va sz pa flags s = Inr (0, s')
        \<and> look 3 (pt_mem s') root = mapped start (PAGE_START pa 0x1000) ?fl ?L n
        \<and> (\<forall>va. in_pages start 0 n va \<longrightarrow> ?L va = None)
      \<or> mappages root va sz pa flags s = Inr (- 1, s') \<and> look 3 (pt_mem s') root = ?L \<and> (F' = {} \<or> (\<exists>j < n. ?L (page_at start j) \<noteq> None))"
    unfolding map_post_def by blast
  have "in_pages start 0 n (page_at start j)" if "j < n" for j
    using that by (auto simp: in_pages_def)
  then show ?thesis
    using * mapped_inside [OF assms(6) order_refl] mapped_outside [of start n]
    by (intro exI [of _ s'] exI [of _ F']) auto
qed



text \<open>A root table with no entries, and an allocator with 255 free pages.\<close>

lemma phys_pages_example:
  "\<exists>(s :: 'a phys_state_scheme) M F. phys_pages s M F \<and> card F = 255 \<and> phys_state.more s = x"
proof -
  obtain s :: "'a phys_state_scheme" where s: "phys_inv s 256 [1..<256]" "phys_state.more s = x"
    using phys_inv_example [where x = x] by (elim exE conjE)
  define M F where "M = page_pa s ` {..<256}" and "F = page_pa s ` set [1..<256]"
  have "phys_pages s M F" unfolding phys_pages_def using s(1) M_def F_def by blast
  moreover have "card F = 255"
  proof -
    have "inj_on (page_pa s) (set [1..<256])"
      using page_pa_inj [OF phys_inv_wf [OF s(1)]] by (auto simp: inj_on_def)
    then have "card F = card (set [1..<256])" unfolding F_def by (rule card_image)
    then show ?thesis by simp
  qed
  ultimately show ?thesis using s(2) by blast
qed

lemma look_empty: "pt_mem s = (\<lambda>_. 0) \<Longrightarrow> look 3 (pt_mem s) 0xFFFFFFFF80200000 a = None"
  using fresh_table [of "0xFFFFFFFF80200000" "pt_mem s" 3 a] by (simp add: page_aligned_def)

lemma pt_ok_fresh:
  assumes P: "phys_pages s M F" and m: "pt_mem s = (\<lambda>_. 0)"
  shows "pt_ok s M F 0xFFFFFFFF80200000"
proof -
  let ?root = "0xFFFFFFFF80200000 :: ptr"
  have tree: "wf_tree 3 (pt_mem s) ?root" "tset 3 (pt_mem s) ?root = {?root}"
    using fresh_table [of ?root "pt_mem s" 3 0] by (simp_all add: m page_aligned_def)
  have "?root \<noteq> win p" if "p \<in> M" for p
  proof -
    have "p < 0x8000000000" using phys.managed [OF P that] by simp
    then have "unat (win p) < 0xFFFFFF0000000000" by (simp add: win_def unat_word_ariths word_less_nat_alt)
    moreover have "unat ?root = 0xFFFFFFFF80200000" by simp
    ultimately show ?thesis by auto
  qed
  then have "tset 3 (pt_mem s) ?root \<inter> win ` F = {}" using phys.free_managed [OF P] tree(2) by auto
  then show ?thesis using P tree(1) unfolding pt_ok_def by blast
qed

lemma pt_ok_example:
  "\<exists>(s :: paging_state) M F. pt_ok s M F 0xFFFFFFFF80200000 \<and> pt_mem s = (\<lambda>_. 0) \<and> nx_flag_enabled s \<and> card F = 255"
proof -
  define x where "x = \<lparr>pt_mem = (\<lambda>_. 0 :: pte_t), nx_flag_enabled = True, kernel_pml4 = 0xFFFFFFFF80200000 :: ptr\<rparr>"
  obtain s :: paging_state and M F where s: "phys_pages s M F" "card F = 255" "phys_state.more s = x"
    using phys_pages_example [where x = x] by (elim exE conjE)
  have "pt_mem s = (\<lambda>_. 0)" "nx_flag_enabled s" using s(3) by (cases s; simp add: x_def)+
  with pt_ok_fresh [OF s(1)] s(2) show ?thesis by blast
qed

lemma example_span:
  "PAGE_START 0x400800 0x1000 = 0x400000" "page_span 0x400800 0x1000 = 2" "span 0x400000 2"
  by (simp_all add: PAGE_START_def page_span_def span_def page_aligned_def)



text \<open>
  C17: the entries \<open>mappages\<close> writes mean what was asked for: the entry for the \<open>k\<close>th page is present and
  refers to the \<open>k\<close>th physical page, it is writable, and user accessible, exactly if the flags say so,
  and it is execute-disabled exactly if the processor supports that and the flags do not allow execution.
\<close>

theorem new_pte_meaning:
  fixes flags :: u8 and nx :: bool and pa :: u64 and k :: nat
  assumes "page_aligned pa" "unat pa + k * 4096 < 2 ^ 51"
  defines "e \<equiv> new_pte pa (vmflag_to_x86flag nx (ucast flags)) k"
  shows "pte_present e \<and> push_bit 12 (pte_addr e) = page_at pa k
    \<and> pte_writable e = bit flags 0 \<and> pte_user_page e = bit flags 1 \<and> pte_xd e = (nx \<and> \<not> bit flags 2)"
proof -
  let ?x = "vmflag_to_x86flag nx (ucast flags)"
  have ex: "(ucast flags :: u64) AND 4 = 0 \<longleftrightarrow> \<not> bit flags 2"
    using and_exp_eq_0_iff_not_bit [of "ucast flags :: u64" 2] by (simp add: bit_simps)
  have "?x = (if nx \<and> \<not> bit flags 2 then push_bit 63 1 else 0) OR push_bit 1 (take_bit 2 (ucast flags))"
    using ex by (simp add: vmflag_to_x86flag_def Let_def take_bit_eq_mask mask_eq_exp_minus_1)
  moreover have "bit (push_bit 63 (1::u64)) n \<longleftrightarrow> n = 63" if "n < 64" for n
    using that by (simp only: bit_push_bit_iff bit_1_iff) auto
  moreover have "bit (push_bit 1 (take_bit 2 (ucast flags :: u64))) n \<longleftrightarrow> (n = 1 \<or> n = 2) \<and> bit flags (n - 1)" if "n < 64" for n
    using that by (simp only: bit_push_bit_iff bit_take_bit_iff bit_unsigned_iff) auto
  ultimately have x: "bit ?x n \<longleftrightarrow> n = 63 \<and> nx \<and> \<not> bit flags 2 \<or> (n = 1 \<or> n = 2) \<and> bit flags (n - 1)"
    if "n < 64" for n
    using that by (simp only: bit_or_iff if_distrib [of "\<lambda>x. bit x n"] bit_0_eq bot_apply) auto
  have u: "unat (page_at pa k) = unat pa + k * 4096"
  proof -
    have "unat (of_nat k * 0x1000 :: u64) = k * 4096" using assms(2) by (simp add: unat_word_ariths)
    then show ?thesis using assms(2) by (simp add: page_at_def unat_word_ariths)
  qed
  have hi: "\<not> bit (page_at pa k) n" if "51 \<le> n" for n
    using not_bit_if_unat_less [of "page_at pa k" 51 n] u assms(2) that by simp
  have "page_aligned (page_at pa k)" using u assms(1) by (auto simp: page_aligned_def)
  then have lo: "\<not> bit (page_at pa k) n" if "n < 12" for n
    using not_bit_page_aligned that by blast
  have "push_bit 12 (pte_addr e) = page_at pa k"
  proof (rule bit_word_eqI)
    fix n
    assume "n < LENGTH(64)"
    then show "bit (push_bit 12 (pte_addr e)) n = bit (page_at pa k) n"
      using lo [of n] hi [of n] x [of n]
      by (cases "n < 12"; cases "n < 51") (auto simp: e_def new_pte_def pte_addr_def pte_set_defs bit_simps)
  qed
  then show ?thesis
    using x [of 1] x [of 2] x [of 63] lo [of 1] lo [of 2] hi [of 63]
    by (simp add: e_def new_pte_def pte_get_defs(1,2,3,5) pte_set_defs bit_or_iff)
qed

theorem new_pte_meaning_witness:
  "pte_present (new_pte 0x300000 (vmflag_to_x86flag True 1) 2)
    \<and> push_bit 12 (pte_addr (new_pte 0x300000 (vmflag_to_x86flag True 1) 2)) = page_at 0x300000 2
    \<and> pte_writable (new_pte 0x300000 (vmflag_to_x86flag True 1) 2)"
  using new_pte_meaning [of "0x300000" 2 True 1] by (simp add: page_aligned_def)

end
