(* ===== verification/Vmm.thy ===== *)
theory Vmm
  imports Page_Mapping
begin

text \<open>
  \<open>kernel/memory/vmm.c\<close>: the areas of a virtual address space. The areas of one \<open>vmm_info_t\<close> form a doubly
  linked list ordered by address; the area objects are carved out of pages, the containers, of
  102 areas each. Areas, containers and \<open>vmm_info_t\<close> objects are maps from their addresses.
  \<open>vmm_create\<close> and \<open>vmm_destroy\<close>, which use the kernel heap, are in \<open>Vmm_Lifecycle\<close>.
\<close>

section \<open>State\<close>

record memory_area =
  area_start :: u64
  area_size :: u64
  area_flags :: u8
  area_is_mmio :: u8
  area_next :: ptr
  area_prev :: ptr

record vmm_info =
  root_pagetable :: ptr
  user_vmm :: bool
  vmm_start :: u64
  vmm_data_start :: u64
  vmm_data_end :: u64
  current_index :: u64
  root_container :: ptr
  current_container :: ptr
  current_addr :: u64
  first_area :: ptr
  current_area :: ptr
  vmm_lock :: ptr

text \<open>
  \<open>kernel_vmm\<close> and \<open>kernel_vmm_lock\<close> are the addresses of these objects, \<open>cr3\<close> is the page-table register
  of the running CPU.
\<close>

record vmm_state = paging_state +
  areas :: "ptr \<Rightarrow> memory_area"
  container_next :: "ptr \<Rightarrow> ptr"
  vmms :: "ptr \<Rightarrow> vmm_info"
  kernel_vmm :: ptr
  kernel_vmm_lock :: ptr
  cr3 :: u64

definition ITEM_PER_CONTAINER :: u64 where [simp]: "ITEM_PER_CONTAINER = PAGE_SIZE div 40"

definition set_vmm :: "ptr \<Rightarrow> (vmm_info \<Rightarrow> vmm_info) \<Rightarrow> 'a vmm_state_scheme \<Rightarrow> 'a vmm_state_scheme" where
  "set_vmm v f s = s\<lparr>vmms := (vmms s)(v := f (vmms s v))\<rparr>"

definition set_area :: "ptr \<Rightarrow> (memory_area \<Rightarrow> memory_area) \<Rightarrow> 'a vmm_state_scheme \<Rightarrow> 'a vmm_state_scheme" where
  "set_area a f s = s\<lparr>areas := (areas s)(a := f (areas s a))\<rparr>"

text \<open>The address of item \<open>i\<close> of a container; a \<open>memory_area_t\<close> takes 40 bytes.\<close>

definition container_item :: "ptr \<Rightarrow> u64 \<Rightarrow> ptr" where
  "container_item c i = c + 40 * i"

text \<open>
  Loops along a chain of pointers are given \<open>2 ^ 64\<close> turns: a chain that is longer than that visits an
  address twice, and as these loops do not change the chain, it never ends.
\<close>

definition CHAIN_BOUND :: nat where "CHAIN_BOUND = 2 ^ 64"

section \<open>Operations\<close>

definition vmm_init ::
    "ptr \<Rightarrow> ptr \<Rightarrow> u64 \<Rightarrow> u64 \<Rightarrow> bool \<Rightarrow> ptr \<Rightarrow> 'a vmm_state_scheme \<Rightarrow> 'a vmm_state_scheme" where
  "vmm_init vmm pagetable start end user lock s =
     (let st = PAGE_START start PAGE_SIZE;
          st = (if st = 0 then st + PAGE_SIZE else st)
      in set_vmm vmm (\<lambda>_. \<lparr>root_pagetable = pagetable, user_vmm = user, vmm_start = st, vmm_data_start = st,
           vmm_data_end = PAGE_END end PAGE_SIZE + 1, current_index = 0, root_container = NULL,
           current_container = NULL, current_addr = 0, first_area = NULL, current_area = NULL,
           vmm_lock = (if vmm \<noteq> kernel_vmm s then lock else kernel_vmm_lock s)\<rparr>) s)"

primrec find_area :: "nat \<Rightarrow> ptr \<Rightarrow> u64 \<Rightarrow> 'a vmm_state_scheme \<Rightarrow> ptr res" where
  "find_area 0 cur va s = Inl Diverges"
| "find_area (Suc fuel) cur va s =
     (if cur = NULL then Inr NULL
      else let a = areas s cur
           in if area_start a \<le> va \<and> va < area_start a + area_size a then Inr cur
              else find_area fuel (area_next a) va s)"

definition get_memory_area :: "ptr \<Rightarrow> u64 \<Rightarrow> 'a vmm_state_scheme \<Rightarrow> ptr res" where
  "get_memory_area vmm va s =
     (if vmm = NULL then Inr NULL
      else if va > current_addr (vmms s vmm) then Inr NULL
      else find_area CHAIN_BOUND (first_area (vmms s vmm)) va s)"

text \<open>
  The search for a gap: \<open>Some (found, prev, cur)\<close> when the loop is left by its \<open>break\<close>, \<open>None\<close> when it runs
  to the end of the list.
\<close>

primrec gap_loop ::
    "nat \<Rightarrow> ptr \<Rightarrow> u64 \<Rightarrow> u64 \<Rightarrow> ptr \<Rightarrow> ptr \<Rightarrow> 'a vmm_state_scheme \<Rightarrow> (u64 \<times> ptr \<times> ptr) option res" where
  "gap_loop 0 vmm base len prev cur s = Inl Diverges"
| "gap_loop (Suc fuel) vmm base len prev cur s =
     (if cur = NULL then Inr None
      else let a = areas s cur
           in if area_start a + area_size a - 1 < base then gap_loop fuel vmm base len cur (area_next a) s
              else let low_bound = (if prev = NULL then vmm_data_start (vmms s vmm)
                     else PAGE_END (area_start (areas s prev) + area_size (areas s prev) - 1) SMALL_PAGE_SIZE + 1);
                       high_bound = area_start a
                   in if low_bound + len < high_bound then Inr (Some (low_bound, prev, cur))
                      else gap_loop fuel vmm base len cur (area_next a) s)"

text \<open>The container that takes the next area; a page for a new one comes from \<open>kalloc\<close>, unchecked.\<close>

definition vmm_container :: "ptr \<Rightarrow> 'a vmm_state_scheme \<Rightarrow> 'a vmm_state_scheme res" where
  "vmm_container vmm s =
     (if current_index (vmms s vmm) = ITEM_PER_CONTAINER \<or> root_container (vmms s vmm) = NULL
      then bind_res (kalloc s) (\<lambda>(phy_addr, s).
           let new_container = phy_addr + PHYSICAL_OFFSET; cc = current_container (vmms s vmm);
               s = (if cc \<noteq> NULL then s\<lparr>container_next := (container_next s)(cc := new_container)\<rparr>
                    else set_vmm vmm (\<lambda>v. v\<lparr>root_container := new_container\<rparr>) s)
           in Inr (set_vmm vmm (\<lambda>v. v\<lparr>current_container := new_container, current_index := 0\<rparr>) s))
      else Inr s)"

text \<open>\<open>vmm_insert_area\<close> is the end of \<open>vmm_alloc_at\<close>, which fills in the new area and links it.\<close>

definition vmm_insert_area ::
    "ptr \<Rightarrow> u64 \<Rightarrow> u64 \<Rightarrow> u8 \<Rightarrow> ptr \<Rightarrow> ptr \<Rightarrow> 'a vmm_state_scheme \<Rightarrow> ptr \<times> 'a vmm_state_scheme" where
  "vmm_insert_area vmm found len flags prev cur s =
     (let new = container_item (current_container (vmms s vmm)) (current_index (vmms s vmm));
          s = set_vmm vmm (\<lambda>v. v\<lparr>current_index := current_index v + 1\<rparr>) s;
          s = set_area new (\<lambda>a. a\<lparr>area_start := found, area_size := len + 1,
                area_flags := (if user_vmm (vmms s vmm) then flags OR MEMORY_FLAG_USER else flags),
                area_next := cur\<rparr>) s;
          s = (if cur \<noteq> NULL then set_area cur (\<lambda>a. a\<lparr>area_prev := new\<rparr>) s else s);
          s = set_area new (\<lambda>a. a\<lparr>area_prev := prev\<rparr>) s;
          s = (if prev \<noteq> NULL then set_area prev (\<lambda>a. a\<lparr>area_next := new\<rparr>) s
               else set_vmm vmm (\<lambda>v. v\<lparr>first_area := new\<rparr>) s);
          s = (if prev = current_area (vmms s vmm)
               then set_vmm vmm (\<lambda>v. v\<lparr>current_area := new,
                      current_addr := area_start (areas s new) + area_size (areas s new) - 1\<rparr>) s
               else s)
      in (new, s))"

definition vmm_alloc_at ::
    "u64 \<Rightarrow> ptr \<Rightarrow> u64 \<Rightarrow> u8 \<Rightarrow> 'a vmm_state_scheme \<Rightarrow> (ptr \<times> 'a vmm_state_scheme) res" where
  "vmm_alloc_at base vmm sz flags s =
     (if vmm = NULL then Inl NullDeref
      else let len = PAGE_END (sz - 1) SMALL_PAGE_SIZE;
               high_bound = vmm_data_end (vmms s vmm)
      in bind_res (acquire (vmm_lock (vmms s vmm)) s) (\<lambda>s.
      let cur = current_area (vmms s vmm);
          low_bound = (if cur = NULL then vmm_data_start (vmms s vmm)
                       else PAGE_END (current_addr (vmms s vmm)) PAGE_SIZE + 1);
          base = PAGE_START base PAGE_SIZE;
          found = (if low_bound < base then base else low_bound)
      in bind_res
           (if found + len > high_bound
            then bind_res (gap_loop CHAIN_BOUND vmm base len NULL (first_area (vmms s vmm)) s)
                   (\<lambda>_. Inr (0, NULL, NULL))
            else Inr (found, cur, NULL)) (\<lambda>(found, prev, cur).
         if found = 0 then bind_res (release (vmm_lock (vmms s vmm)) s) (\<lambda>s. Inr (NULL, s))
         else bind_res (vmm_container vmm s) (\<lambda>s.
              let (new, s) = vmm_insert_area vmm found len flags prev cur s
              in bind_res (release (vmm_lock (vmms s vmm)) s) (\<lambda>s. Inr (new, s))))))"

definition vmm_alloc :: "ptr \<Rightarrow> u64 \<Rightarrow> u8 \<Rightarrow> 'a vmm_state_scheme \<Rightarrow> (ptr \<times> 'a vmm_state_scheme) res" where
  "vmm_alloc vmm sz flags s = vmm_alloc_at 0 vmm sz flags s"

primrec find_container :: "nat \<Rightarrow> ptr \<Rightarrow> ptr \<Rightarrow> 'a vmm_state_scheme \<Rightarrow> ptr res" where
  "find_container 0 cur area s = Inl Diverges"
| "find_container (Suc fuel) cur area s =
     (if cur = NULL then Inr NULL
      else if container_item cur 0 \<le> area \<and> area \<le> container_item cur (ITEM_PER_CONTAINER - 1) then Inr cur
      else find_container fuel (container_next s cur) area s)"

definition vmm_free_area :: "ptr \<Rightarrow> ptr \<Rightarrow> 'a vmm_state_scheme \<Rightarrow> (int \<times> 'a vmm_state_scheme) res" where
  "vmm_free_area vmm area s =
     (if area = NULL then Inr (- 1, s)
      else if vmm = NULL then Inl NullDeref
      else bind_res (find_container CHAIN_BOUND (root_container (vmms s vmm)) area s) (\<lambda>cur.
      if cur = NULL then Inr (- 1, s)
      else
        let a = areas s area;
            s = (if area_prev a \<noteq> NULL then set_area (area_prev a) (\<lambda>p. p\<lparr>area_next := area_next a\<rparr>) s
                 else set_vmm vmm (\<lambda>v. v\<lparr>first_area := area_next a\<rparr>) s);
            a = areas s area;
            s = (if area_next a \<noteq> NULL then set_area (area_next a) (\<lambda>n. n\<lparr>area_prev := area_prev a\<rparr>) s
                 else set_vmm vmm (\<lambda>v. v\<lparr>current_area := area_prev a\<rparr>) s);
            a = areas s area
        in bind_res (unmappages (root_pagetable (vmms s vmm)) (area_start a) (area_size a) (area_is_mmio a = 0) s)
             (\<lambda>(_, s). Inr (0, s))))"

definition change_current_vmm :: "ptr \<Rightarrow> 'a vmm_state_scheme \<Rightarrow> 'a vmm_state_scheme res" where
  "change_current_vmm vmm s =
     (let (cpu, s) = get_cpu s;
          s = update_cpu cpu (\<lambda>c. c\<lparr>cpu_vmm := vmm\<rparr>) s
      in if vmm \<noteq> kernel_vmm s
         then if vmm = NULL then Inl NullDeref
              else Inr (s\<lparr>cr3 := root_pagetable (vmms s vmm) - PHYSICAL_OFFSET\<rparr>)
         else Inr s)"

definition get_current_vmm :: "'a vmm_state_scheme \<Rightarrow> ptr \<times> 'a vmm_state_scheme" where
  "get_current_vmm s =
     (let (cpu, s) = get_cpu s
      in (if cpu_vmm (cpu_status_of s cpu) \<noteq> NULL then cpu_vmm (cpu_status_of s cpu) else kernel_vmm s, s))"

definition get_relevant_vmm :: "u64 \<Rightarrow> 'a vmm_state_scheme \<Rightarrow> ptr \<times> 'a vmm_state_scheme" where
  "get_relevant_vmm va s = (if va \<ge> 0xFFFF800000000000 then (kernel_vmm s, s) else get_current_vmm s)"

definition vmm_free :: "u64 \<Rightarrow> 'a vmm_state_scheme \<Rightarrow> (int \<times> 'a vmm_state_scheme) res" where
  "vmm_free va s =
     (let (vmm, s) = get_relevant_vmm va s
      in bind_res (get_memory_area vmm va s) (\<lambda>area.
         if area = NULL then Inr (- 1, s) else vmm_free_area vmm area s))"

definition update_area_access :: "ptr \<Rightarrow> ptr \<Rightarrow> u8 \<Rightarrow> 'a vmm_state_scheme \<Rightarrow> (int \<times> 'a vmm_state_scheme) res"
  where
  "update_area_access vmm area flags s =
     (if area = NULL \<or> vmm = NULL then Inl NullDeref
      else let s = set_area area (\<lambda>a. a\<lparr>area_flags :=
                 (if user_vmm (vmms s vmm) then flags OR MEMORY_FLAG_USER else flags)\<rparr>) s;
               a = areas s area
           in updatepages (root_pagetable (vmms s vmm)) (area_start a) (area_size a) (area_flags a) s)"

definition on_demand_allocation :: "u64 \<Rightarrow> 'a vmm_state_scheme \<Rightarrow> (int \<times> 'a vmm_state_scheme) res" where
  "on_demand_allocation va s =
     (let (vmm, s) = get_relevant_vmm va s
      in bind_res (get_memory_area vmm va s) (\<lambda>area.
         if area = NULL then Inr (- 1, s)
         else bind_res (kalloc s) (\<lambda>(page, s).
              bind_res (mappages (root_pagetable (vmms s vmm)) (PAGE_START va PAGE_SIZE) PAGE_SIZE page
                          (area_flags (areas s area)) s) (\<lambda>(r, s).
              Inr (if r \<noteq> 0 then - 1 else 0, s)))))"

definition map_mmio :: "ptr \<Rightarrow> u64 \<Rightarrow> u64 \<Rightarrow> bool \<Rightarrow> 'a vmm_state_scheme \<Rightarrow> (ptr \<times> 'a vmm_state_scheme) res"
  where
  "map_mmio vmm physical sz writable s =
     (let vmm = (if vmm = NULL then kernel_vmm s else vmm);
          flag = (if writable then MEMORY_FLAG_WRITE else 0);
          flag = (if user_vmm (vmms s vmm) then flag OR MEMORY_FLAG_USER else flag)
      in bind_res (vmm_alloc vmm sz flag s) (\<lambda>(area, s).
         if area = NULL then Inr (NULL, s)
         else let s = set_area area (\<lambda>a. a\<lparr>area_is_mmio := 1\<rparr>) s; a = areas s area
              in bind_res (mappages (root_pagetable (vmms s vmm)) (area_start a) (area_size a) physical
                             (area_flags a) s) (\<lambda>(result, s).
                 Inr (if result \<noteq> 0 then NULL else area_start (areas s area), s))))"

definition unmap_mmio :: "u64 \<Rightarrow> 'a vmm_state_scheme \<Rightarrow> 'a vmm_state_scheme res" where
  "unmap_mmio va s =
     (let (vmm, s) = get_relevant_vmm va s
      in bind_res (get_memory_area vmm va s) (\<lambda>area.
         if area = NULL then Inr s
         else if area_is_mmio (areas s area) = 0 then Inr s
         else bind_res (vmm_free_area vmm area s) (\<lambda>(_, s). Inr s)))"

end
