(* ===== verification/Byte_Memory.thy ===== *)
theory Byte_Memory
  imports Libc_String
begin

text \<open>
  Fields of C structures in byte memory. On x86-64 an integer field is stored with its low byte first;
  \<open>load_le k\<close> and \<open>store_le k\<close> read and write \<open>k\<close> bytes. Structures the kernel overlays on raw memory (heap
  headers, ELF headers, boot-loader tags, firmware tables) are read and written through these.
\<close>

section \<open>Little-endian fields\<close>

primrec load_le :: "nat \<Rightarrow> mem \<Rightarrow> ptr \<Rightarrow> 'w::len word" where
  "load_le 0 m a = 0"
| "load_le (Suc k) m a = ucast (m a) OR push_bit 8 (load_le k m (a + 1))"

definition store_le :: "nat \<Rightarrow> mem \<Rightarrow> ptr \<Rightarrow> 'w::len word \<Rightarrow> mem" where
  "store_le k m a v = (\<lambda>x. if unat (x - a) < k then ucast (drop_bit (8 * unat (x - a)) v) else m x)"

abbreviation load16 :: "mem \<Rightarrow> ptr \<Rightarrow> u16" where "load16 \<equiv> load_le 2"
abbreviation load32 :: "mem \<Rightarrow> ptr \<Rightarrow> u32" where "load32 \<equiv> load_le 4"
abbreviation load64 :: "mem \<Rightarrow> ptr \<Rightarrow> u64" where "load64 \<equiv> load_le 8"
abbreviation store16 :: "mem \<Rightarrow> ptr \<Rightarrow> u16 \<Rightarrow> mem" where "store16 \<equiv> store_le 2"
abbreviation store32 :: "mem \<Rightarrow> ptr \<Rightarrow> u32 \<Rightarrow> mem" where "store32 \<equiv> store_le 4"
abbreviation store64 :: "mem \<Rightarrow> ptr \<Rightarrow> u64 \<Rightarrow> mem" where "store64 \<equiv> store_le 8"

text \<open>The byte ranges \<open>[a, a + k)\<close> and \<open>[b, b + l)\<close> have no byte in common, wrap-around included.\<close>

definition apart :: "ptr \<Rightarrow> nat \<Rightarrow> ptr \<Rightarrow> nat \<Rightarrow> bool" where
  "apart a k b l \<longleftrightarrow> k \<le> unat (b - a) \<and> l \<le> unat (a - b)"

section \<open>Reading back\<close>

lemma bit_load_le:
  "bit (load_le k m a :: 'w::len word) n \<longleftrightarrow>
     n < LENGTH('w) \<and> n < 8 * k \<and> bit (m (a + of_nat (n div 8))) (n mod 8)"
proof (induction k arbitrary: a n)
  case (Suc k)
  show ?case
  proof (cases "n < 8")
    case True
    then show ?thesis by (auto simp: bit_simps)
  next
    case False
    then have d: "n div 8 = Suc ((n - 8) div 8)" "n mod 8 = (n - 8) mod 8" by (auto simp: le_div_geq le_mod_geq)
    have "\<not> bit (m a) n" using False bit_imp_le_length [of "m a" n] by auto
    then have "bit (load_le (Suc k) m a :: 'w word) n \<longleftrightarrow> n < LENGTH('w) \<and> bit (load_le k m (a + 1) :: 'w word) (n - 8)"
      using False by (auto simp: bit_simps)
    also have "\<dots> \<longleftrightarrow> n < LENGTH('w) \<and> n < 8 * Suc k \<and> bit (m (a + of_nat (n div 8))) (n mod 8)"
      using False by (auto simp: Suc.IH d ac_simps)
    finally show ?thesis .
  qed
qed simp

lemma load_le_cong:
  "(\<And>i. i < k \<Longrightarrow> m (a + of_nat i) = m' (a + of_nat i)) \<Longrightarrow> load_le k m a = load_le k m' a"
  by (rule bit_word_eqI) (auto simp: bit_load_le)

lemma load_store_same [simp]:
  assumes "LENGTH('w::len) = 8 * k" "k \<le> 2 ^ 63"
  shows "load_le k (store_le k m a v) a = (v :: 'w word)"
proof (rule bit_word_eqI)
  fix n assume n: "n < LENGTH('w)"
  have "n div 8 < 2 ^ 64" using n assms by auto
  then have "unat (of_nat (n div 8) :: u64) = n div 8" by simp
  moreover have "8 * (n div 8) + n mod 8 = n" by simp
  ultimately show "bit (load_le k (store_le k m a v) a :: 'w word) n = bit v n"
    using n assms(1) by (auto simp: bit_load_le store_le_def bit_simps)
qed

lemma apart_offset:
  assumes "apart a k b l" "i < k"
  shows "\<not> unat (a + of_nat i - b) < l"
proof
  assume l: "unat (a + of_nat i - b) < l"
  have k: "k \<le> unat (b - a)" using assms(1) by (simp add: apart_def)
  then have i: "unat (of_nat i :: u64) = i" using assms(2) unat_u64_less [of "b - a"] by simp
  have ab: "unat (a - b) \<noteq> 0" using assms by (cases "a = b") (simp_all add: apart_def unat_eq_0)
  have s: "unat (a - b) + unat (b - a) = 2 ^ 64"
    using ab unat_u64_less [of a] unat_u64_less [of b] by (auto simp: unat_sub_if' word_le_nat_alt split: if_splits)
  have "a + of_nat i - b = (a - b) + of_nat i" by simp
  then have "unat (a + of_nat i - b) = (unat (a - b) + i) mod 2 ^ 64"
    using i by (simp only: unat_word_ariths) simp
  also have "\<dots> = unat (a - b) + i"
    using s k assms(2) by (intro mod_less) auto
  finally show False using l assms(1) by (auto simp: apart_def)
qed

lemma load_store_apart [simp]:
  assumes "apart a k b l"
  shows "load_le k (store_le l m b v) a = load_le k m a"
  by (rule load_le_cong) (use apart_offset [OF assms] in \<open>simp add: store_le_def\<close>)

lemma byte_store_apart [simp]:
  "apart a 1 b l \<Longrightarrow> store_le l m b v a = m a"
  by (auto simp: store_le_def apart_def)

lemma load_upd_apart [simp]:
  assumes "apart a k b 1"
  shows "load_le k (m(b := v)) a = load_le k m a"
proof -
  have "m(b := v) = store_le 1 m b v"
    by (rule ext) (auto simp: store_le_def unat_eq_0)
  then show ?thesis using assms by (simp only: load_store_apart)
qed

text \<open>Ranges that do not wrap around are apart when one ends before the other starts.\<close>

lemma apartI:
  assumes "unat a + k \<le> unat b \<or> unat b + l \<le> unat a" "unat a + k \<le> 2 ^ 64" "unat b + l \<le> 2 ^ 64" "0 < k" "0 < l"
  shows "apart a k b l"
  using assms unat_u64_less [of a] unat_u64_less [of b]
  by (auto simp: apart_def unat_sub_if' word_le_nat_alt)

lemma apart_sym: "apart a k b l \<longleftrightarrow> apart b l a k"
  by (auto simp: apart_def)

end
