(* ===== verification/Kernel_Heap.thy ===== *)
theory Kernel_Heap
  imports Vmm Byte_Memory
begin

text \<open>
  \<open>kernel/memory/heap.c\<close>: the kernel heap, a list of blocks, each behind a 32-byte header
  \<open>heap_node_t\<close>. Headers lie at arbitrary addresses inside the heap and \<open>realloc\<close> may write one across another, so they are
  kept in byte memory. When no block is large enough the heap takes a new area from the virtual memory manager.
\<close>

section \<open>State\<close>

text \<open>\<open>kmem\<close> is the byte memory of the kernel's half of the address space, \<open>kernel_heap\<close> the first header.\<close>

record heap_state = vmm_state +
  kmem :: mem
  kernel_heap :: ptr

definition FREE :: u8 where [simp]: "FREE = 0"
definition USED :: u8 where [simp]: "USED = 1"
definition HEAP_NODE_SIZE :: u64 where [simp]: "HEAP_NODE_SIZE = 32"

text \<open>The fields of a \<open>heap_node_t\<close>: \<open>size\<close>, \<open>status\<close>, \<open>prev\<close> and \<open>next\<close> at offsets 0, 8, 16 and 24.\<close>

definition node_size :: "mem \<Rightarrow> ptr \<Rightarrow> u64" where "node_size m n = load64 m n"
definition node_status :: "mem \<Rightarrow> ptr \<Rightarrow> u8" where "node_status m n = m (n + 8)"
definition node_prev :: "mem \<Rightarrow> ptr \<Rightarrow> ptr" where "node_prev m n = load64 m (n + 16)"
definition node_next :: "mem \<Rightarrow> ptr \<Rightarrow> ptr" where "node_next m n = load64 m (n + 24)"

definition set_node_size :: "ptr \<Rightarrow> u64 \<Rightarrow> mem \<Rightarrow> mem" where "set_node_size n v m = store64 m n v"
definition set_node_status :: "ptr \<Rightarrow> u8 \<Rightarrow> mem \<Rightarrow> mem" where "set_node_status n v m = m(n + 8 := v)"
definition set_node_prev :: "ptr \<Rightarrow> ptr \<Rightarrow> mem \<Rightarrow> mem" where "set_node_prev n v m = store64 m (n + 16) v"
definition set_node_next :: "ptr \<Rightarrow> ptr \<Rightarrow> mem \<Rightarrow> mem" where "set_node_next n v m = store64 m (n + 24) v"

section \<open>Operations\<close>

definition init_heap :: "ptr \<Rightarrow> u64 \<Rightarrow> 'a heap_state_scheme \<Rightarrow> 'a heap_state_scheme res" where
  "init_heap heap sz s =
     (if heap = NULL then Inl NullDeref
      else Inr (s\<lparr>kmem := set_node_next heap NULL (set_node_prev heap NULL (set_node_status heap FREE
                 (set_node_size heap (sz - HEAP_NODE_SIZE) (kmem s))))\<rparr>))"

text \<open>The condition of the search loop of \<open>alloc\<close> and the loop itself, which stops at the last node.\<close>

definition unfit :: "mem \<Rightarrow> ptr \<Rightarrow> u64 \<Rightarrow> bool" where
  "unfit m cur sz \<longleftrightarrow> node_status m cur = USED \<or> node_size m cur < sz"

primrec find_fit :: "nat \<Rightarrow> mem \<Rightarrow> ptr \<Rightarrow> u64 \<Rightarrow> ptr res" where
  "find_fit 0 m cur sz = Inl Diverges"
| "find_fit (Suc fuel) m cur sz =
     (if unfit m cur sz \<and> node_next m cur \<noteq> NULL then find_fit fuel m (node_next m cur) sz else Inr cur)"

text \<open>
  The branch of \<open>alloc\<close> that extends the heap behind its last node \<open>cur\<close>. It returns the node to use, \<open>NULL\<close>
  when the virtual memory manager has no area.
\<close>

definition heap_grow :: "ptr \<Rightarrow> u64 \<Rightarrow> 'a heap_state_scheme \<Rightarrow> (ptr \<times> 'a heap_state_scheme) res" where
  "heap_grow cur sz s =
     bind_res (vmm_alloc_at cur (kernel_vmm s) sz MEMORY_FLAG_WRITE s) (\<lambda>(area, s).
       if area = NULL then Inr (NULL, s)
       else let start = area_start (areas s area); area_sz = area_size (areas s area)
            in if start = cur + node_size (kmem s) cur
               then Inr (cur, s\<lparr>kmem := set_node_size cur (node_size (kmem s) cur + area_sz) (kmem s)\<rparr>)
               else Inr (start, s\<lparr>kmem := set_node_next cur start (set_node_next start NULL
                      (set_node_prev start cur (set_node_status start FREE
                      (set_node_size start area_sz (kmem s)))))\<rparr>))"

text \<open>The end of \<open>alloc\<close>: cut the rest of the block off as a new free node and mark the block as used.\<close>

definition split_node :: "ptr \<Rightarrow> u64 \<Rightarrow> mem \<Rightarrow> mem" where
  "split_node cur sz m =
     (if node_size m cur > sz + HEAP_NODE_SIZE
      then let next = cur + HEAP_NODE_SIZE + sz;
               m = set_node_size next (node_size m cur - sz - HEAP_NODE_SIZE) m;
               m = set_node_status next FREE m;
               m = set_node_prev next cur m;
               m = set_node_next next (node_next m cur) m;
               m = set_node_next cur next m
           in set_node_size cur sz m
      else m)"

definition alloc :: "u64 \<Rightarrow> 'a heap_state_scheme \<Rightarrow> (ptr \<times> 'a heap_state_scheme) res" where
  "alloc sz s =
     (if kernel_heap s = NULL then Inl NullDeref
      else bind_res (find_fit CHAIN_BOUND (kmem s) (kernel_heap s) sz) (\<lambda>cur.
      bind_res (if node_next (kmem s) cur = NULL \<and> unfit (kmem s) cur sz
                then heap_grow cur sz s else Inr (cur, s)) (\<lambda>(cur, s).
      if cur = NULL then Inr (NULL, s)
      else Inr (cur + HEAP_NODE_SIZE,
                s\<lparr>kmem := set_node_status cur USED (split_node cur sz (kmem s))\<rparr>))))"

definition merge_right :: "ptr \<Rightarrow> mem \<Rightarrow> mem" where
  "merge_right node m =
     (let p = node + HEAP_NODE_SIZE; nx = node_next m node
      in if nx \<noteq> NULL \<and> node_status m nx = FREE \<and> node_size m node + p = nx
         then let merging = nx;
                  m = (if node_next m merging \<noteq> NULL then set_node_prev (node_next m merging) node m else m);
                  m = set_node_next node (node_next m merging) m
              in set_node_size node (node_size m node + (node_size m merging + HEAP_NODE_SIZE)) m
         else m)"

text \<open>
  \<open>free(ptr)\<close>. A \<open>status\<close> that is neither \<open>FREE\<close> nor \<open>USED\<close> means an invalid address; merging with the left
  neighbour dereferences \<open>node->next\<close> without a test.
\<close>

definition free :: "ptr \<Rightarrow> 'a heap_state_scheme \<Rightarrow> 'a heap_state_scheme res" where
  "free p s =
     (let node = p - HEAP_NODE_SIZE
      in if node_status (kmem s) node \<noteq> FREE \<and> node_status (kmem s) node \<noteq> USED then Inr s
         else if node_status (kmem s) node = FREE then Inr s
         else let m = merge_right node (set_node_status node FREE (kmem s));
                  prev = node_prev m node
              in if prev \<noteq> NULL \<and> node_status m prev = FREE \<and> prev + node_size m prev + HEAP_NODE_SIZE = node
                 then let m = set_node_next prev (node_next m node) m
                      in if node_next m node = NULL then Inl NullDeref
                         else let m = set_node_prev (node_next m node) prev m
                              in Inr (s\<lparr>kmem := set_node_size prev
                                   (node_size m prev + (node_size m node + HEAP_NODE_SIZE)) m\<rparr>)
                 else Inr (s\<lparr>kmem := m\<rparr>))"

text \<open>\<open>realloc\<close> to a smaller size cuts the end off; to a larger one it uses the free right neighbour if that is enough.\<close>

definition realloc_shrink :: "ptr \<Rightarrow> u64 \<Rightarrow> mem \<Rightarrow> mem" where
  "realloc_shrink p sz m =
     (let node = p - HEAP_NODE_SIZE; freed = p + sz;
          m = set_node_status freed FREE m;
          m = set_node_next freed (node_next m node) m;
          m = set_node_prev freed node m;
          m = set_node_size freed (node_size m node - sz - HEAP_NODE_SIZE) m;
          m = set_node_size node sz m;
          m = (if node_next m node \<noteq> NULL then set_node_prev (node_next m node) freed m else m);
          m = set_node_next node freed m
      in merge_right freed m)"

definition realloc_extend :: "ptr \<Rightarrow> u64 \<Rightarrow> mem \<Rightarrow> mem" where
  "realloc_extend p sz m =
     (let node = p - HEAP_NODE_SIZE; right = p + sz;
          m = set_node_status right FREE m;
          m = set_node_size right (node_size m node + node_size m (node_next m node) - sz) m;
          m = set_node_next right (node_next m (node_next m node)) m;
          m = set_node_prev right node m;
          m = set_node_next node right m;
          m = set_node_size node sz m
      in if node_next m right \<noteq> NULL then set_node_prev (node_next m right) right m else m)"

definition realloc :: "ptr \<Rightarrow> u64 \<Rightarrow> 'a heap_state_scheme \<Rightarrow> (ptr \<times> 'a heap_state_scheme) res" where
  "realloc p sz s =
     (if p = NULL then alloc sz s
      else if sz = 0 then bind_res (free p s) (\<lambda>s. Inr (NULL, s))
      else let node = p - HEAP_NODE_SIZE; m = kmem s; nx = node_next m node
      in if sz < node_size m node
         then if node_size m node - sz < HEAP_NODE_SIZE then Inr (p, s)
              else Inr (p, s\<lparr>kmem := realloc_shrink p sz m\<rparr>)
         else if nx = NULL \<or> node_status m nx \<noteq> FREE \<or> node_size m node + p \<noteq> nx
                 \<or> node_size m nx + node_size m node < sz
         then bind_res (alloc sz s) (\<lambda>(new_ptr, s).
              if new_ptr = NULL \<and> node_size (kmem s) node \<noteq> 0 then Inl NullDeref
              else let s = s\<lparr>kmem := memmove (kmem s) new_ptr p (node_size (kmem s) node)\<rparr>
                   in bind_res (free p s) (\<lambda>s. Inr (new_ptr, s)))
         else Inr (p, s\<lparr>kmem := realloc_extend p sz m\<rparr>))"

section \<open>Allocation from the first node\<close>

lemma find_fit_here: "\<not> unfit m cur sz \<Longrightarrow> 0 < fuel \<Longrightarrow> find_fit fuel m cur sz = Inr cur"
  by (cases fuel) simp_all

lemma alloc_here:
  assumes "kernel_heap s \<noteq> NULL" "\<not> unfit (kmem s) (kernel_heap s) sz"
  shows "alloc sz s = Inr (kernel_heap s + HEAP_NODE_SIZE,
     s\<lparr>kmem := set_node_status (kernel_heap s) USED (split_node (kernel_heap s) sz (kmem s))\<rparr>)"
proof -
  have "find_fit CHAIN_BOUND (kmem s) (kernel_heap s) sz = Inr (kernel_heap s)"
    by (rule find_fit_here [OF assms(2)]) (simp add: CHAIN_BOUND_def)
  with assms show ?thesis by (simp add: alloc_def)
qed

end
