(* ===== verification/Rb_Tree.thy ===== *)
theory Rb_Tree
  imports Kernel_Prelude
begin

text \<open>
  \<open>kernel/scheduler/rb_tree.c\<close>: the red-black tree in which the scheduler keeps the runnable entities,
  ordered by virtual run time. Nodes are linked by pointers to children and parent; an \<open>rb_heap\<close> is a tree header together
  with the nodes by address. The calls of \<open>alloc\<close> and \<open>free\<close> are made in the theory \<open>Cfs\<close>, around the operations of this one.
\<close>

section \<open>Data\<close>

datatype rb_col = RED | BLACK

datatype dir_t = LEFT | RIGHT

text \<open>\<open>1 - dir\<close> in the code.\<close>

fun opp :: "dir_t \<Rightarrow> dir_t" where
  "opp LEFT = RIGHT"
| "opp RIGHT = LEFT"

text \<open>The union of \<open>left\<close>/\<open>right\<close> with \<open>child[2]\<close> is the function \<open>rb_child\<close>.\<close>

record rb_node =
  rb_child :: "dir_t \<Rightarrow> ptr"
  rb_parent :: ptr
  rb_color :: rb_col
  rb_se :: ptr

record rb_heap =
  tree_root :: ptr
  tree_leftmost :: ptr
  rb_nodes :: "ptr \<Rightarrow> rb_node"

record sched_entity =
  vruntime :: u64
  exec_start_time :: u64

type_synonym entities = "ptr \<Rightarrow> sched_entity"

definition entity_key :: "entities \<Rightarrow> ptr \<Rightarrow> u64" where
  "entity_key es se = vruntime (es se)"

definition set_child :: "ptr \<Rightarrow> dir_t \<Rightarrow> ptr \<Rightarrow> rb_heap \<Rightarrow> rb_heap" where
  "set_child n d c h = h\<lparr>rb_nodes := (rb_nodes h)(n := (rb_nodes h n)\<lparr>rb_child := (rb_child (rb_nodes h n))(d := c)\<rparr>)\<rparr>"

definition set_parent :: "ptr \<Rightarrow> ptr \<Rightarrow> rb_heap \<Rightarrow> rb_heap" where
  "set_parent n p h = h\<lparr>rb_nodes := (rb_nodes h)(n := (rb_nodes h n)\<lparr>rb_parent := p\<rparr>)\<rparr>"

definition set_color :: "ptr \<Rightarrow> rb_col \<Rightarrow> rb_heap \<Rightarrow> rb_heap" where
  "set_color n c h = h\<lparr>rb_nodes := (rb_nodes h)(n := (rb_nodes h n)\<lparr>rb_color := c\<rparr>)\<rparr>"

definition set_se :: "ptr \<Rightarrow> ptr \<Rightarrow> rb_heap \<Rightarrow> rb_heap" where
  "set_se n se h = h\<lparr>rb_nodes := (rb_nodes h)(n := (rb_nodes h n)\<lparr>rb_se := se\<rparr>)\<rparr>"

definition DIR :: "ptr \<Rightarrow> rb_heap \<Rightarrow> dir_t" where
  "DIR n h = (if n = rb_child (rb_nodes h (rb_parent (rb_nodes h n))) RIGHT then RIGHT else LEFT)"

text \<open>A null child counts as black.\<close>

definition is_black :: "ptr \<Rightarrow> rb_heap \<Rightarrow> bool" where
  "is_black n h \<longleftrightarrow> n = NULL \<or> rb_color (rb_nodes h n) = BLACK"

section \<open>Operations\<close>

definition rb_rotate :: "ptr \<Rightarrow> dir_t \<Rightarrow> rb_heap \<Rightarrow> rb_heap res" where
  "rb_rotate n dir h =
     (if n = NULL then Inl NullDeref
      else let p = rb_parent (rb_nodes h n); root = rb_child (rb_nodes h n) (opp dir)
      in if root = NULL then Inl NullDeref
      else let child = rb_child (rb_nodes h root) dir;
               h = set_child n (opp dir) child h;
               h = (if child \<noteq> NULL then set_parent child n h else h);
               h = set_parent root p h;
               h = (if p \<noteq> NULL then set_child p (DIR n h) root h else h\<lparr>tree_root := root\<rparr>);
               h = set_parent n root h
           in Inr (set_child root dir n h))"

text \<open>
  The loop of \<open>balance_tree_insert\<close>. It climbs the tree, so \<open>2 ^ 64\<close> turns are enough for every tree that fits
  into memory.
\<close>

definition TREE_BOUND :: nat where "TREE_BOUND = 2 ^ 64"

primrec balance_insert_loop :: "nat \<Rightarrow> ptr \<Rightarrow> ptr \<Rightarrow> rb_heap \<Rightarrow> rb_heap res" where
  "balance_insert_loop 0 n parent h = Inl Diverges"
| "balance_insert_loop (Suc fuel) n parent h =
     (if rb_color (rb_nodes h parent) = BLACK then Inr h
      else let gp = rb_parent (rb_nodes h parent)
      in if gp = NULL then Inr (set_color parent BLACK h)
      else let dir = DIR parent h; uncle = rb_child (rb_nodes h gp) (opp dir)
      in if is_black uncle h
         then bind_res (if n = rb_child (rb_nodes h parent) (opp dir)
                        then bind_res (rb_rotate parent dir h) (\<lambda>h. Inr (rb_child (rb_nodes h gp) dir, h))
                        else Inr (parent, h)) (\<lambda>(parent, h).
              bind_res (rb_rotate gp (opp dir) h) (\<lambda>h.
              let h = set_color gp RED h
              in if parent = NULL then Inl NullDeref else Inr (set_color parent BLACK h)))
         else let h = set_color gp RED (set_color uncle BLACK (set_color parent BLACK h));
                  parent = rb_parent (rb_nodes h gp)
              in if parent \<noteq> NULL then balance_insert_loop fuel gp parent h else Inr h)"

definition balance_tree_insert :: "ptr \<Rightarrow> ptr \<Rightarrow> rb_heap \<Rightarrow> rb_heap res" where
  "balance_tree_insert n parent h =
     (if parent = NULL then Inr (set_color n BLACK h) else balance_insert_loop TREE_BOUND n parent h)"

text \<open>
  The search for the place of a new node. \<open>link\<close> points to the root field of the tree (\<open>None\<close>) or to a child field of
  a node. The result is the last \<open>link\<close>, the parent and whether only left turns were taken.
\<close>

type_synonym link = "(ptr \<times> dir_t) option"

definition get_link :: "link \<Rightarrow> rb_heap \<Rightarrow> ptr" where
  "get_link l h = (case l of None \<Rightarrow> tree_root h | Some (n, d) \<Rightarrow> rb_child (rb_nodes h n) d)"

definition set_link :: "link \<Rightarrow> ptr \<Rightarrow> rb_heap \<Rightarrow> rb_heap" where
  "set_link l v h = (case l of None \<Rightarrow> h\<lparr>tree_root := v\<rparr> | Some (n, d) \<Rightarrow> set_child n d v h)"

primrec find_link ::
    "nat \<Rightarrow> entities \<Rightarrow> u64 \<Rightarrow> link \<Rightarrow> ptr \<Rightarrow> bool \<Rightarrow> rb_heap \<Rightarrow> (link \<times> ptr \<times> bool) res" where
  "find_link 0 es key link parent leftmost h = Inl Diverges"
| "find_link (Suc fuel) es key link parent leftmost h =
     (if get_link link h = NULL then Inr (link, parent, leftmost)
      else let parent = get_link link h
           in if key < entity_key es (rb_se (rb_nodes h parent))
              then find_link fuel es key (Some (parent, LEFT)) parent leftmost h
              else find_link fuel es key (Some (parent, RIGHT)) parent False h)"

text \<open>\<open>rb_insert\<close> after the allocation of the node \<open>run\<close>, which is written to at once.\<close>

definition rb_insert_node :: "entities \<Rightarrow> ptr \<Rightarrow> ptr \<Rightarrow> rb_heap \<Rightarrow> rb_heap res" where
  "rb_insert_node es se run h =
     (if run = NULL then Inl NullDeref
      else let key = entity_key es se;
               h = set_color run RED h;
               h = set_child run LEFT NULL (set_child run RIGHT NULL h);
               h = set_se run se h
      in bind_res (find_link TREE_BOUND es key None NULL True h) (\<lambda>(link, parent, leftmost).
         let h = (if leftmost then h\<lparr>tree_leftmost := run\<rparr> else h);
             h = set_parent run parent h;
             h = set_link link run h
         in balance_tree_insert run parent h))"

text \<open>
  The loop of \<open>balance_tree_remove\<close>; \<open>continue\<close> goes to the loop condition, which moves \<open>n\<close> to its parent. Every
  pointer the code dereferences without a test is checked here.
\<close>

primrec balance_remove_loop :: "nat \<Rightarrow> ptr \<Rightarrow> rb_heap \<Rightarrow> rb_heap res" where
  "balance_remove_loop 0 n h = Inl Diverges"
| "balance_remove_loop (Suc fuel) n h =
     (let p = rb_parent (rb_nodes h n)
      in if p = NULL then Inl NullDeref
      else let dir = DIR n h; s = rb_child (rb_nodes h p) (opp dir)
      in if s = NULL then Inl NullDeref
      else let c = rb_child (rb_nodes h s) dir; d = rb_child (rb_nodes h s) (opp dir)
      in bind_res
           (if rb_color (rb_nodes h s) = RED
            then bind_res (rb_rotate p dir h) (\<lambda>h.
                 let h = set_color s BLACK (set_color p RED h)
                 in if c = NULL then Inl NullDeref
                    else Inr (c, rb_child (rb_nodes h c) dir, rb_child (rb_nodes h c) (opp dir), h))
            else Inr (s, c, d, h)) (\<lambda>(s, c, d, h).
         if is_black d h \<and> is_black c h
         then let h = set_color s RED h
              in if rb_color (rb_nodes h p) = BLACK
                 then let n = rb_parent (rb_nodes h n)
                      in if n \<noteq> NULL \<and> rb_parent (rb_nodes h n) \<noteq> NULL then balance_remove_loop fuel n h
                         else Inr (h\<lparr>tree_root := n\<rparr>)
                 else Inr (set_color p BLACK h)
         else bind_res
                (if is_black d h
                 then bind_res (rb_rotate s (opp dir) h) (\<lambda>h. Inr (c, s, set_color s RED (set_color c BLACK h)))
                 else Inr (s, d, h)) (\<lambda>(s, d, h).
              bind_res (rb_rotate p dir h) (\<lambda>h.
              Inr (set_color d BLACK (set_color p BLACK (set_color s (rb_color (rb_nodes h p)) h)))))))"

definition balance_tree_remove :: "ptr \<Rightarrow> rb_heap \<Rightarrow> rb_heap res" where
  "balance_tree_remove n h = balance_remove_loop TREE_BOUND n h"

primrec rb_most :: "nat \<Rightarrow> dir_t \<Rightarrow> ptr \<Rightarrow> rb_heap \<Rightarrow> ptr res" where
  "rb_most 0 d sub h = Inl Diverges"
| "rb_most (Suc fuel) d sub h =
     (if rb_child (rb_nodes h sub) d \<noteq> NULL then rb_most fuel d (rb_child (rb_nodes h sub) d) h else Inr sub)"

definition leftmost :: "ptr \<Rightarrow> rb_heap \<Rightarrow> ptr res" where "leftmost sub h = rb_most TREE_BOUND LEFT sub h"
definition rightmost :: "ptr \<Rightarrow> rb_heap \<Rightarrow> ptr res" where "rightmost sub h = rb_most TREE_BOUND RIGHT sub h"

primrec find_entity :: "nat \<Rightarrow> entities \<Rightarrow> ptr \<Rightarrow> u64 \<Rightarrow> ptr \<Rightarrow> rb_heap \<Rightarrow> ptr res" where
  "find_entity 0 es se key n h = Inl Diverges"
| "find_entity (Suc fuel) es se key n h =
     (if n \<noteq> NULL \<and> rb_se (rb_nodes h n) \<noteq> se
      then find_entity fuel es se key
             (rb_child (rb_nodes h n) (if key < entity_key es (rb_se (rb_nodes h n)) then LEFT else RIGHT)) h
      else Inr n)"

text \<open>
  \<open>rb_remove\<close> up to its calls of \<open>free\<close>: the result is the node to free, \<open>NULL\<close> when the entity was not found.
  \<open>rb_detach_leaf\<close> is the part for a node without children.
\<close>

definition rb_detach_leaf :: "ptr \<Rightarrow> rb_heap \<Rightarrow> (ptr \<times> rb_heap) res" where
  "rb_detach_leaf n h =
     (let h = (if n = tree_leftmost h then h\<lparr>tree_leftmost := rb_parent (rb_nodes h n)\<rparr> else h)
      in if n = tree_root h then Inr (n, h\<lparr>tree_root := NULL\<rparr>)
      else let dir = DIR n h
      in bind_res (if rb_color (rb_nodes h n) = RED then Inr h else balance_tree_remove n h) (\<lambda>h.
         Inr (n, set_child (rb_parent (rb_nodes h n)) dir NULL h)))"

definition rb_detach_node :: "ptr \<Rightarrow> rb_heap \<Rightarrow> (ptr \<times> rb_heap) res" where
  "rb_detach_node n h =
     (let l = rb_child (rb_nodes h n) LEFT; r = rb_child (rb_nodes h n) RIGHT
      in if l \<noteq> NULL \<or> r \<noteq> NULL
         then let child = (if l \<noteq> NULL then l else r);
                  dir = DIR child h;
                  h = set_se n (rb_se (rb_nodes h child)) h;
                  h = set_child n dir NULL h;
                  h = (if child = tree_leftmost h then h\<lparr>tree_leftmost := n\<rparr> else h)
              in Inr (child, h)
         else rb_detach_leaf n h)"

definition rb_detach :: "entities \<Rightarrow> ptr \<Rightarrow> rb_heap \<Rightarrow> (ptr \<times> rb_heap) res" where
  "rb_detach es se h =
     bind_res (find_entity TREE_BOUND es se (entity_key es se) (tree_root h) h) (\<lambda>n.
       if n = NULL then Inr (NULL, h)
       else let l = rb_child (rb_nodes h n) LEFT; r = rb_child (rb_nodes h n) RIGHT
            in if l \<noteq> NULL \<and> r \<noteq> NULL
               then bind_res (rightmost l h) (\<lambda>sw. rb_detach_node sw (set_se n (rb_se (rb_nodes h sw)) h))
               else rb_detach_node n h)"

end
