(* ===== verification/Rb_Shape.thy ===== *)
theory Rb_Shape
  imports Rb_Tree
begin

text \<open>
  The pointer tree of \<open>Rb_Tree\<close> seen as a value: which tree the nodes of an \<open>rb_heap\<close> represent, contexts (trees with a hole, for
  the loops that climb from a node towards the root), the red-black invariant, and what a rotation and a change of colour
  do to the represented tree.
\<close>

section \<open>Trees\<close>

datatype rbt = Leaf | Node rb_col rbt ptr rbt

text \<open>\<open>node d c x a y\<close> has \<open>x\<close> as its child in direction \<open>d\<close> and \<open>y\<close> on the other side.\<close>

definition node :: "dir_t \<Rightarrow> rb_col \<Rightarrow> rbt \<Rightarrow> ptr \<Rightarrow> rbt \<Rightarrow> rbt" where
  "node d c x a y = (case d of LEFT \<Rightarrow> Node c x a y | RIGHT \<Rightarrow> Node c y a x)"

primrec ptrs :: "rbt \<Rightarrow> ptr list" where
  "ptrs Leaf = []"
| "ptrs (Node c l a r) = ptrs l @ a # ptrs r"

primrec root_col :: "rbt \<Rightarrow> rb_col" where
  "root_col Leaf = BLACK"
| "root_col (Node c l a r) = c"

primrec paint :: "rb_col \<Rightarrow> rbt \<Rightarrow> rbt" where
  "paint c Leaf = Leaf"
| "paint c (Node c' l a r) = Node c l a r"

text \<open>No red node has a red child; every path has the same number of black nodes.\<close>

primrec invc :: "rbt \<Rightarrow> bool" where
  "invc Leaf \<longleftrightarrow> True"
| "invc (Node c l a r) \<longleftrightarrow> (c = RED \<longrightarrow> root_col l = BLACK \<and> root_col r = BLACK) \<and> invc l \<and> invc r"

primrec bh :: "rbt \<Rightarrow> nat" where
  "bh Leaf = 0"
| "bh (Node c l a r) = bh l + (if c = BLACK then 1 else 0)"

primrec invh :: "rbt \<Rightarrow> bool" where
  "invh Leaf \<longleftrightarrow> True"
| "invh (Node c l a r) \<longleftrightarrow> bh l = bh r \<and> invh l \<and> invh r"

lemma opp_opp [simp]: "opp (opp d) = d" by (cases d) simp_all
lemma opp_neq [simp]: "opp d \<noteq> d" "d \<noteq> opp d" by (cases d; simp)+
lemma neq_opp: "d \<noteq> e \<longleftrightarrow> d = opp e" by (cases d; cases e) simp_all

lemma rb_col_neq [simp]: "c \<noteq> BLACK \<longleftrightarrow> c = RED" "c \<noteq> RED \<longleftrightarrow> c = BLACK" by (cases c; simp)+

lemma node_opp: "node (opp d) c x a y = node d c y a x"
  by (cases d) (simp_all add: node_def)

lemma set_ptrs_node [simp]: "set (ptrs (node d c x a y)) = insert a (set (ptrs x) \<union> set (ptrs y))"
  by (cases d) (auto simp: node_def)

lemma distinct_ptrs_node [simp]:
  "distinct (ptrs (node d c x a y)) \<longleftrightarrow> distinct (ptrs x) \<and> distinct (ptrs y) \<and> a \<notin> set (ptrs x) \<and> a \<notin> set (ptrs y)
    \<and> set (ptrs x) \<inter> set (ptrs y) = {}"
  by (cases d) (auto simp: node_def)

lemma inv_node [simp]:
  "root_col (node d c x a y) = c"
  "paint c' (node d c x a y) = node d c' x a y"
  "invc (node d c x a y) \<longleftrightarrow> (c = RED \<longrightarrow> root_col x = BLACK \<and> root_col y = BLACK) \<and> invc x \<and> invc y"
  "invh (node d c x a y) \<longleftrightarrow> bh x = bh y \<and> invh x \<and> invh y"
  "node d c x a y \<noteq> Leaf"
  by (cases d; auto simp: node_def)+

lemma bh_node: "bh x = bh y \<Longrightarrow> bh (node d c x a y) = bh x + (if c = BLACK then 1 else 0)"
  by (cases d) (auto simp: node_def)

lemma rbt_node_cases: obtains "t = Leaf" | c x a y where "t = node d c x a y"
proof (cases t)
  case (Node c l a r)
  then have "t = node d c (if d = LEFT then l else r) a (if d = LEFT then r else l)"
    by (cases d) (simp_all add: node_def)
  then show ?thesis by (rule that(2))
qed (rule that(1))

lemma paint_facts [simp]:
  "ptrs (paint c t) = ptrs t" "invh (paint c t) = invh t" "paint c (paint c' t) = paint c t"
  by (cases t; simp)+

lemma rotated_ptrs:
  "ptrs (node d c1 (node d c2 x a y) b z) = ptrs (node d c3 x a (node d c4 y b z))"
  by (cases d) (simp_all add: node_def)

section \<open>Contexts\<close>

text \<open>
  A frame is a node with a hole in direction \<open>d\<close>: direction, colour, address, the other child. A context is the list of the
  frames from the hole up to the root.
\<close>

type_synonym frame = "dir_t \<times> rb_col \<times> ptr \<times> rbt"

fun plug :: "frame list \<Rightarrow> rbt \<Rightarrow> rbt" where
  "plug [] t = t"
| "plug ((d, c, a, sib) # ks) t = plug ks (node d c t a sib)"

text \<open>The addresses to the left and to the right of the hole.\<close>

fun lctx :: "frame list \<Rightarrow> ptr list" where
  "lctx [] = []"
| "lctx ((d, c, a, sib) # ks) = lctx ks @ (if d = RIGHT then ptrs sib @ [a] else [])"

fun rctx :: "frame list \<Rightarrow> ptr list" where
  "rctx [] = []"
| "rctx ((d, c, a, sib) # ks) = (if d = LEFT then a # ptrs sib else []) @ rctx ks"

lemma ptrs_plug: "ptrs (plug ks t) = lctx ks @ ptrs t @ rctx ks"
  by (induction ks t rule: plug.induct) (auto simp: node_def split: dir_t.splits)

definition kptrs :: "frame list \<Rightarrow> ptr set" where
  "kptrs ks = set (lctx ks) \<union> set (rctx ks)"

lemma kptrs_simps [simp]:
  "kptrs [] = {}"
  "kptrs ((d, c, a, sib) # ks) = insert a (set (ptrs sib)) \<union> kptrs ks"
  by (cases d; auto simp: kptrs_def)+

lemma plug_append: "plug (ks @ ks') t = plug ks' (plug ks t)"
  by (induction ks t rule: plug.induct) auto

section \<open>Representation\<close>

primrec rep :: "(ptr \<Rightarrow> rb_node) \<Rightarrow> ptr \<Rightarrow> ptr \<Rightarrow> rbt \<Rightarrow> bool" where
  "rep N par p Leaf \<longleftrightarrow> p = NULL"
| "rep N par p (Node c l a r) \<longleftrightarrow> p = a \<and> a \<noteq> NULL \<and> rb_parent (N a) = par \<and> rb_color (N a) = c
     \<and> rep N a (rb_child (N a) LEFT) l \<and> rep N a (rb_child (N a) RIGHT) r"

fun ctx :: "(ptr \<Rightarrow> rb_node) \<Rightarrow> ptr \<Rightarrow> ptr \<Rightarrow> ptr \<Rightarrow> frame list \<Rightarrow> bool" where
  "ctx N root par hole [] \<longleftrightarrow> root = hole \<and> par = NULL"
| "ctx N root par hole ((d, c, a, sib) # ks) \<longleftrightarrow> par = a \<and> a \<noteq> NULL \<and> rb_child (N a) d = hole \<and> rb_color (N a) = c
     \<and> rep N a (rb_child (N a) (opp d)) sib \<and> ctx N root (rb_parent (N a)) a ks"

definition tree_rep :: "rb_heap \<Rightarrow> rbt \<Rightarrow> bool" where
  "tree_rep h t \<longleftrightarrow> rep (rb_nodes h) NULL (tree_root h) t \<and> distinct (ptrs t)"

lemma rep_node:
  "rep N par p (node d c x a y) \<longleftrightarrow> p = a \<and> a \<noteq> NULL \<and> rb_parent (N a) = par \<and> rb_color (N a) = c
     \<and> rep N a (rb_child (N a) d) x \<and> rep N a (rb_child (N a) (opp d)) y"
  by (cases d) (auto simp: node_def)

lemma rep_cong: "(\<And>a. a \<in> set (ptrs t) \<Longrightarrow> N' a = N a) \<Longrightarrow> rep N' par p t = rep N par p t"
  by (induction t arbitrary: par p) auto

lemma rep_root: "rep N par p t \<Longrightarrow> (t = Leaf \<longleftrightarrow> p = NULL) \<and> (p \<noteq> NULL \<longrightarrow> p \<in> set (ptrs t))"
  by (cases t) auto

lemma rep_nonnull: "rep N par p t \<Longrightarrow> NULL \<notin> set (ptrs t)"
  by (induction t arbitrary: par p) auto

lemma rep_root_col: "rep N par p t \<Longrightarrow> root_col t = (if p = NULL then BLACK else rb_color (N p))"
  by (cases t) auto

lemma ctx_cong: "(\<And>a. a \<in> kptrs ks \<Longrightarrow> N' a = N a) \<Longrightarrow> ctx N' root par hole ks = ctx N root par hole ks"
proof (induction ks arbitrary: par hole)
  case (Cons k ks)
  obtain d c a sib where k: "k = (d, c, a, sib)" by (cases k)
  show ?case using Cons.prems Cons.IH [of "rb_parent (N a)" a]
    by (auto simp: k rep_cong [of sib N' N])
qed simp

lemma rep_plug: "rep N NULL root (plug ks t) \<longleftrightarrow> (\<exists>par hole. ctx N root par hole ks \<and> rep N par hole t)"
proof (induction ks t rule: plug.induct)
  case (1 t)
  then show ?case by auto
next
  case (2 d c a sib ks t)
  then show ?case by (auto simp: rep_node)
qed

lemma distinct_plug:
  "distinct (ptrs (plug ks t)) \<longleftrightarrow> distinct (lctx ks @ rctx ks) \<and> distinct (ptrs t) \<and> kptrs ks \<inter> set (ptrs t) = {}"
  by (auto simp: ptrs_plug kptrs_def)

text \<open>A tree in memory has fewer nodes than there are addresses, so a path in it is shorter than \<open>TREE_BOUND\<close>.\<close>

lemma ptrs_bound:
  assumes "tree_rep h t"
  shows "length (ptrs t) < TREE_BOUND"
proof -
  have "NULL \<notin> set (ptrs t)" "distinct (ptrs t)" using assms rep_nonnull by (auto simp: tree_rep_def)
  then have "length (ptrs t) < card (insert NULL (set (ptrs t)))" by (simp add: distinct_card)
  also have "\<dots> \<le> card (UNIV :: u64 set)" by (intro card_mono) auto
  finally show ?thesis by (simp add: card_word TREE_BOUND_def)
qed

lemma ctx_bound: "length ks \<le> length (ptrs (plug ks t))"
proof -
  have "length ks \<le> length (lctx ks) + length (rctx ks)"
  proof (induction ks)
    case (Cons k ks)
    obtain d c a s where "k = (d, c, a, s)" by (cases k)
    with Cons show ?case by (cases d) auto
  qed simp
  then show ?thesis by (simp add: ptrs_plug)
qed

section \<open>Rotation and colours\<close>

lemma rep_reparent:
  assumes "rep N par p t" "distinct (ptrs t)" "\<And>a. a \<in> set (ptrs t) \<Longrightarrow> a \<noteq> p \<Longrightarrow> N' a = N a"
    and "p \<noteq> NULL \<Longrightarrow> N' p = (N p)\<lparr>rb_parent := par'\<rparr>"
  shows "rep N' par' p t"
proof (cases t)
  case (Node c l a r)
  have "N' x = N x" if "x \<in> set (ptrs l) \<union> set (ptrs r)" for x
    using assms Node that by auto
  then show ?thesis
    using assms(1,4) Node rep_cong [of l N' N a] rep_cong [of r N' N a] by auto
qed (use assms in simp)

lemma ctx_dir:
  assumes "ctx N root par hole ((d, c, a, sib) # ks)" "hole \<noteq> NULL" "hole \<notin> set (ptrs sib)"
  shows "hole = rb_child (N a) e \<longleftrightarrow> e = d"
proof (cases "e = d")
  case False
  then have "rep N a (rb_child (N a) e) sib" using assms(1) by (cases e; cases d) auto
  then have "rb_child (N a) e \<noteq> hole" using rep_root [of N a "rb_child (N a) e" sib] assms(2,3) by auto
  with False show ?thesis by auto
qed (use assms in auto)

lemma ctx_replace:
  assumes "ctx N root par hole ks" "distinct (lctx ks @ rctx ks)"
    and "\<And>a. a \<in> kptrs ks \<Longrightarrow> a \<noteq> par \<Longrightarrow> N' a = N a"
    and "\<And>d c a sib ks'. ks = (d, c, a, sib) # ks' \<Longrightarrow> N' par = (N par)\<lparr>rb_child := (rb_child (N par))(d := hole')\<rparr>"
    and "root' = (if ks = [] then hole' else root)"
  shows "ctx N' root' par hole' ks"
proof (cases ks)
  case Nil
  with assms show ?thesis by simp
next
  case (Cons k ks')
  obtain d c a sib where k: "k = (d, c, a, sib)" by (cases k)
  have 1: "par = a" "a \<noteq> NULL" "rb_color (N a) = c" "rep N a (rb_child (N a) (opp d)) sib" "ctx N root (rb_parent (N a)) a ks'"
    using assms(1) by (auto simp: Cons k)
  have 2: "a \<notin> set (ptrs sib)" "a \<notin> kptrs ks'"
    using assms(2) by (auto simp: Cons k kptrs_def split: if_splits) (cases d; auto)+
  have "rep N' a (rb_child (N a) (opp d)) sib"
    using 1 2 assms(3) by (subst rep_cong [of sib N' N]) (auto simp: Cons k)
  moreover have "ctx N' root (rb_parent (N a)) a ks'"
    using 1 2 assms(3) by (subst ctx_cong [of ks' N' N]) (auto simp: Cons k)
  moreover have "N' a = (N a)\<lparr>rb_child := (rb_child (N a))(d := hole')\<rparr>"
    using assms(4) [OF Cons [unfolded k]] 1 by simp
  ultimately show ?thesis using 1 assms(5) by (simp add: Cons k)
qed

text \<open>What the structural operations leave alone.\<close>

definition same_data :: "ptr set \<Rightarrow> rb_heap \<Rightarrow> rb_heap \<Rightarrow> bool" where
  "same_data A h h' \<longleftrightarrow> tree_leftmost h' = tree_leftmost h
     \<and> (\<forall>a. rb_se (rb_nodes h' a) = rb_se (rb_nodes h a)) \<and> (\<forall>a. a \<notin> A \<longrightarrow> rb_nodes h' a = rb_nodes h a)"

lemma same_data_trans: "same_data A h h' \<Longrightarrow> same_data A h' h'' \<Longrightarrow> same_data A h h''"
  by (auto simp: same_data_def)

lemma rb_rotate_rep:
  assumes "tree_rep h (plug ks (node d c1 A n (node d c2 B r C)))" (is "tree_rep h ?t")
  shows "\<exists>h'. rb_rotate n d h = Inr h' \<and> tree_rep h' (plug ks (node d c2 (node d c1 A n B) r C))
    \<and> same_data (set (ptrs ?t)) h h'"
proof -
  define N where "N = rb_nodes h"
  obtain par where k: "ctx N (tree_root h) par n ks"
      and n: "n \<noteq> NULL" "rb_parent (N n) = par" "rb_color (N n) = c1" "rep N n (rb_child (N n) d) A"
        "rb_child (N n) (opp d) = r"
      and r: "r \<noteq> NULL" "rb_parent (N r) = n" "rb_color (N r) = c2" "rep N r (rb_child (N r) d) B"
        "rep N r (rb_child (N r) (opp d)) C"
    using assms by (auto simp: tree_rep_def N_def rep_plug rep_node)
  define b where "b = rb_child (N r) d"
  have D: "distinct (lctx ks @ rctx ks)" "distinct (ptrs A)" "distinct (ptrs B)" "distinct (ptrs C)" "n \<noteq> r"
      "n \<notin> kptrs ks" "r \<notin> kptrs ks" "n \<notin> set (ptrs A)" "n \<notin> set (ptrs B)" "n \<notin> set (ptrs C)"
      "r \<notin> set (ptrs A)" "r \<notin> set (ptrs B)" "r \<notin> set (ptrs C)"
    using assms by (auto simp: tree_rep_def distinct_plug)
  have E: "set (ptrs A) \<inter> set (ptrs B) = {}" "set (ptrs A) \<inter> set (ptrs C) = {}" "set (ptrs B) \<inter> set (ptrs C) = {}"
      "kptrs ks \<inter> set (ptrs A) = {}" "kptrs ks \<inter> set (ptrs B) = {}" "kptrs ks \<inter> set (ptrs C) = {}"
    using assms by (auto simp: tree_rep_def distinct_plug)
  have bB: "b = NULL \<or> b \<in> set (ptrs B)" using rep_root [OF r(4)] by (auto simp: b_def)
  have pk: "par = NULL \<and> ks = [] \<or> par \<noteq> NULL \<and> ks \<noteq> [] \<and> par \<in> kptrs ks"
    using k by (cases ks) auto
  have ne: "b \<noteq> n" "b \<noteq> r" "par \<noteq> n" "par \<noteq> r" "par \<noteq> NULL \<Longrightarrow> b \<noteq> par"
    using bB pk n(1) r(1) D E by auto
  define h3 where "h3 = set_parent r par ((if b \<noteq> NULL then set_parent b n else id) (set_child n (opp d) b h))"
  define h6 where "h6 = set_child r d n (set_parent n r
      (if par \<noteq> NULL then set_child par (DIR n h3) r h3 else h3\<lparr>tree_root := r\<rparr>))"
  have rot: "rb_rotate n d h = Inr h6"
    using n r by (simp add: rb_rotate_def Let_def h6_def h3_def b_def [symmetric] N_def [symmetric])
  have dir: "DIR n h3 = e" if "ks = (e, c, a, sib) # ks'" for e c a sib ks'
  proof -
    have "n = rb_child (N par) RIGHT \<longleftrightarrow> RIGHT = e"
      using k ctx_dir [of N "tree_root h" par n e c a sib ks' RIGHT] n(1) D(6) that by auto
    moreover have "rb_parent (rb_nodes h3 n) = par" "rb_child (rb_nodes h3 par) = rb_child (N par)"
      using ne D(5) n(2) by (auto simp: h3_def set_parent_def set_child_def N_def)
    ultimately show ?thesis by (cases e) (auto simp: DIR_def)
  qed
  define M where "M = rb_nodes h6"
  have M: "M n = (N n)\<lparr>rb_child := (rb_child (N n))(opp d := b), rb_parent := r\<rparr>"
      "M r = (N r)\<lparr>rb_child := (rb_child (N r))(d := n), rb_parent := par\<rparr>"
      "b \<noteq> NULL \<Longrightarrow> M b = (N b)\<lparr>rb_parent := n\<rparr>"
      "par \<noteq> NULL \<Longrightarrow> M par = (N par)\<lparr>rb_child := (rb_child (N par))(DIR n h3 := r)\<rparr>"
      "\<And>a. a \<noteq> n \<Longrightarrow> a \<noteq> r \<Longrightarrow> b = NULL \<or> a \<noteq> b \<Longrightarrow> par = NULL \<or> a \<noteq> par \<Longrightarrow> M a = N a"
    using ne D(5) by (auto simp: M_def h6_def h3_def set_parent_def set_child_def N_def)
  have root: "tree_root h6 = (if ks = [] then r else tree_root h)"
    using pk by (auto simp: h6_def h3_def set_parent_def set_child_def)
  have "rep M n (rb_child (N n) d) A = rep N n (rb_child (N n) d) A"
    by (rule rep_cong, rule M(5)) (use bB pk D E in auto)
  moreover have "rep M r (rb_child (N r) (opp d)) C = rep N r (rb_child (N r) (opp d)) C"
    by (rule rep_cong, rule M(5)) (use bB pk D E in auto)
  moreover have "rep M n b B"
    by (rule rep_reparent [OF r(4) [folded b_def] D(3)], rule M(5)) (use M(3) bB pk D E in auto)
  ultimately have R: "rep M par r (node d c2 (node d c1 A n B) r C)"
    using n r M(1,2) D(5) by (simp add: rep_node)
  have "ctx M (tree_root h6) par r ks"
  proof (rule ctx_replace [OF k D(1) _ _ root])
    show "M a = N a" if "a \<in> kptrs ks" "a \<noteq> par" for a
      by (rule M(5)) (use that D E bB in auto)
    show "M par = (N par)\<lparr>rb_child := (rb_child (N par))(e := r)\<rparr>" if "ks = (e, c, a, sib) # ks'" for e c a sib ks'
      using M(4) dir [OF that] pk that by auto
  qed
  then have "tree_rep h6 (plug ks (node d c2 (node d c1 A n B) r C))"
    using R assms by (auto simp: tree_rep_def M_def rep_plug ptrs_plug rotated_ptrs [of d _ _ A n B r C c1 c2])
  moreover have "same_data (set (ptrs ?t)) h h6"
  proof -
    have "rb_se (M a) = rb_se (N a)" for a using M(1-4) M(5) [of a] by (cases "a = n \<or> a = r \<or> b \<noteq> NULL \<and> a = b \<or> par \<noteq> NULL \<and> a = par") auto
    moreover have "M a = N a" if "a \<notin> set (ptrs ?t)" for a
      by (rule M(5)) (use that bB pk in \<open>auto simp: ptrs_plug kptrs_def\<close>)
    ultimately show ?thesis
      by (simp add: same_data_def M_def N_def) (simp add: h6_def h3_def set_parent_def set_child_def)
  qed
  ultimately show ?thesis using rot by blast
qed
text \<open>What the nodes of a represented tree contain.\<close>

primrec root_ptr :: "rbt \<Rightarrow> ptr" where
  "root_ptr Leaf = NULL"
| "root_ptr (Node c l a r) = a"

fun par_of :: "frame list \<Rightarrow> ptr" where
  "par_of [] = NULL"
| "par_of ((d, c, a, sib) # ks) = a"

lemma root_ptr_node [simp]: "root_ptr (node d c x a y) = a"
  by (cases d) (simp_all add: node_def)

lemma rep_root_ptr: "rep N par p t \<Longrightarrow> p = root_ptr t"
  by (cases t) auto

lemma ctx_par: "ctx N root par hole ks \<Longrightarrow> par = par_of ks"
  by (cases ks) auto

lemma tree_node:
  assumes "tree_rep h (plug ks (node d c x a y))"
  shows "a \<noteq> NULL" "rb_color (rb_nodes h a) = c" "rb_child (rb_nodes h a) d = root_ptr x"
    "rb_child (rb_nodes h a) (opp d) = root_ptr y" "rb_parent (rb_nodes h a) = par_of ks"
  using assms by (auto simp: tree_rep_def rep_plug rep_node dest: rep_root_ptr ctx_par)

lemma tree_dir:
  assumes "tree_rep h (plug ((e, ce, p, s) # ks) t)" "t \<noteq> Leaf"
  shows "DIR (root_ptr t) h = e"
proof -
  define N where "N = rb_nodes h"
  obtain par hole where k: "ctx N (tree_root h) par hole ((e, ce, p, s) # ks)" and r: "rep N par hole t"
    using assms(1) unfolding tree_rep_def rep_plug N_def by blast
  have hole: "hole = root_ptr t" using r by (rule rep_root_ptr)
  then have nz: "hole \<noteq> NULL" "hole \<in> set (ptrs t)" using r rep_root [of N par hole t] assms(2) by auto
  moreover have "set (ptrs t) \<inter> set (ptrs s) = {}"
    using assms(1) unfolding tree_rep_def distinct_plug by auto
  ultimately have "hole = rb_child (N p) RIGHT \<longleftrightarrow> RIGHT = e" using ctx_dir [OF k] by blast
  moreover have "rb_parent (N hole) = p" using r k nz by (cases t) auto
  ultimately show ?thesis by (cases e) (auto simp: DIR_def hole N_def)
qed

lemma tree_black: "tree_rep h (plug ks t) \<Longrightarrow> is_black (root_ptr t) h \<longleftrightarrow> root_col t = BLACK"
  by (cases t) (auto simp: is_black_def tree_rep_def rep_plug)

lemma set_color_rep:
  assumes "tree_rep h (plug ks (node d c x a y))"
  shows "tree_rep (set_color a c' h) (plug ks (node d c' x a y))"
proof -
  define N where "N = rb_nodes h"
  define M where "M = rb_nodes (set_color a c' h)"
  have M: "M a = (N a)\<lparr>rb_color := c'\<rparr>" "\<And>b. b \<noteq> a \<Longrightarrow> M b = N b" by (simp_all add: M_def N_def set_color_def)
  have nin: "a \<notin> set (ptrs x)" "a \<notin> set (ptrs y)" "a \<notin> kptrs ks"
    using assms by (auto simp: tree_rep_def distinct_plug)
  obtain par where k: "ctx N (tree_root h) par a ks" and r: "rep N par a (node d c x a y)"
    using assms by (auto simp: tree_rep_def rep_plug N_def rep_node)
  have "ctx M (tree_root h) par a ks"
    using k M(2) nin(3) ctx_cong [of ks M N] by metis
  moreover have "rep M a q x = rep N a q x" "rep M a q y = rep N a q y" for q
    by (rule rep_cong; use M(2) nin in metis)+
  then have "rep M par a (node d c' x a y)"
    using r M(1) by (auto simp: rep_node)
  ultimately show ?thesis
    using assms by (auto simp: tree_rep_def rep_plug M_def distinct_plug) (auto simp: set_color_def)
qed

lemma same_data_set_color: "a \<in> A \<Longrightarrow> same_data A h (set_color a c h)"
  by (auto simp: same_data_def set_color_def)

end
