(* ===== verification/Rb_Insert.thy ===== *)
theory Rb_Insert
  imports Rb_Shape "HOL-Library.Multiset"
begin

text \<open>
  Insertion into the red-black tree: \<open>balance_tree_insert\<close> computes the pure function \<open>ins_fix\<close>, which keeps the order of the
  nodes and restores the red-black invariant; \<open>rb_insert_node\<close> puts an entity behind all entities whose key is not larger.
\<close>

section \<open>Rebalancing as a function\<close>

text \<open>\<open>ins_fix t ks\<close>: the tree \<open>t\<close> with a red root sits in the context \<open>ks\<close>.\<close>

fun ins_fix :: "rbt \<Rightarrow> frame list \<Rightarrow> rbt" where
  "ins_fix t [] = t"
| "ins_fix t ((d, BLACK, p, s) # ks) = plug ((d, BLACK, p, s) # ks) t"
| "ins_fix t [(d, RED, p, s)] = node d BLACK t p s"
| "ins_fix t ((d, RED, p, s) # (e, c, g, u) # ks) =
     (if root_col u = RED then ins_fix (node e RED (node d BLACK t p s) g (paint BLACK u)) ks
      else if d = e then plug ks (node e BLACK t p (node e RED s g u))
      else case t of Leaf \<Rightarrow> Leaf
        | Node _ x n y \<Rightarrow> if e = LEFT then plug ks (node e BLACK (node e RED s p x) n (node e RED y g u))
                         else plug ks (node e BLACK (node e RED s p y) n (node e RED x g u)))"

lemma ins_fix_inner:
  "root_col u = BLACK \<Longrightarrow> ins_fix (node e c' x n y) ((opp e, RED, p, s) # (e, c, g, u) # ks) =
   plug ks (node e BLACK (node e RED s p x) n (node e RED y g u))"
  by (cases e) (simp_all add: node_def)

lemma ptrs_ins_fix: "t \<noteq> Leaf \<Longrightarrow> ptrs (ins_fix t ks) = ptrs (plug ks t)"
proof (induction t ks rule: ins_fix.induct)
  case (4 t d p s e c g u ks)
  show ?case
  proof (cases "root_col u = RED")
    case True
    then show ?thesis using 4 by (simp add: ptrs_plug node_def split: dir_t.splits)
  next
    case False
    then show ?thesis using 4
      by (cases t; cases d; cases e) (simp_all add: ptrs_plug node_def)
  qed
qed (simp_all add: ptrs_plug node_def split: dir_t.splits)

text \<open>
  The invariant of the climb: the context is a red-black tree except that its innermost node and the root of \<open>t\<close> may both
  be red. \<open>kinv b c ks\<close>: a tree of black height \<open>b\<close> whose root has colour \<open>c\<close> fits into the hole.
\<close>

fun kinvh :: "nat \<Rightarrow> frame list \<Rightarrow> bool" where
  "kinvh b [] \<longleftrightarrow> True"
| "kinvh b ((d, c, a, s) # ks) \<longleftrightarrow> bh s = b \<and> invh s \<and> kinvh (b + (if c = BLACK then 1 else 0)) ks"

fun kinvc :: "frame list \<Rightarrow> bool" where
  "kinvc [] \<longleftrightarrow> True"
| "kinvc ((d, c, a, s) # ks) \<longleftrightarrow> invc s \<and> (c = RED \<longrightarrow> root_col s = BLACK \<and> (case ks of [] \<Rightarrow> True | (_, c', _, _) # _ \<Rightarrow> c' = BLACK))
     \<and> kinvc ks"

definition kcol :: "frame list \<Rightarrow> rb_col" where
  "kcol ks = (case ks of [] \<Rightarrow> BLACK | (_, c, _, _) # _ \<Rightarrow> c)"

lemma invh_plug: "invh (plug ks t) \<longleftrightarrow> invh t \<and> kinvh (bh t) ks"
proof (induction ks t rule: plug.induct)
  case (2 d c a s ks t)
  show ?case
  proof (cases "bh t = bh s")
    case True
    then show ?thesis using 2 bh_node [OF True, of d c a] by auto
  next
    case False
    with 2 show ?thesis by auto
  qed
qed simp

lemma invc_plug: "invc (plug ks t) \<longleftrightarrow> invc t \<and> kinvc ks \<and> (kcol ks = RED \<longrightarrow> root_col t = BLACK)"
proof (induction ks t rule: plug.induct)
  case (2 d c a s ks t)
  then show ?case by (cases ks) (auto simp: kcol_def)
qed (simp add: kcol_def)

lemma ins_fix_inv:
  assumes "t \<noteq> Leaf" "root_col t = RED" "invc t" "invh t" "kinvc ks" "kinvh (bh t) ks"
  shows "invc (ins_fix t ks) \<and> invh (ins_fix t ks)"
  using assms
proof (induction t ks rule: ins_fix.induct)
  case (4 t d p s e c g u ks)
  have c: "c = BLACK" using 4(6) by simp
  have b: "bh t = bh s" "bh s = bh u" "invh s" "invh u" "kinvh (bh s + 1) ks" "root_col s = BLACK" "invc s" "invc u" "kinvc ks"
    using 4(6,7) c by auto
  show ?case
  proof (cases "root_col u = RED")
    case True
    let ?t = "node e RED (node d BLACK t p s) g (paint BLACK u)"
    have pu: "bh (paint BLACK u) = bh u + 1" "invc (paint BLACK u)" "root_col (paint BLACK u) = BLACK"
      using True b(8) by (cases u; simp)+
    have nb: "bh (node d BLACK t p s) = bh s + 1" using bh_node [of t s d BLACK p] b(1) by simp
    have "bh ?t = bh s + 1" using bh_node [of "node d BLACK t p s" "paint BLACK u" e RED g] nb pu(1) b(2) by simp
    then show ?thesis
      using True 4(1) [OF True] 4(4,5) b nb pu by simp
  next
    case False
    then have u: "root_col u = BLACK" by (cases "root_col u") auto
    have k: "invc (plug ks r) \<and> invh (plug ks r)" if "invc r" "invh r" "root_col r = BLACK" "bh r = bh s + 1" for r
      using that b(5,9) by (simp add: invh_plug invc_plug)
    show ?thesis
    proof (cases "d = e")
      case True
      have "bh (node e RED s g u) = bh s" using bh_node [of s u e RED g] b(2) by simp
      then have "bh (node e BLACK t p (node e RED s g u)) = bh s + 1"
        using bh_node [of t "node e RED s g u" e BLACK p] b(1) by simp
      then show ?thesis
        using True u False 4(4,5) b \<open>bh (node e RED s g u) = bh s\<close> by (simp) (intro k; simp)
    next
      case d: False
      then obtain c' x n y where t: "t = node e c' x n y" using 4(2) rbt_node_cases by metis
      have xy: "bh x = bh y" "bh x = bh s" "invc x" "invc y" "invh x" "invh y" "root_col x = BLACK" "root_col y = BLACK"
        using 4(3-5) b(1) bh_node [of x y e c' n] by (auto simp: t)
      let ?l = "node e RED s p x" and ?r = "node e RED y g u"
      have lr: "bh ?l = bh s" "bh ?r = bh s" using bh_node [of s x e RED p] bh_node [of y u e RED g] xy b(2) by simp_all
      then have "bh (node e BLACK ?l n ?r) = bh s + 1" using bh_node [of ?l ?r e BLACK n] by simp
      then have "invc (plug ks (node e BLACK ?l n ?r)) \<and> invh (plug ks (node e BLACK ?l n ?r))"
        using xy b u lr by (intro k) simp_all
      moreover have "d = opp e" using d by (simp add: neq_opp)
      ultimately show ?thesis by (simp only: t ins_fix_inner [OF u])
    qed
  qed
next
  case (2 t d p s ks)
  then show ?case by (simp add: invh_plug invc_plug kcol_def bh_node split: list.splits)
next
  case (3 t d p s)
  then show ?case by simp
qed simp

section \<open>The code computes it\<close>

lemma plug_left: "plug ks (node d c x a y) = plug ((d, c, a, y) # ks) x" by simp
lemma plug_right: "plug ks (node d c x a y) = plug ((opp d, c, a, x) # ks) y" by (simp add: node_opp)

lemma tree_nodeI: "t \<noteq> Leaf \<Longrightarrow> \<exists>c x y. t = node d c x (root_ptr t) y"
  by (cases t; cases d) (auto simp: node_def)

lemma same_data_set_colorI: "same_data A h h' \<Longrightarrow> a \<in> A \<Longrightarrow> same_data A h (set_color a c h')"
  by (rule same_data_trans [OF _ same_data_set_color])

lemma outer_rotation:
  assumes "tree_rep h (plug ks (node e cg (node e cp t p s) g u))"
  shows "\<exists>h'. rb_rotate g (opp e) h = Inr h'
    \<and> tree_rep (set_color p BLACK (set_color g RED h')) (plug ks (node e BLACK t p (node e RED s g u)))
    \<and> same_data (insert p (insert g (set (ptrs (plug ks (node e cg (node e cp t p s) g u)))))) h
        (set_color p BLACK (set_color g RED h'))"
proof -
  let ?A = "set (ptrs (plug ks (node e cg (node e cp t p s) g u)))"
  have "tree_rep h (plug ks (node (opp e) cg u g (node (opp e) cp s p t)))"
    using assms by (simp add: node_opp)
  from rb_rotate_rep [OF this] obtain h' where h': "rb_rotate g (opp e) h = Inr h'"
      "tree_rep h' (plug ks (node (opp e) cp (node (opp e) cg u g s) p t))" "same_data ?A h h'"
    by (auto simp: node_opp)
  have "tree_rep h' (plug ((opp e, cp, p, t) # ks) (node e cg s g u))"
    using h'(2) by (simp add: node_opp)
  then have "tree_rep (set_color g RED h') (plug ((opp e, cp, p, t) # ks) (node e RED s g u))"
    by (rule set_color_rep)
  then have "tree_rep (set_color g RED h') (plug ks (node e cp t p (node e RED s g u)))"
    by (simp add: node_opp)
  then have "tree_rep (set_color p BLACK (set_color g RED h')) (plug ks (node e BLACK t p (node e RED s g u)))"
    by (rule set_color_rep)
  moreover have "same_data (insert p (insert g ?A)) h (set_color p BLACK (set_color g RED h'))"
    using h'(3) by (intro same_data_set_colorI) (auto simp: same_data_def)
  ultimately show ?thesis using h'(1) by blast
qed

lemma inner_rotation:
  assumes "tree_rep h (plug ks (node e cg (node e cp s p (node e cn x n y)) g u))"
  shows "\<exists>h'. rb_rotate p e h = Inr h' \<and> rb_child (rb_nodes h' g) e = n
    \<and> tree_rep h' (plug ks (node e cg (node e cn (node e cp s p x) n y) g u))
    \<and> same_data (set (ptrs (plug ks (node e cg (node e cp s p (node e cn x n y)) g u)))) h h'"
proof -
  from rb_rotate_rep [of h "(e, cg, g, u) # ks" e cp s p cn x n y] assms
  obtain h' where h': "rb_rotate p e h = Inr h'" "tree_rep h' (plug ks (node e cg (node e cn (node e cp s p x) n y) g u))"
      "same_data (set (ptrs (plug ks (node e cg (node e cp s p (node e cn x n y)) g u)))) h h'"
    by auto
  moreover have "rb_child (rb_nodes h' g) e = n" using tree_node(3) [OF h'(2)] by simp
  ultimately show ?thesis by blast
qed

lemma recolour:
  assumes "tree_rep h (plug ks (node e c (node d cp t p s) g u))" "root_col u = RED"
  shows "tree_rep (set_color g RED (set_color (root_ptr u) BLACK (set_color p BLACK h)))
      (plug ks (node e RED (node d BLACK t p s) g (paint BLACK u)))"
proof -
  obtain cu x y where u: "u = node LEFT cu x (root_ptr u) y" using assms(2) tree_nodeI [of u LEFT] by fastforce
  have "tree_rep h (plug ((e, c, g, u) # ks) (node d cp t p s))" using assms(1) by simp
  from set_color_rep [OF this, of BLACK]
  have "tree_rep (set_color p BLACK h) (plug ((opp e, c, g, node d BLACK t p s) # ks) (node LEFT cu x (root_ptr u) y))"
    using u by (simp add: node_opp)
  from set_color_rep [OF this, of BLACK]
  have "tree_rep (set_color (root_ptr u) BLACK (set_color p BLACK h)) (plug ks (node e c (node d BLACK t p s) g (node LEFT BLACK x (root_ptr u) y)))"
    by (simp add: node_opp)
  moreover have "node LEFT BLACK x (root_ptr u) y = paint BLACK u" using u inv_node(2) by metis
  ultimately show ?thesis using set_color_rep by simp
qed

lemma balance_insert_loop_rep:
  assumes "tree_rep h (plug ks t)" "t \<noteq> Leaf" "ks \<noteq> []" "length ks \<le> fuel"
  shows "\<exists>h'. balance_insert_loop fuel (root_ptr t) (par_of ks) h = Inr h' \<and> tree_rep h' (ins_fix t ks)
    \<and> same_data (set (ptrs (plug ks t))) h h'"
  using assms
proof (induction t ks arbitrary: h fuel rule: ins_fix.induct)
  case (2 t d p s ks)
  then obtain f where "fuel = Suc f" by (cases fuel) auto
  moreover have "rb_color (rb_nodes h p) = BLACK" using tree_node(2) [of h ks d BLACK t p s] 2(1) by simp
  ultimately show ?case using 2 by (simp add: same_data_def)
next
  case (3 t d p s)
  then obtain f where "fuel = Suc f" by (cases fuel) auto
  moreover have "rb_color (rb_nodes h p) = RED" "rb_parent (rb_nodes h p) = NULL"
    using tree_node(2,5) [of h "[]" d RED t p s] 3(1) by simp_all
  ultimately show ?case
    using set_color_rep [of h "[]" d RED t p s BLACK] 3 by (simp add: same_data_set_color)
next
  case (4 t d p s e c g u ks)
  then obtain f where f: "fuel = Suc f" "length ks \<le> f" by (cases fuel) auto
  let ?T = "plug ks (node e c (node d RED t p s) g u)"
  have T: "tree_rep h ?T" using 4(2) by simp
  have P: "rb_color (rb_nodes h p) = RED" "rb_parent (rb_nodes h p) = g" "p \<noteq> NULL"
    using tree_node(1,2,5) [of h "(e, c, g, u) # ks" d RED t p s] T by simp_all
  have d: "DIR p h = e" using tree_dir [of h e c g u ks "node d RED t p s"] T by simp
  have G: "g \<noteq> NULL" "rb_child (rb_nodes h g) (opp e) = root_ptr u" "rb_parent (rb_nodes h g) = par_of ks"
    using tree_node [OF T] by simp_all
  have u: "is_black (root_ptr u) h \<longleftrightarrow> root_col u = BLACK"
    using tree_black [of h "(opp e, c, g, node d RED t p s) # ks" u] T by (simp add: node_opp)
  have mem: "p \<in> set (ptrs ?T)" "g \<in> set (ptrs ?T)" "u \<noteq> Leaf \<Longrightarrow> root_ptr u \<in> set (ptrs ?T)"
    by (cases u; simp add: ptrs_plug)+
  show ?case
  proof (cases "root_col u = RED")
    case True
    let ?t = "node e RED (node d BLACK t p s) g (paint BLACK u)"
    let ?h = "set_color g RED (set_color (root_ptr u) BLACK (set_color p BLACK h))"
    have R: "tree_rep ?h (plug ks ?t)" using T True by (rule recolour)
    have "u \<noteq> Leaf" using True by auto
    then have D: "same_data (set (ptrs ?T)) h ?h"
      using mem by (intro same_data_set_colorI same_data_set_color) auto
    have par: "rb_parent (rb_nodes ?h g) = par_of ks" using tree_node(5) [OF R] .
    have step: "balance_insert_loop fuel (root_ptr t) p h
        = (if par_of ks \<noteq> NULL then balance_insert_loop f g (par_of ks) ?h else Inr ?h)"
      using True P G d u par by (simp add: f Let_def)
    show ?thesis
    proof (cases ks)
      case Nil
      then show ?thesis using step R D True by simp
    next
      case (Cons k ks')
      have nz: "par_of ks \<noteq> NULL" using R unfolding tree_rep_def rep_plug by (auto simp: Cons) (cases k; auto)+
      have "set (ptrs (plug ks ?t)) = set (ptrs ?T)" by (simp add: ptrs_plug)
      then show ?thesis
        using 4(1) [OF True R] nz step D f(2) Cons True same_data_trans by fastforce
    qed
  next
    case False
    then have u: "root_col u = BLACK" "is_black (root_ptr u) h" using u by simp_all
    show ?thesis
    proof (cases "d = e")
      case True
      have "NULL \<notin> set (ptrs ?T)" using T rep_nonnull by (auto simp: tree_rep_def)
      then have "root_ptr t \<noteq> NULL" using 4(3) by (cases t) (auto simp: ptrs_plug)
      then have "root_ptr t \<noteq> rb_child (rb_nodes h p) (opp e)"
        using T tree_node(4) [of h "(e, c, g, u) # ks" d RED t p s] True 4(3)
        by (cases t; cases s) (auto simp: tree_rep_def distinct_plug)
      then show ?thesis
        using outer_rotation [of h ks e c RED t p s g u] T True P G(1,2) d u mem
        by (auto simp: f Let_def insert_absorb)
    next
      case ne: False
      then have de: "d = opp e" by (simp add: neq_opp)
      obtain cn x y where t: "t = node e cn x (root_ptr t) y" using tree_nodeI [OF 4(3)] by blast
      have T': "tree_rep h (plug ks (node e c (node e RED s p (node e cn x (root_ptr t) y)) g u))"
        using T t by (simp add: de node_opp)
      have in': "root_ptr t = rb_child (rb_nodes h p) (opp e)"
        using tree_node(3) [of h "(e, c, g, u) # ks" d RED t p s] T de by simp
      obtain h1 where h1: "rb_rotate p e h = Inr h1" "rb_child (rb_nodes h1 g) e = root_ptr t"
          "tree_rep h1 (plug ks (node e c (node e cn (node e RED s p x) (root_ptr t) y) g u))"
          "same_data (set (ptrs ?T)) h h1"
        using inner_rotation [OF T'] t by (auto simp: de node_opp)
      have "set (ptrs (plug ks (node e c (node e cn (node e RED s p x) (root_ptr t) y) g u))) = set (ptrs ?T)"
        by (subst (2) t) (auto simp: ptrs_plug)
      then obtain h2 where h2: "rb_rotate g (opp e) h1 = Inr h2"
          "tree_rep (set_color (root_ptr t) BLACK (set_color g RED h2)) (plug ks (node e BLACK (node e RED s p x) (root_ptr t) (node e RED y g u)))"
          "same_data (insert (root_ptr t) (insert g (set (ptrs ?T)))) h1 (set_color (root_ptr t) BLACK (set_color g RED h2))"
        using outer_rotation [OF h1(3)] by auto
      have nt: "root_ptr t \<noteq> NULL" "root_ptr t \<in> set (ptrs ?T)"
        using tree_node(1) [of h "(opp e, RED, p, s) # (e, c, g, u) # ks" e cn x "root_ptr t" y] T' 4(3)
        by (auto simp: node_opp) (cases t; simp add: ptrs_plug)+
      have fx: "ins_fix t ((d, RED, p, s) # (e, c, g, u) # ks)
          = plug ks (node e BLACK (node e RED s p x) (root_ptr t) (node e RED y g u))"
        unfolding de by (subst t) (rule ins_fix_inner [OF u(1)])
      show ?thesis
        using h1 h2 P G(1,2) d u(2) in' nt mem fx same_data_trans
        by (auto simp: f Let_def insert_absorb simp del: ins_fix.simps)
    qed
  qed
qed simp

section \<open>Placing a new node\<close>

fun descend :: "(ptr \<Rightarrow> bool) \<Rightarrow> rbt \<Rightarrow> frame list \<Rightarrow> frame list" where
  "descend lt Leaf ks = ks"
| "descend lt (Node c l a r) ks = (if lt a then descend lt l ((LEFT, c, a, r) # ks) else descend lt r ((RIGHT, c, a, l) # ks))"

fun link_of :: "frame list \<Rightarrow> link" where
  "link_of [] = None"
| "link_of ((d, c, a, s) # ks) = Some (a, d)"

lemma plug_descend: "plug (descend lt t ks) Leaf = plug ks t"
  by (induction lt t ks rule: descend.induct) (auto simp: node_def)

lemma descend_order:
  fixes k :: "ptr \<Rightarrow> u64"
  assumes "sorted (map k (lctx ks @ ptrs t @ rctx ks))"
    and "\<forall>a \<in> set (lctx ks). k a \<le> key" "\<forall>a \<in> set (rctx ks). key < k a"
  shows "(\<forall>a \<in> set (lctx (descend (\<lambda>a. key < k a) t ks)). k a \<le> key)
    \<and> (\<forall>a \<in> set (rctx (descend (\<lambda>a. key < k a) t ks)). key < k a)"
  using assms
proof (induction t arbitrary: ks)
  case (Node c l a r)
  have s: "\<forall>b \<in> set (ptrs l). k b \<le> k a" "\<forall>b \<in> set (ptrs r). k a \<le> k b"
    using Node.prems(1) by (simp_all add: sorted_append)
  show ?case
  proof (cases "key < k a")
    case True
    then have "\<forall>b \<in> set (ptrs r). key < k b" using s(2) by force
    then show ?thesis using True Node.IH(1) [of "(LEFT, c, a, r) # ks"] Node.prems by (simp add: ball_Un)
  next
    case False
    then have "k a \<le> key" by simp
    with s(1) have "\<forall>b \<in> set (ptrs l). k b \<le> key" using order_trans by blast
    with \<open>k a \<le> key\<close> show ?thesis using False Node.IH(2) [of "(RIGHT, c, a, l) # ks"] Node.prems by auto
  qed
qed simp

lemma get_link_rep: "tree_rep h (plug ks t) \<Longrightarrow> get_link (link_of ks) h = root_ptr t"
  by (cases ks) (auto simp: get_link_def tree_rep_def rep_plug dest: rep_root_ptr)

lemma find_link_rep:
  assumes "tree_rep h (plug ks t)" "length (ptrs t) < fuel"
    and "lt = (\<lambda>a. key < entity_key es (rb_se (rb_nodes h a)))"
  shows "find_link fuel es key (link_of ks) (par_of ks) (lctx ks = []) h =
    Inr (link_of (descend lt t ks), par_of (descend lt t ks), lctx (descend lt t ks) = [])"
  using assms(1,2)
proof (induction t arbitrary: fuel ks)
  case Leaf
  then show ?case using get_link_rep [OF Leaf(1)] by (cases fuel) simp_all
next
  case (Node c l a r)
  obtain f where f: "fuel = Suc f" using Node.prems(2) by (cases fuel) auto
  have nz: "a \<noteq> NULL" using Node.prems(1) by (auto simp: tree_rep_def rep_plug)
  have "tree_rep h (plug ((LEFT, c, a, r) # ks) l)" "tree_rep h (plug ((RIGHT, c, a, l) # ks) r)"
    using Node.prems(1) by (simp_all add: node_def)
  note IH = Node.IH(1) [OF this(1), of f] Node.IH(2) [OF this(2), of f]
  show ?case
    using IH Node.prems(2) get_link_rep [OF Node.prems(1)] nz
    by (simp add: f assms(3))
qed

lemma tree_rep_cong:
  assumes "\<And>a. a \<in> set (ptrs t) \<Longrightarrow> rb_nodes h' a = rb_nodes h a" "tree_root h' = tree_root h"
  shows "tree_rep h' t = tree_rep h t"
  using rep_cong [of t "rb_nodes h'" "rb_nodes h"] assms by (simp add: tree_rep_def)

lemma set_link_facts [simp]:
  "tree_leftmost (set_link l v h) = tree_leftmost h" "rb_se (rb_nodes (set_link l v h) a) = rb_se (rb_nodes h a)"
  by (simp_all add: set_link_def set_child_def split: option.splits)

lemma set_link_other: "a \<notin> set (lctx ks) \<Longrightarrow> a \<notin> set (rctx ks) \<Longrightarrow> rb_nodes (set_link (link_of ks) v h) a = rb_nodes h a"
proof (cases ks)
  case (Cons k ks')
  obtain d c b s where k: "k = (d, c, b, s)" by (cases k)
  assume "a \<notin> set (lctx ks)" "a \<notin> set (rctx ks)"
  then have "a \<noteq> b" by (cases d) (auto simp: Cons k)
  then show ?thesis by (simp add: Cons k set_link_def set_child_def)
qed (simp add: set_link_def)

lemma link_leaf_rep:
  assumes "tree_rep h (plug ks Leaf)" "run \<notin> set (ptrs (plug ks Leaf))" "run \<noteq> NULL"
    and "rb_color (rb_nodes h run) = RED" "\<And>d. rb_child (rb_nodes h run) d = NULL" "rb_parent (rb_nodes h run) = par_of ks"
  shows "tree_rep (set_link (link_of ks) run h) (plug ks (Node RED Leaf run Leaf))"
proof -
  define h' where "h' = set_link (link_of ks) run h"
  obtain par where k: "ctx (rb_nodes h) (tree_root h) par NULL ks"
    using assms(1) by (auto simp: tree_rep_def rep_plug)
  have par: "par = par_of ks" using k by (rule ctx_par)
  have D: "distinct (lctx ks @ rctx ks)" "run \<notin> kptrs ks"
    using assms(1,2) by (auto simp: tree_rep_def distinct_plug ptrs_plug kptrs_def)
  have "ctx (rb_nodes h') (tree_root h') par run ks"
  proof (rule ctx_replace [OF k D(1)])
    show "rb_nodes h' a = rb_nodes h a" if "a \<in> kptrs ks" "a \<noteq> par" for a
      using that par by (cases ks) (auto simp: h'_def set_link_def set_child_def)
    show "rb_nodes h' par = (rb_nodes h par)\<lparr>rb_child := (rb_child (rb_nodes h par))(d := run)\<rparr>"
      if "ks = (d, c, a, sib) # ks'" for d c a sib ks'
      using that par by (simp add: h'_def set_link_def set_child_def)
    show "tree_root h' = (if ks = [] then run else tree_root h)"
      by (cases ks) (auto simp: h'_def set_link_def set_child_def)
  qed
  moreover have "rb_nodes h' run = rb_nodes h run"
    using D(2) by (cases ks) (auto simp: h'_def set_link_def set_child_def)
  ultimately have "rep (rb_nodes h') NULL (tree_root h') (plug ks (Node RED Leaf run Leaf))"
    using assms(3-6) par by (auto simp: rep_plug)
  then show ?thesis
    using D assms(2) by (auto simp: tree_rep_def h'_def distinct_plug)
qed

section \<open>Insertion\<close>

text \<open>
  The queue a tree stands for: its entities from left to right. \<open>rb_inv\<close> is the invariant of the scheduler's tree; the
  root may be red, because the climb of \<open>balance_tree_insert\<close> does not repaint it.
\<close>

definition rb_queue :: "rb_heap \<Rightarrow> rbt \<Rightarrow> ptr list" where
  "rb_queue h t = map (\<lambda>a. rb_se (rb_nodes h a)) (ptrs t)"

definition rb_inv :: "entities \<Rightarrow> rb_heap \<Rightarrow> rbt \<Rightarrow> bool" where
  "rb_inv es h t \<longleftrightarrow> tree_rep h t \<and> invc t \<and> invh t \<and> sorted (map (entity_key es) (rb_queue h t))
     \<and> tree_leftmost h = (case ptrs t of [] \<Rightarrow> NULL | a # _ \<Rightarrow> a)"

definition enqueue :: "entities \<Rightarrow> ptr \<Rightarrow> ptr list \<Rightarrow> ptr list" where
  "enqueue es se q = takeWhile (\<lambda>x. entity_key es x \<le> entity_key es se) q
     @ se # dropWhile (\<lambda>x. entity_key es x \<le> entity_key es se) q"

lemma enqueue_append:
  assumes "\<forall>x \<in> set xs. entity_key es x \<le> entity_key es se" "\<forall>y \<in> set ys. entity_key es se < entity_key es y"
  shows "enqueue es se (xs @ ys) = xs @ se # ys"
proof -
  let ?P = "\<lambda>x. entity_key es x \<le> entity_key es se"
  have "takeWhile ?P ys = []" "dropWhile ?P ys = ys" using assms(2) by (cases ys; force)+
  moreover have "takeWhile ?P (xs @ ys) = xs @ takeWhile ?P ys" "dropWhile ?P (xs @ ys) = dropWhile ?P ys"
    using assms(1) by (auto intro: takeWhile_append2 dropWhile_append2)
  ultimately show ?thesis by (simp add: enqueue_def)
qed

lemma enqueue_sorted:
  assumes "sorted (map (entity_key es) q)"
  shows "sorted (map (entity_key es) (enqueue es se q))"
proof -
  let ?P = "\<lambda>x. entity_key es x \<le> entity_key es se"
  have "\<forall>y \<in> set (dropWhile ?P q). entity_key es se < entity_key es y"
    using assms by (induction q) (auto simp: not_le intro: less_le_trans)
  moreover have "\<forall>x \<in> set (takeWhile ?P q). ?P x" by (auto dest: set_takeWhileD)
  moreover have "sorted (map (entity_key es) (takeWhile ?P q @ dropWhile ?P q))" using assms by simp
  moreover have "sorted (map f (A @ b # B))" if "sorted (map f (A @ B))" "\<forall>x \<in> set A. f x \<le> f b" "\<forall>y \<in> set B. f b < f y"
    for f :: "ptr \<Rightarrow> u64" and A b B
    using that by (auto simp: sorted_append less_imp_le)
  ultimately show ?thesis unfolding enqueue_def by blast
qed

lemma mset_enqueue: "mset (enqueue es se q) = add_mset se (mset q)"
proof -
  have "mset q = mset (takeWhile P q) + mset (dropWhile P q)" for P
    by (metis mset_append takeWhile_dropWhile_id)
  then show ?thesis by (simp add: enqueue_def)
qed

lemma balance_tree_insert_rep:
  assumes "tree_rep h (plug ks (Node RED Leaf run Leaf))" "invc (plug ks Leaf)" "invh (plug ks Leaf)"
  shows "\<exists>h' t'. balance_tree_insert run (par_of ks) h = Inr h' \<and> tree_rep h' t' \<and> invc t' \<and> invh t'
    \<and> ptrs t' = lctx ks @ run # rctx ks \<and> same_data (set (ptrs t')) h h'"
proof (cases "ks = []")
  case True
  have "node LEFT c Leaf run Leaf = Node c Leaf run Leaf" for c by (simp add: node_def)
  then show ?thesis
    using True assms(1) set_color_rep [of h "[]" LEFT RED Leaf run Leaf BLACK]
    by (auto simp: balance_tree_insert_def intro!: exI [of _ "Node BLACK Leaf run Leaf"] same_data_set_color)
next
  case False
  let ?t = "Node RED Leaf run Leaf"
  have p: "par_of ks \<noteq> NULL" using assms(1) False unfolding tree_rep_def rep_plug by (cases ks) auto
  have "length ks \<le> TREE_BOUND"
    using ctx_bound [of ks ?t] ptrs_bound [OF assms(1)] by simp
  from balance_insert_loop_rep [OF assms(1) _ False this] p
  obtain h' where h': "balance_tree_insert run (par_of ks) h = Inr h'" "tree_rep h' (ins_fix ?t ks)"
      "same_data (set (ptrs (plug ks ?t))) h h'"
    by (auto simp: balance_tree_insert_def)
  moreover have "invc (ins_fix ?t ks) \<and> invh (ins_fix ?t ks)"
    using assms(2,3) by (intro ins_fix_inv) (simp_all add: invc_plug invh_plug)
  moreover have "ptrs (ins_fix ?t ks) = ptrs (plug ks ?t)" by (simp add: ptrs_ins_fix)
  ultimately show ?thesis by (auto simp: ptrs_plug)
qed

lemma rb_insert_node_spec:
  assumes inv: "rb_inv es h t" and run: "run \<noteq> NULL" "run \<notin> set (ptrs t)"
  shows "\<exists>h' t'. rb_insert_node es se run h = Inr h' \<and> rb_inv es h' t' \<and> rb_queue h' t' = enqueue es se (rb_queue h t)
    \<and> set (ptrs t') = insert run (set (ptrs t)) \<and> (\<forall>a. a \<notin> set (ptrs t') \<longrightarrow> rb_nodes h' a = rb_nodes h a)"
proof -
  define h1 where "h1 = set_se run se (set_child run LEFT NULL (set_child run RIGHT NULL (set_color run RED h)))"
  define k where "k = (\<lambda>a. entity_key es (rb_se (rb_nodes h1 a)))"
  define ks where "ks = descend (\<lambda>a. entity_key es se < k a) t []"
  have h1: "tree_leftmost h1 = tree_leftmost h" "tree_root h1 = tree_root h" "\<And>a. a \<noteq> run \<Longrightarrow> rb_nodes h1 a = rb_nodes h a"
      "rb_color (rb_nodes h1 run) = RED" "\<And>d. rb_child (rb_nodes h1 run) d = NULL" "rb_se (rb_nodes h1 run) = se"
    subgoal by (simp add: h1_def set_se_def set_child_def set_color_def)
    subgoal by (simp add: h1_def set_se_def set_child_def set_color_def)
    subgoal by (simp add: h1_def set_se_def set_child_def set_color_def)
    subgoal by (simp add: h1_def set_se_def set_child_def set_color_def)
    subgoal for d by (cases d) (simp_all add: h1_def set_se_def set_child_def set_color_def)
    subgoal by (simp add: h1_def set_se_def set_child_def set_color_def)
    done
  have T: "tree_rep h t" "invc t" "invh t" "sorted (map (entity_key es) (rb_queue h t))"
    using inv by (simp_all add: rb_inv_def)
  have plug: "plug ks Leaf = t" by (simp add: ks_def plug_descend)
  then have pt: "ptrs t = lctx ks @ rctx ks" using ptrs_plug [of ks Leaf] by simp
  have "tree_rep h1 t = tree_rep h t"
  proof (rule tree_rep_cong)
    show "rb_nodes h1 a = rb_nodes h a" if "a \<in> set (ptrs t)" for a
      by (rule h1(3)) (use that run(2) in blast)
  qed (rule h1(2))
  with T(1) have R1: "tree_rep h1 t" by simp
  have find: "find_link TREE_BOUND es (entity_key es se) None NULL True h1 = Inr (link_of ks, par_of ks, lctx ks = [])"
    using find_link_rep [of h1 "[]" t TREE_BOUND _ "entity_key es se" es] R1 ptrs_bound [OF R1] by (simp add: ks_def k_def)
  define h3 where "h3 = set_parent run (par_of ks) (if lctx ks = [] then h1\<lparr>tree_leftmost := run\<rparr> else h1)"
  define h4 where "h4 = set_link (link_of ks) run h3"
  have h3: "tree_root h3 = tree_root h1" "\<And>a. a \<noteq> run \<Longrightarrow> rb_nodes h3 a = rb_nodes h a"
      "rb_nodes h3 run = (rb_nodes h1 run)\<lparr>rb_parent := par_of ks\<rparr>"
      "tree_leftmost h3 = (if lctx ks = [] then run else tree_leftmost h)"
    using h1 by (simp_all add: h3_def set_parent_def)
  have "tree_rep h3 t = tree_rep h t"
  proof (rule tree_rep_cong)
    show "rb_nodes h3 a = rb_nodes h a" if "a \<in> set (ptrs t)" for a
      by (rule h3(2)) (use that run(2) in blast)
  qed (simp only: h3(1) h1(2))
  with T(1) have "tree_rep h3 (plug ks Leaf)" by (simp add: plug)
  then have R4: "tree_rep h4 (plug ks (Node RED Leaf run Leaf))"
    unfolding h4_def using run h1(4,5) h3(3) by (intro link_leaf_rep) (simp_all add: plug)
  obtain h' t' where h': "balance_tree_insert run (par_of ks) h4 = Inr h'" "tree_rep h' t'" "invc t'" "invh t'"
      "ptrs t' = lctx ks @ run # rctx ks" "same_data (set (ptrs t')) h4 h'"
    using balance_tree_insert_rep [OF R4] T(2,3) plug by auto
  have ins: "rb_insert_node es se run h = Inr h'"
    using run(1) find h'(1) by (simp add: rb_insert_node_def Let_def h1_def [symmetric]) (simp add: h3_def h4_def split: if_splits)
  have h4: "tree_leftmost h4 = tree_leftmost h3" "\<And>a. rb_se (rb_nodes h4 a) = rb_se (rb_nodes h3 a)"
      "\<And>a. a \<notin> set (ptrs t') \<Longrightarrow> rb_nodes h4 a = rb_nodes h3 a"
    using h'(5) by (simp_all add: h4_def set_link_other)
  have se: "rb_se (rb_nodes h' a) = (if a = run then se else rb_se (rb_nodes h a))" for a
    using h'(6) h4(2) [of a] h3(2) [of a] h3(3) h1(6) by (simp add: same_data_def)
  have kt: "k a = entity_key es (rb_se (rb_nodes h a))" if "a \<in> set (ptrs t)" for a
    using h1(3) [of a] that run(2) unfolding k_def by metis
  then have "map k (ptrs t) = map (entity_key es) (rb_queue h t)" by (simp add: rb_queue_def)
  then have ord: "(\<forall>a \<in> set (lctx ks). k a \<le> entity_key es se) \<and> (\<forall>a \<in> set (rctx ks). entity_key es se < k a)"
    unfolding ks_def using T(4) by (intro descend_order) simp_all
  have sq: "map (\<lambda>a. rb_se (rb_nodes h' a)) xs = map (\<lambda>a. rb_se (rb_nodes h a)) xs" if "run \<notin> set xs" for xs
    using that se by (intro map_cong) auto
  have Q: "rb_queue h' t' = enqueue es se (rb_queue h t)"
  proof -
    let ?s = "\<lambda>a. rb_se (rb_nodes h a)"
    have "rb_queue h' t' = map ?s (lctx ks) @ se # map ?s (rctx ks)"
      using run(2) se [of run] sq [of "lctx ks"] sq [of "rctx ks"] by (simp add: rb_queue_def h'(5) pt)
    also have "\<dots> = enqueue es se (map ?s (lctx ks) @ map ?s (rctx ks))"
      by (rule enqueue_append [symmetric]) (use ord kt in \<open>auto simp: pt\<close>)
    finally show ?thesis by (simp add: rb_queue_def pt)
  qed
  have "tree_leftmost h' = (case ptrs t' of [] \<Rightarrow> NULL | a # _ \<Rightarrow> a)"
    using inv h'(5,6) h4(1) h3(4) pt by (cases "lctx ks") (auto simp: rb_inv_def same_data_def)
  then have "rb_inv es h' t'"
    using h'(2-4) Q enqueue_sorted [OF T(4), of se] by (simp add: rb_inv_def)
  moreover have "\<forall>a. a \<notin> set (ptrs t') \<longrightarrow> rb_nodes h' a = rb_nodes h a"
    using h'(5,6) h4(3) h3(2) by (auto simp: same_data_def)
  ultimately show ?thesis using ins Q h'(5) pt by (auto intro!: exI [of _ h'] exI [of _ t'])
qed

text \<open>
  C6: insertion into the run queue. On a red-black tree that is sorted by virtual runtime, with the cached leftmost node, \<open>rb_insert\<close>
  returns; the tree is again sorted, has no red node below a red one and the same number of black nodes on every path, and its leftmost
  node is cached. The queue it stands for is the old one with the entity put behind all entities whose runtime is not larger. No node
  outside the tree is written.
\<close>

theorem rb_insert_node_correct:
  assumes "rb_inv es h t" "run \<noteq> NULL" "run \<notin> set (ptrs t)"
  shows "\<exists>h' t'. rb_insert_node es se run h = Inr h' \<and> rb_inv es h' t' \<and> rb_queue h' t' = enqueue es se (rb_queue h t)
    \<and> set (ptrs t') = insert run (set (ptrs t)) \<and> (\<forall>a. a \<notin> set (ptrs t') \<longrightarrow> rb_nodes h' a = rb_nodes h a)"
  using assms by (rule rb_insert_node_spec)

definition example_tree :: rb_heap where
  "example_tree = \<lparr>tree_root = 1, tree_leftmost = 1,
     rb_nodes = (\<lambda>a. \<lparr>rb_child = (\<lambda>d. NULL), rb_parent = NULL, rb_color = BLACK, rb_se = 10\<rparr>)\<rparr>"

definition example_entities :: entities where
  "example_entities = (\<lambda>a. \<lparr>vruntime = if a = 10 then 5 else 3, exec_start_time = 0\<rparr>)"

theorem rb_insert_node_correct_witness:
  "\<exists>h' t'. rb_insert_node example_entities 20 2 example_tree = Inr h' \<and> rb_inv example_entities h' t' \<and> rb_queue h' t' = [20, 10]"
proof -
  let ?t = "Node BLACK Leaf 1 Leaf"
  have "rb_inv example_entities example_tree ?t"
    by (simp add: rb_inv_def tree_rep_def example_tree_def rb_queue_def)
  from rb_insert_node_correct [OF this, of 2 20]
  obtain h' t' where "rb_insert_node example_entities 20 2 example_tree = Inr h'" "rb_inv example_entities h' t'"
      "rb_queue h' t' = enqueue example_entities 20 (rb_queue example_tree ?t)"
    by auto
  then show ?thesis
    by (auto simp: enqueue_def rb_queue_def example_tree_def entity_key_def example_entities_def)
qed

end
