(* ===== verification/Libc_Math.thy ===== *)
theory Libc_Math
  imports Libc_String "HOL-Library.Signed_Division"
begin

text \<open>
  \<open>libc/math\<close>: \<open>ceildiv\<close>, \<open>ceillog2\<close>, \<open>itoa\<close>, \<open>max\<close> and \<open>min\<close>. \<open>ceildiv\<close> works on C \<open>int\<close>s whose
  division truncates towards zero; \<open>itoa\<close> writes into the byte memory of \<open>Libc_String\<close>.
\<close>

section \<open>The routines\<close>

definition ceildiv :: "int \<Rightarrow> int \<Rightarrow> int" where
  "ceildiv x y = 1 + (x - 1) sdiv y"

function ceillog2_loop :: "u64 \<Rightarrow> u8 \<Rightarrow> bool \<Rightarrow> u8 \<times> bool" where
  "ceillog2_loop v r sp =
     (if v > 1 then ceillog2_loop (drop_bit 1 v) (r + 1) (if v AND 1 \<noteq> 0 then True else sp)
      else (r, sp))"
  by pat_completeness auto
termination
proof (relation "measure (\<lambda>(v, r, sp). unat v)")
  fix v :: u64 and r :: u8 and sp :: bool
  assume "1 < v"
  then show "((drop_bit 1 v, r + 1, if v AND 1 \<noteq> 0 then True else sp), v, r, sp)
      \<in> measure (\<lambda>(v, r, sp). unat v)"
    by (simp add: drop_bit_eq_div word_less_nat_alt unat_div)
qed simp

definition ceillog2 :: "u64 \<Rightarrow> u8" where
  "ceillog2 v =
     (if v = 0 then 0 else if v = 1 then 1
      else case ceillog2_loop v 0 False of (r, sp) \<Rightarrow> r + (if sp then 1 else 0))"

definition max_u64 :: "u64 \<Rightarrow> u64 \<Rightarrow> u64" where
  "max_u64 a b = (if a > b then a else b)"

definition min_u64 :: "u64 \<Rightarrow> u64 \<Rightarrow> u64" where
  "min_u64 a b = (if a < b then a else b)"

text \<open>The character of one digit: the remainder is held in an \<open>int\<close>, the sum is cut to a \<open>char\<close>.\<close>

definition digit_char :: "bool \<Rightarrow> u32 \<Rightarrow> u8" where
  "digit_char caps r =
     (if sint r < 10 then ucast r + 48 else ucast r + (if caps then 65 else 97) - 10)"

text \<open>
  The digit loop runs for ever when the base is 1 and the number is not 0, and divides by zero
  when the base is 0.
\<close>

function itoa_digits :: "u32 \<Rightarrow> bool \<Rightarrow> u32 \<Rightarrow> mem \<Rightarrow> ptr \<Rightarrow> (mem \<times> ptr) res" where
  "itoa_digits base caps ud m p =
     (if base = 0 then Inl DivideError
      else if base = 1 \<and> ud \<noteq> 0 then Inl Diverges
      else let m = m(p := digit_char caps (ud mod base)); p = p + 1; ud = ud div base
           in if ud \<noteq> 0 then itoa_digits base caps ud m p else Inr (m, p))"
  by pat_completeness auto
termination
proof (relation "measure (\<lambda>(base, caps, ud, m, p). unat ud)", goal_cases)
  case (2 base caps ud m p x xa xb)
  then have "unat ud \<noteq> 0" "unat base \<noteq> 0" "unat base \<noteq> 1"
    by (auto simp: word_unat_eq_iff unat_div div_greater_zero_iff)
  then show ?case
    using 2 by (simp add: unat_div)
qed simp

function itoa_reverse :: "mem \<Rightarrow> ptr \<Rightarrow> ptr \<Rightarrow> mem" where
  "itoa_reverse m p1 p2 =
     (if p1 < p2 then itoa_reverse (m(p1 := m p2, p2 := m p1)) (p1 + 1) (p2 - 1) else m)"
  by pat_completeness auto
termination
proof (relation "measure (\<lambda>(m, p1, p2). unat p2 - unat p1)", goal_cases)
  case (2 m p1 p2)
  then show ?case
    using unat_succ_if_less [of p1 p2] unat_pred_if_less [of p1 p2] by (simp add: word_less_nat_alt)
qed simp

definition itoa :: "mem \<Rightarrow> ptr \<Rightarrow> u32 \<Rightarrow> u32 \<Rightarrow> bool \<Rightarrow> mem res" where
  "itoa m buf base d caps =
     (let neg = (base = 10 \<and> sint d < 0);
          m = (if neg then m(buf := 45) else m);
          p1 = (if neg then buf + 1 else buf);
          ud = (if neg then - d else d)
      in bind_res (itoa_digits base caps ud m p1)
           (\<lambda>(m, p). Inr (itoa_reverse (m(p := 0)) p1 (p - 1))))"

declare ceillog2_loop.simps [simp del] itoa_digits.simps [simp del] itoa_reverse.simps [simp del]

section \<open>Integer division and logarithm\<close>

lemma ceildiv_ceiling: "(x::int) > 0 \<Longrightarrow> y > 0 \<Longrightarrow> ceildiv x y = (x + y - 1) div y"
proof -
  assume x: "x > 0" and y: "y > 0"
  have "(x - 1) sdiv y = (x - 1) div y"
    using x y by (cases "x = 1") (simp_all add: signed_divide_int_def)
  moreover have "(x + y - 1) div y = (x - 1) div y + 1"
    using y div_add_self2 [of y "x - 1"] by (simp add: algebra_simps)
  ultimately show ?thesis by (simp add: ceildiv_def)
qed

lemma odd_if_and_1: "(v::u64) AND 1 \<noteq> 0 \<longleftrightarrow> odd (unat v)"
proof -
  have "v AND 1 \<noteq> 0 \<longleftrightarrow> bit v 0"
    using and_exp_eq_0_iff_not_bit [of v 0] by simp
  also have "\<dots> \<longleftrightarrow> bit (unat v) 0"
    by (simp add: bit_unsigned_iff)
  finally show ?thesis by (simp add: bit_0)
qed

lemma ceillog2_loop_spec:
  assumes "0 < unat v"
  shows "\<exists>k. ceillog2_loop v r sp = (r + of_nat k, sp \<or> unat v \<noteq> 2 ^ k)
    \<and> 2 ^ k \<le> unat v \<and> unat v < 2 ^ Suc k"
  using assms
proof (induction v r sp rule: ceillog2_loop.induct)
  case (1 v r sp)
  show ?case
  proof (cases "1 < v")
    case True
    then have v: "2 \<le> unat v" "unat (drop_bit 1 v) = unat v div 2"
      by (simp_all add: word_less_nat_alt drop_bit_eq_div unat_div)
    define sp' where "sp' = (if v AND 1 \<noteq> 0 then True else sp)"
    have "0 < unat (drop_bit 1 v)" using v by simp
    with "1.IH" [OF True] v(2) obtain k where
      k: "ceillog2_loop (drop_bit 1 v) (r + 1) sp' =
          (r + 1 + of_nat k, sp' \<or> unat v div 2 \<noteq> 2 ^ k)"
        "2 ^ k \<le> unat v div 2" "unat v div 2 < 2 ^ Suc k"
      unfolding sp'_def [symmetric] by auto
    have "unat v = 2 * (unat v div 2) + unat v mod 2" by simp
    then have "sp' \<or> unat v div 2 \<noteq> 2 ^ k \<longleftrightarrow> sp \<or> unat v \<noteq> 2 ^ Suc k"
      by (auto simp: sp'_def odd_if_and_1 odd_iff_mod_2_eq_one)
    moreover have "2 ^ Suc k \<le> unat v" "unat v < 2 ^ Suc (Suc k)"
      using k(2,3) by auto
    ultimately show ?thesis
      using True k(1) ceillog2_loop.simps [of v r sp]
      unfolding sp'_def [symmetric]
      by (intro exI [of _ "Suc k"]) (simp add: algebra_simps)
  next
    case False
    with "1.prems" have "unat v = 1" by (simp add: word_less_nat_alt)
    with False show ?thesis
      by (intro exI [of _ 0]) (simp add: ceillog2_loop.simps [of v r sp])
  qed
qed

text \<open>
  For every argument of at least 2, \<open>ceillog2\<close> returns the exponent of the least power of two that is
  not below the argument, computed without overflow of its 8-bit result.
\<close>

lemma ceillog2_correct:
  assumes "2 \<le> v"
  shows "unat v \<le> 2 ^ unat (ceillog2 v) \<and> 2 ^ unat (ceillog2 v) < 2 * unat v"
proof -
  have v: "2 \<le> unat v" using assms by (simp add: word_le_nat_alt)
  then obtain k where k: "ceillog2_loop v 0 False = (of_nat k, unat v \<noteq> 2 ^ k)"
      "2 ^ k \<le> unat v" "unat v < 2 ^ Suc k"
    using ceillog2_loop_spec [of v 0 False] by auto
  have "(2::nat) ^ k < 2 ^ 64"
    using k(2) unat_u64_less [of v] by simp
  then have "k < 64" by (simp only: power_strict_increasing_iff)
  then have "unat (of_nat k :: u8) = k" "unat (of_nat k + 1 :: u8) = Suc k"
    by (simp_all add: unsigned_of_nat take_bit_nat_eq_self unat_word_ariths)
  moreover have "v \<noteq> 0" "v \<noteq> 1" using v by auto
  ultimately show ?thesis
    using k(2,3) by (auto simp: ceillog2_def k(1))
qed

section \<open>Number to text\<close>

text \<open>Reference definitions: the digits of a number, least significant first; a run of stores; and the
  reader of a number's text.\<close>

function base_digits :: "nat \<Rightarrow> nat \<Rightarrow> nat list" where
  "base_digits b n = n mod b # (if b < 2 \<or> n div b = 0 then [] else base_digits b (n div b))"
  by pat_completeness auto
termination
  by (relation "measure snd") (auto simp: div_greater_zero_iff)

declare base_digits.simps [simp del]

fun store_bytes :: "mem \<Rightarrow> ptr \<Rightarrow> u8 list \<Rightarrow> mem" where
  "store_bytes m p [] = m"
| "store_bytes m p (x # xs) = store_bytes (m(p := x)) (p + 1) xs"

definition parse_digit :: "u8 \<Rightarrow> nat" where
  "parse_digit c = (if c < 58 then unat c - 48 else if c < 97 then unat c - 55 else unat c - 87)"

definition parse_nat :: "nat \<Rightarrow> u8 list \<Rightarrow> nat" where
  "parse_nat b s = foldl (\<lambda>acc c. acc * b + parse_digit c) 0 s"

definition parse_int :: "nat \<Rightarrow> u8 list \<Rightarrow> int" where
  "parse_int b s =
     (if s \<noteq> [] \<and> hd s = 45 then - int (parse_nat b (tl s)) else int (parse_nat b s))"

lemma store_bytes_apply:
  "length xs \<le> 2 ^ 64 \<Longrightarrow> store_bytes m p xs a =
    (if unat (a - p) < length xs then xs ! unat (a - p) else m a)"
proof (induction xs arbitrary: m p)
  case (Cons x xs)
  show ?case
  proof (cases "a = p")
    case True
    have "unat (p - (p + 1)) = 2 ^ 64 - 1" by (simp add: unsigned_minus_1_eq_mask mask_eq_exp_minus_1)
    with True Cons show ?thesis by simp
  next
    case False
    then have "a - p \<noteq> 0" by simp
    then have "unat (a - p) = Suc (unat (a - (p + 1)))"
      unfolding diff_diff_eq [symmetric] by (simp add: unat_minus_one unat_gt_0)
    with False Cons show ?thesis by simp
  qed
qed simp

lemma itoa_digits_store:
  assumes "2 \<le> unat base"
  shows "itoa_digits base caps ud m p =
    (let ds = map (digit_char caps \<circ> of_nat) (base_digits (unat base) (unat ud))
     in Inr (store_bytes m p ds, p + of_nat (length ds)))"
  using assms
proof (induction base caps ud m p rule: itoa_digits.induct)
  case (1 base caps ud m p)
  have b: "base \<noteq> 0" "base \<noteq> 1" using "1.prems" by auto
  have d: "ud div base = 0 \<longleftrightarrow> unat ud div unat base = 0"
    by (simp only: word_unat_eq_iff unat_div unat_0)
  have m: "of_nat (unat ud mod unat base) = ud mod base"
    by (simp flip: unat_mod)
  show ?case
    using b "1.prems" "1.IH" [OF b(1) _ refl refl refl]
    by (simp add: itoa_digits.simps [of base caps ud m p] base_digits.simps [of "unat base" "unat ud"]
        Let_def d m unat_div fun_upd_def add.assoc)
qed

lemma itoa_reverse_apply:
  "itoa_reverse m p1 p2 a = (if p1 \<le> a \<and> a \<le> p2 then m (p1 + p2 - a) else m a)"
proof (induction m p1 p2 rule: itoa_reverse.induct)
  case (1 m p1 p2)
  show ?case
  proof (cases "p1 < p2")
    case True
    let ?m = "m(p1 := m p2, p2 := m p1)"
    have sum: "p1 + 1 + (p2 - 1) = p1 + p2" by simp
    have IH: "itoa_reverse ?m (p1 + 1) (p2 - 1) a =
        (if p1 + 1 \<le> a \<and> a \<le> p2 - 1 then ?m (p1 + p2 - a) else ?m a)"
      using "1.IH" [OF True] unfolding sum .
    have in_range: "p1 + 1 \<le> a \<and> a \<le> p2 - 1 \<longleftrightarrow> p1 < a \<and> a < p2"
      using True by unat_arith
    have "p1 + p2 - a \<noteq> p1" "p1 + p2 - a \<noteq> p2" if "p1 < a" "a < p2"
      using that by (auto simp: algebra_simps)
    with IH in_range True show ?thesis
      by (auto simp: itoa_reverse.simps [of m p1 p2])
  next
    case False
    then have "p1 \<le> a \<and> a \<le> p2 \<longrightarrow> p1 = a \<and> p2 = a" by force
    with False show ?thesis by (auto simp: itoa_reverse.simps [of m p1 p2])
  qed
qed


lemma base_digits_nonempty [simp]: "base_digits b n \<noteq> []"
  by (simp add: base_digits.simps [of b n])

lemma base_digits_less: "2 \<le> b \<Longrightarrow> x \<in> set (base_digits b n) \<Longrightarrow> x < b"
proof (induction b n rule: base_digits.induct)
  case (1 b n)
  then show ?case by (auto simp: base_digits.simps [of b n] split: if_splits)
qed

lemma length_base_digits:
  "2 \<le> b \<Longrightarrow> n < b ^ Suc k \<Longrightarrow> length (base_digits b n) \<le> Suc k"
proof (induction k arbitrary: n)
  case (Suc k)
  then have "n div b < b ^ Suc k" by (simp add: less_mult_imp_div_less mult.commute)
  with Suc show ?case by (simp add: base_digits.simps [of b n])
qed (simp add: base_digits.simps [of b n for b n])

lemma unat_digit_char:
  assumes "x < 36"
  shows "unat (digit_char caps (of_nat x)) = x + (if x < 10 then 48 else if caps then 55 else 87)"
proof -
  have s: "sint (of_nat x :: u32) = int x"
    using assms by (simp add: signed_of_nat signed_take_bit_int_eq_self)
  have u: "ucast (of_nat x :: u32) = (of_nat x :: u8)"
    using assms by (simp add: word_unat_eq_iff unsigned_ucast_eq unsigned_of_nat take_bit_nat_eq_self)
  have "unat (of_nat x + 48 :: u8) = x + 48" "unat (55 + of_nat x :: u8) = x + 55"
    "unat (87 + of_nat x :: u8) = x + 87"
    using assms by (simp_all add: unat_word_ariths unsigned_of_nat take_bit_nat_eq_self)
  then show ?thesis
    using assms by (simp add: digit_char_def s u)
qed

lemma parse_digit_char:
  assumes "x < 36"
  shows "parse_digit (digit_char caps (of_nat x)) = x" "digit_char caps (of_nat x) \<noteq> 0"
    "digit_char caps (of_nat x) \<noteq> 45"
  using assms unat_digit_char [OF assms, of caps]
  by (auto simp: parse_digit_def word_less_nat_alt split: if_splits)

lemma parse_base_digits:
  assumes "2 \<le> b" "b \<le> 36"
  shows "parse_nat b (rev (map (digit_char caps \<circ> of_nat) (base_digits b n))) = n"
  using assms
proof (induction b n rule: base_digits.induct)
  case (1 b n)
  have "n mod b < 36" using "1.prems" by (meson mod_less_divisor less_le_trans zero_less_numeral)
  with 1 show ?case
    by (simp add: base_digits.simps [of b n] parse_nat_def parse_digit_char mod_eq_self_iff_div_eq_0)
qed

text \<open>What \<open>itoa\<close> leaves at \<open>buf\<close>: the sign, the digits with the most significant first, a zero byte.\<close>

definition itoa_text :: "nat \<Rightarrow> bool \<Rightarrow> u32 \<Rightarrow> u8 list" where
  "itoa_text b caps d =
     (if b = 10 \<and> sint d < 0
      then 45 # rev (map (digit_char caps \<circ> of_nat) (base_digits b (unat (- d))))
      else rev (map (digit_char caps \<circ> of_nat) (base_digits b (unat d))))"

lemma length_base_digits_u32:
  assumes "2 \<le> b"
  shows "length (base_digits b (unat (d::u32))) \<le> 32"
proof -
  have "unat d < 2 ^ 32" using unsigned_less [of d, where ?'a = nat] by simp
  also have "(2::nat) ^ 32 \<le> b ^ 32" using assms by (intro power_mono) auto
  finally show ?thesis using length_base_digits [of b "unat d" 31] assms by simp
qed

lemma reverse_stored:
  assumes "fits p (Suc (length xs))" "xs \<noteq> []"
  shows "itoa_reverse ((store_bytes m p xs)(p + of_nat (length xs) := 0)) p (p + of_nat (length xs) - 1) a =
    (if unat (a - p) < Suc (length xs) then (rev xs @ [0]) ! unat (a - p) else m a)"
proof -
  define n where "n = length xs"
  have n: "0 < n" "unat p + n < 2 ^ 64" using assms by (auto simp: fits_def n_def)
  have u: "unat (p + of_nat n - 1) = unat p + n - 1"
  proof -
    obtain k where k: "n = Suc k" using n(1) gr0_implies_Suc by blast
    then have "p + of_nat n - 1 = p + of_nat k" by simp
    then show ?thesis using n k by (simp add: unat_word_ariths)
  qed
  consider (last) "unat (a - p) = n" | (inside) "unat (a - p) < n" | (out) "n < unat (a - p)"
    by linarith
  then show ?thesis
  proof cases
    case last
    then have a: "a = p + of_nat n" using n offset_eq_iff [of n a p] by simp
    then have "\<not> a \<le> p + of_nat n - 1"
      using n u by (simp add: word_le_nat_alt unat_word_ariths)
    with a last show ?thesis
      by (simp add: itoa_reverse_apply nth_append flip: n_def)
  next
    case inside
    define i where "i = unat (a - p)"
    have a: "a = p + of_nat i" using inside n offset_eq_iff [of i a p] by (simp add: i_def)
    have i: "i < n" using inside by (simp add: i_def)
    have le: "p \<le> a \<and> a \<le> p + of_nat n - 1"
      using i n u by (simp add: a word_le_nat_alt unat_word_ariths)
    obtain k where k: "n = Suc (i + k)" using i less_iff_Suc_add by blast
    let ?m = "(store_bytes m p xs)(p + of_nat n := 0)"
    have "p + (p + of_nat n - 1) - a = p + of_nat k"
      by (simp add: a k)
    then have "itoa_reverse ?m p (p + of_nat n - 1) a = ?m (p + of_nat k)"
      using le by (simp only: itoa_reverse_apply simp_thms if_True)
    also have "\<dots> = xs ! k"
    proof -
      have "k < n" "n < 18446744073709551616" using k n by auto
      then show ?thesis
        using add_of_nat_eq_iff [of k n p] by (simp add: store_bytes_apply flip: n_def)
    qed
    finally show ?thesis
      using i k by (simp add: nth_append rev_nth flip: n_def i_def)
  next
    case out
    then have "\<not> (p \<le> a \<and> a \<le> p + of_nat n - 1)" "a \<noteq> p + of_nat n"
      using n u offset_eq_iff [of n a p] by (auto simp: word_le_nat_alt unat_sub)
    with out n show ?thesis
      by (auto simp: itoa_reverse_apply store_bytes_apply simp flip: n_def)
  qed
qed


lemma itoa_writes:
  assumes "2 \<le> unat base" "fits buf 34"
  shows "\<exists>m'. itoa m buf base d caps = Inr m' \<and>
    (\<forall>a. m' a = (let s = itoa_text (unat base) caps d @ [0]
                  in if unat (a - buf) < length s then s ! unat (a - buf) else m a))"
proof -
  let ?neg = "base = 10 \<and> sint d < 0"
  define ud where "ud = (if ?neg then - d else d)"
  define xs where "xs = map (digit_char caps \<circ> of_nat) (base_digits (unat base) (unat ud))"
  define p where "p = (if ?neg then buf + 1 else buf)"
  define m0 where "m0 = (if ?neg then m(buf := 45) else m)"
  have len: "length xs \<le> 32" "xs \<noteq> []"
    using length_base_digits_u32 [OF assms(1), of ud]
    by (auto simp: xs_def base_digits.simps [of b n for b n])
  have "unat p = (if ?neg then Suc (unat buf) else unat buf)"
    using assms(2) by (simp add: p_def fits_def unat_word_ariths)
  with len assms(2) have fits: "fits p (Suc (length xs))"
    by (auto simp: fits_def split: if_splits)
  let ?m = "itoa_reverse ((store_bytes m0 p xs)(p + of_nat (length xs) := 0)) p (p + of_nat (length xs) - 1)"
  have run: "itoa m buf base d caps = Inr ?m"
    by (simp add: itoa_def Let_def itoa_digits_store [OF assms(1)] xs_def ud_def p_def m0_def)
  have b10: "unat base = 10 \<longleftrightarrow> base = 10"
    by (simp add: word_unat_eq_iff)
  define M where "M = ?m"
  have m: "M a = (if unat (a - p) < Suc (length xs) then (rev xs @ [0]) ! unat (a - p) else m0 a)" for a
    unfolding M_def by (rule reverse_stored [OF fits len(2)])
  have "M a = (let s = itoa_text (unat base) caps d @ [0]
        in if unat (a - buf) < length s then s ! unat (a - buf) else m a)" for a
  proof (cases ?neg)
    case False
    then have "p = buf" "m0 = m" "itoa_text (unat base) caps d = rev xs"
      using b10 by (auto simp: p_def m0_def itoa_text_def xs_def ud_def)
    then show ?thesis by (simp add: m)
  next
    case True
    then have neg: "p = buf + 1" "m0 = m(buf := 45)" "itoa_text (unat base) caps d = 45 # rev xs"
      using b10 by (simp_all add: p_def m0_def itoa_text_def xs_def ud_def)
    show ?thesis
    proof (cases "a = buf")
      case True
      have "unat (- 1 :: u64) = 2 ^ 64 - 1" by (simp add: unsigned_minus_1_eq_mask mask_eq_exp_minus_1)
      then show ?thesis using True len by (simp add: m neg)
    next
      case False
      then have "a - buf \<noteq> 0" by simp
      then have "unat (a - buf) = Suc (unat (a - (buf + 1)))"
        unfolding diff_diff_eq [symmetric] by (simp add: unat_minus_one unat_gt_0)
      then show ?thesis using False by (simp add: m neg)
    qed
  qed
  with run show ?thesis unfolding M_def by blast
qed

lemma sint_u32: "sint (d::u32) = (if sint d < 0 then uint d - 2 ^ 32 else uint d)"
proof -
  have "sint d = uint d - 2 ^ 32 * of_bool (bit (uint d) 31)"
    using signed_take_bit_eq_take_bit_minus [of 31 "uint d"]
    by (simp add: sint_uint take_bit_int_eq_self [of _ 32] uint_lt2p [of d, simplified])
  then show ?thesis using uint_lt2p [of d] unsigned_greater_eq [of d, where ?'a = int]
    by (cases "bit (uint d) 31") simp_all
qed

lemma itoa_text_digits:
  assumes "2 \<le> b" "b \<le> 36"
  shows "0 \<notin> set (itoa_text b caps d)"
    "parse_int b (itoa_text b caps d) = (if b = 10 then sint d else uint d)"
proof -
  let ?ds = "\<lambda>n. map (digit_char caps \<circ> of_nat) (base_digits b n)"
  have ds: "c \<noteq> 0 \<and> c \<noteq> 45" if "c \<in> set (?ds n)" for c n
    using that base_digits_less [OF assms(1)] assms(2) parse_digit_char(2,3) by fastforce
  then show "0 \<notin> set (itoa_text b caps d)" by (auto simp: itoa_text_def)
  have "hd (rev (?ds n)) \<noteq> 45" for n
    using ds [of "hd (rev (?ds n))" n] hd_in_set [of "rev (?ds n)"]
    by (simp add: base_digits.simps [of b n])
  moreover have "int (unat d) = sint d" if "\<not> sint d < 0"
    using that sint_u32 [of d] by simp
  moreover have "- int (unat (- d)) = sint d" if "sint d < 0"
  proof -
    have "sint d = uint d - 2 ^ 32" using that sint_u32 [of d] by simp
    moreover have "uint d \<noteq> 0"
      using that by (metis less_irrefl signed_0 unsigned_eq_0_iff)
    then have "uint (- d) = 2 ^ 32 - uint d"
      using uint_lt2p [of d] unsigned_greater_eq [of d, where ?'a = int]
      by (simp add: uint_word_ariths zmod_zminus1_eq_if)
    ultimately show ?thesis by simp
  qed
  ultimately show "parse_int b (itoa_text b caps d) = (if b = 10 then sint d else uint d)"
    using parse_base_digits [OF assms]
    by (auto simp: parse_int_def itoa_text_def)
qed

lemma length_itoa_text:
  assumes "2 \<le> b"
  shows "length (itoa_text b caps d) \<le> 33"
    and "8 \<le> b \<Longrightarrow> length (itoa_text b caps d) \<le> 11"
proof -
  show "length (itoa_text b caps d) \<le> 33"
    using length_base_digits_u32 [OF assms, of d] length_base_digits_u32 [OF assms, of "- d"]
    by (auto simp: itoa_text_def)
  assume b: "8 \<le> b"
  have d: "unat e < 2 ^ 32" for e :: u32
    using unsigned_less [of e, where ?'a = nat] by simp
  have "(2::nat) ^ 32 \<le> 8 ^ Suc 10" by simp
  also have "(8::nat) ^ Suc 10 \<le> b ^ Suc 10" using b by (intro power_mono) auto
  finally have "length (base_digits b (unat d)) \<le> 11"
    using length_base_digits [of b "unat d" 10] assms d [of d] by simp
  moreover have "length (base_digits b (unat (- d))) \<le> 10" if "b = 10"
    using length_base_digits [of b "unat (- d)" 9] that d [of "- d"] by simp
  ultimately show "length (itoa_text b caps d) \<le> 11"
    by (auto simp: itoa_text_def)
qed

lemma takeWhile_bytes_text:
  assumes "0 \<notin> set s" "length s < n" "n \<le> 2 ^ 64"
    and "\<And>a. unat (a - p) \<le> length s \<Longrightarrow> m a = (s @ [0]) ! unat (a - p)"
  shows "cstring m p n = s"
proof -
  have "bytes m p n = s @ 0 # drop (Suc (length s)) (bytes m p n)"
    using assms(2-) by (intro nth_equalityI) (auto simp: nth_append nth_Cons' less_Suc_eq)
  then have "cstring m p n = takeWhile (\<lambda>x. x \<noteq> 0) (s @ 0 # drop (Suc (length s)) (bytes m p n))"
    unfolding cstring_def by (rule arg_cong)
  also have "\<dots> = s"
    using assms(1) by (subst takeWhile_append2) auto
  finally show ?thesis .
qed



text \<open>
  C23: the 13-byte buffer \<open>printf\<close> gives to \<open>itoa\<close> is large enough for the bases it uses: for every base
  from 8 to 36 no byte outside the 12 first bytes of the buffer is written, and the string that is
  left there is zero-terminated inside them.
\<close>

theorem itoa_printf_buffer:
  assumes "8 \<le> unat base" "unat base \<le> 36" "fits buf 34"
  shows "\<exists>m'. itoa m buf base d caps = Inr m'
    \<and> (\<forall>a. 12 \<le> unat (a - buf) \<longrightarrow> m' a = m a) \<and> (\<exists>i<12. m' (buf + of_nat i) = 0)"
proof -
  let ?s = "itoa_text (unat base) caps d"
  have b: "2 \<le> unat base" using assms(1) by simp
  obtain m' where m': "itoa m buf base d caps = Inr m'"
      "\<And>a. m' a = (if unat (a - buf) \<le> length ?s then (?s @ [0]) ! unat (a - buf) else m a)"
    using itoa_writes [OF b assms(3), of m d caps] by (auto simp: Let_def less_Suc_eq_le)
  have len: "length ?s \<le> 11" by (rule length_itoa_text(2) [OF b assms(1)])
  then have "m' (buf + of_nat (length ?s)) = 0" by (simp add: m'(2))
  with len m' show ?thesis by (auto intro!: exI [of _ "length ?s"])
qed

theorem itoa_printf_buffer_witness:
  "\<exists>m'. itoa (\<lambda>_. 0xAA) 0x2000 8 0xFFFFFFFF False = Inr m' \<and> m' 0x200C = 0xAA"
proof -
  obtain m' where "itoa (\<lambda>_. 0xAA) 0x2000 8 0xFFFFFFFF False = Inr m'"
    "\<forall>a. 12 \<le> unat (a - 0x2000) \<longrightarrow> m' a = 0xAA"
    using itoa_printf_buffer [of 8 "0x2000" "\<lambda>_. 0xAA" "0xFFFFFFFF" False] by (auto simp: fits_def)
  then show ?thesis by (intro exI [of _ m']) simp
qed
end
