(* ===== verification/Cfs.thy ===== *)
theory Cfs
  imports Kernel_Heap Rb_Insert Libc_Math
begin

text \<open>
  \<open>kernel/scheduler/cfs.c\<close>: the run queue of the fair scheduler. A thread starts with its scheduling entity, so the address of
  a thread is the address of its entity. The queue is the red-black tree of \<open>Rb_Tree\<close>, whose nodes come from the kernel heap.
\<close>

section \<open>State\<close>

text \<open>The interrupt frame of \<open>kernel/x86-64.h\<close>: the registers the interrupt stub saves and the words the CPU pushes.\<close>

record xmm_reg =
  xmm_low :: u64
  xmm_high :: u64

record registers =
  cr2 :: u64
  r15 :: u64
  r14 :: u64
  r13 :: u64
  r12 :: u64
  r11 :: u64
  r10 :: u64
  r9 :: u64
  r8 :: u64
  rdi :: u64
  rsi :: u64
  rbp :: u64
  rsp :: u64
  rbx :: u64
  rdx :: u64
  rcx :: u64
  rax :: u64
  xmm :: "xmm_reg list"

record int_frame =
  frame_registers :: registers
  vector_number :: u64
  error_code :: u64
  iret_rip :: u64
  iret_cs :: u64
  iret_flags :: u64
  iret_rsp :: u64
  iret_ss :: u64

datatype thread_state = ACTIVE | SLEEPING | WAITING | DEAD

text \<open>A thread without its entity, which is in \<open>sched_entities\<close>, and its name, which is in \<open>kmem\<close>.\<close>

record thread =
  tid :: u64
  prio :: u8
  thread_state :: thread_state
  thread_proc :: ptr
  thread_context :: int_frame
  thread_stack :: ptr

text \<open>\<open>now\<close> is what \<open>uptime()\<close> reads from the clock, in nanoseconds.\<close>

record sched_state = heap_state +
  sched_entities :: entities
  threads :: "ptr \<Rightarrow> thread"
  cfs_tree :: rb_heap
  cfs_running :: u64
  now :: u64

section \<open>The tree on the heap\<close>

definition RB_NODE_SIZE :: u64 where "RB_NODE_SIZE = 40"

definition rb_insert :: "ptr \<Rightarrow> 'a sched_state_scheme \<Rightarrow> 'a sched_state_scheme res" where
  "rb_insert se s =
     bind_res (alloc RB_NODE_SIZE s) (\<lambda>(run, s).
     bind_res (rb_insert_node (sched_entities s) se run (cfs_tree s)) (\<lambda>t. Inr (s\<lparr>cfs_tree := t\<rparr>)))"

definition rb_remove :: "ptr \<Rightarrow> 'a sched_state_scheme \<Rightarrow> 'a sched_state_scheme res" where
  "rb_remove se s =
     bind_res (rb_detach (sched_entities s) se (cfs_tree s)) (\<lambda>(n, t).
       let s = s\<lparr>cfs_tree := t\<rparr> in if n = NULL then Inr s else free n s)"

section \<open>The run queue\<close>

definition weight_delta :: "ptr \<Rightarrow> u64 \<Rightarrow> 'a sched_state_scheme \<Rightarrow> u64" where
  "weight_delta se delta s = delta * (1 + ucast (prio (threads s se)))"

definition update_entity :: "ptr \<Rightarrow> 'a sched_state_scheme \<Rightarrow> 'a sched_state_scheme" where
  "update_entity se s =
     (let delta = now s - exec_start_time (sched_entities s se);
          delta_w = weight_delta se delta s
      in s\<lparr>sched_entities := (sched_entities s)(se := (sched_entities s se)
             \<lparr>vruntime := vruntime (sched_entities s se) + delta_w\<rparr>)\<rparr>)"

definition cfs_queue :: "ptr \<Rightarrow> 'a sched_state_scheme \<Rightarrow> 'a sched_state_scheme res" where
  "cfs_queue se s =
     (if se = NULL then Inl NullDeref
      else let s = update_entity se s in rb_insert se (s\<lparr>cfs_running := cfs_running s + 1\<rparr>))"

definition cfs_dequeue :: "ptr \<Rightarrow> 'a sched_state_scheme \<Rightarrow> 'a sched_state_scheme res" where
  "cfs_dequeue se s =
     (if se = NULL then Inl NullDeref else rb_remove se (s\<lparr>cfs_running := cfs_running s - 1\<rparr>))"

text \<open>
  The quotient is computed in \<open>double\<close> and truncated by the call of \<open>max\<close>; for a dividend below \<open>2 ^ 53\<close> that is the integer
  quotient. The divisor is a 64-bit product.
\<close>

definition TIME_UNIT :: u64 where "TIME_UNIT = 100000000"
definition GRANULARITY :: u64 where "GRANULARITY = 1000000"

definition get_timeslice :: "ptr \<Rightarrow> 'a sched_state_scheme \<Rightarrow> u64" where
  "get_timeslice t s = max_u64 (TIME_UNIT div ((1 + ucast (prio (threads s t))) * (cfs_running s + 1))) GRANULARITY"

definition cfs_pick_next :: "'a sched_state_scheme \<Rightarrow> ptr" where
  "cfs_pick_next s =
     (if tree_leftmost (cfs_tree s) \<noteq> NULL then rb_se (rb_nodes (cfs_tree s) (tree_leftmost (cfs_tree s))) else NULL)"

end
