(* ===== verification/Interrupts.thy ===== *)
theory Interrupts
  imports Cfs
begin

text \<open>
  The descriptor tables: \<open>interrupt/interrupt.c\<close> fills the interrupt descriptor table, \<open>tss.c\<close> the task state segment and its
  descriptor. Both split a 64-bit address over several fields of a packed structure.
\<close>

section \<open>State\<close>

record interrupt_descriptor =
  idt_addr_low :: u16
  idt_selector :: u16
  idt_ist :: u8
  idt_flags :: u8
  idt_addr_med :: u16
  idt_addr_high :: u32
  idt_reserved :: u32

record tss =
  rsp0 :: u64
  rsp1 :: u64
  rsp2 :: u64
  ist1 :: u64
  ist2 :: u64
  ist3 :: u64
  ist4 :: u64
  ist5 :: u64
  ist6 :: u64
  ist7 :: u64
  io_map_base_addr :: u16

record tss_descriptor =
  tss_limit_low :: u16
  tss_addr_low :: u16
  tss_addr_mid0 :: u8
  tss_access :: u8
  tss_limit_high :: u8
  tss_flag :: u8
  tss_addr_mid1 :: u8
  tss_addr_high :: u32

text \<open>
  \<open>idt_addr\<close> and \<open>vector_handler_0\<close> are link-time addresses; \<open>idtr\<close> is the register that \<open>lidt\<close> loads (limit and base), \<open>task_register\<close>
  the one that \<open>ltr\<close> loads.
\<close>

record idt_state = sched_state +
  idt :: "u8 \<Rightarrow> interrupt_descriptor"
  idt_addr :: u64
  vector_handler_0 :: u64
  idtr :: "u16 \<times> u64"
  tss_ptr :: ptr
  tss_objects :: "ptr \<Rightarrow> tss"
  gdt_tss_entry :: tss_descriptor
  task_register :: u16

section \<open>Operations\<close>

definition GDT_ENTRY_KERNEL_CODE :: u16 where "GDT_ENTRY_KERNEL_CODE = 0x8"

definition FLAGS_DPL :: "u8 \<Rightarrow> u8" where "FLAGS_DPL x = push_bit 5 x"
definition FLAGS_GATE_TYPE :: "u8 \<Rightarrow> u8" where "FLAGS_GATE_TYPE x = x"

definition set_idt_entry :: "u8 \<Rightarrow> u64 \<Rightarrow> u16 \<Rightarrow> u8 \<Rightarrow> 'a idt_state_scheme \<Rightarrow> 'a idt_state_scheme" where
  "set_idt_entry vector handler_addr selector flags s =
     s\<lparr>idt := (idt s)(vector := (idt s vector)
        \<lparr>idt_addr_low := ucast (handler_addr AND 0xFFFF),
         idt_addr_med := ucast (drop_bit 16 handler_addr AND 0xFFFF),
         idt_addr_high := ucast (drop_bit 32 handler_addr AND 0xFFFFFFFF),
         idt_flags := flags OR 0x80,
         idt_selector := selector\<rparr>)\<rparr>"

definition load_idt :: "'a idt_state_scheme \<Rightarrow> 'a idt_state_scheme" where
  "load_idt s =
     (let s = fold (\<lambda>i. set_idt_entry (of_nat i) (vector_handler_0 s + of_nat (i * 16)) GDT_ENTRY_KERNEL_CODE
                (FLAGS_DPL 0 OR FLAGS_GATE_TYPE 0xE)) [0..<32] s
      in s\<lparr>idtr := (16 * 256 - 1, idt_addr s)\<rparr>)"

definition FLAG_DPL :: "u8 \<Rightarrow> u8" where "FLAG_DPL x = push_bit 5 x"
definition FLAG_PRESENT :: u8 where "FLAG_PRESENT = push_bit 7 1"
definition FLAG_TYPE_TSS_AVAIL :: u8 where "FLAG_TYPE_TSS_AVAIL = 0x9"

text \<open>The result of \<open>alloc\<close> is not tested: \<open>memset\<close> writes through a null pointer when the heap is exhausted.\<close>

definition setup_tss :: "'a idt_state_scheme \<Rightarrow> 'a idt_state_scheme res" where
  "setup_tss s =
     bind_res (alloc 104 s) (\<lambda>(tss, s).
       let s = s\<lparr>tss_ptr := tss\<rparr>
       in if tss = NULL then Inl NullDeref
       else Inr (s\<lparr>tss_objects := (tss_objects s)(tss := \<lparr>rsp0 = 0, rsp1 = 0, rsp2 = 0, ist1 = 0, ist2 = 0,
               ist3 = 0, ist4 = 0, ist5 = 0, ist6 = 0, ist7 = 0, io_map_base_addr = 0\<rparr>),
             gdt_tss_entry := (gdt_tss_entry s)
               \<lparr>tss_limit_low := 0xFFFF, tss_limit_high := 0xF,
                tss_addr_low := ucast (tss AND 0xFFFF),
                tss_addr_mid0 := ucast (drop_bit 16 tss AND 0xFF),
                tss_addr_mid1 := ucast (drop_bit 24 tss AND 0xFF),
                tss_addr_high := ucast (drop_bit 32 tss AND 0xFFFFFFFF),
                tss_access := FLAG_PRESENT OR FLAG_DPL 0 OR FLAG_TYPE_TSS_AVAIL,
                tss_flag := push_bit 3 1\<rparr>,
             task_register := 0x28\<rparr>))"

definition get_rsp0 :: "'a idt_state_scheme \<Rightarrow> u64" where
  "get_rsp0 s = (if tss_ptr s = NULL then 0 else rsp0 (tss_objects s (tss_ptr s)))"

definition update_rsp0 :: "u64 \<Rightarrow> 'a idt_state_scheme \<Rightarrow> 'a idt_state_scheme" where
  "update_rsp0 v s =
     (if tss_ptr s = NULL then s
      else s\<lparr>tss_objects := (tss_objects s)(tss_ptr s := (tss_objects s (tss_ptr s))\<lparr>rsp0 := v\<rparr>)\<rparr>)"

section \<open>The addresses the CPU reads back\<close>

text \<open>How the processor assembles the address from a gate and from a TSS descriptor (Intel SDM volume 3).\<close>

definition gate_address :: "interrupt_descriptor \<Rightarrow> u64" where
  "gate_address d = ucast (idt_addr_low d) OR push_bit 16 (ucast (idt_addr_med d)) OR push_bit 32 (ucast (idt_addr_high d))"

definition tss_address :: "tss_descriptor \<Rightarrow> u64" where
  "tss_address d = ucast (tss_addr_low d) OR push_bit 16 (ucast (tss_addr_mid0 d))
     OR push_bit 24 (ucast (tss_addr_mid1 d)) OR push_bit 32 (ucast (tss_addr_high d))"

lemma ucast_masks:
  "(ucast (x AND 0xFFFF :: u64) :: u16) = ucast x"
  "(ucast (x AND 0xFF :: u64) :: u8) = ucast x"
  "(ucast (x AND 0xFFFFFFFF :: u64) :: u32) = ucast x"
proof -
  have m: "x AND 0xFFFF = take_bit 16 x" "x AND 0xFF = take_bit 8 x" "x AND 0xFFFFFFFF = take_bit 32 x"
    by (simp_all add: take_bit_eq_mask mask_eq_exp_minus_1)
  show "(ucast (x AND 0xFFFF) :: u16) = ucast x" "(ucast (x AND 0xFF) :: u8) = ucast x"
    "(ucast (x AND 0xFFFFFFFF) :: u32) = ucast x"
    unfolding m by (rule bit_word_eqI, auto simp: bit_simps)+
qed

lemma gate_address_set:
  "gate_address (idt (set_idt_entry v a sel f s) v) = a"
proof (rule bit_word_eqI)
  fix n assume "n < LENGTH(64)"
  then show "bit (gate_address (idt (set_idt_entry v a sel f s) v)) n = bit a n"
    unfolding set_idt_entry_def ucast_masks by (cases "32 \<le> n") (auto simp: gate_address_def bit_simps)
qed

lemma set_idt_entry_other: "w \<noteq> v \<Longrightarrow> idt (set_idt_entry v a sel f s) w = idt s w"
  by (simp add: set_idt_entry_def)

lemma load_idt_entries:
  fixes base :: u64
  assumes "n \<le> 256"
  shows "idt (fold (\<lambda>i. set_idt_entry (of_nat i) (base + of_nat (i * 16)) sel f) [0..<n] s) w =
    (if unat w < n then idt (set_idt_entry w (base + of_nat (unat w * 16)) sel f s) w else idt s w)"
  using assms
proof (induction n)
  case (Suc n)
  have u: "unat (of_nat n :: u8) = n" using Suc.prems by (simp add: unsigned_of_nat take_bit_nat_eq_self)
  then have "w = of_nat n \<longleftrightarrow> unat w = n" by (auto simp: word_unat_eq_iff)
  with Suc u show ?case by (auto simp: set_idt_entry_def)
qed simp

lemma set_idt_fold_fields:
  "vector_handler_0 (fold (\<lambda>i. set_idt_entry (g i) (h i) sel f) is s) = vector_handler_0 s"
  "idt_addr (fold (\<lambda>i. set_idt_entry (g i) (h i) sel f) is s) = idt_addr s"
  by (induction "is" arbitrary: s) (simp_all add: set_idt_entry_def)

text \<open>
  C31: the interrupt descriptor table. After \<open>load_idt\<close> the gates of the 32 reserved vectors lead to the stubs, which are 16 bytes apart,
  as present interrupt gates of the kernel code segment; the other gates are as before; the table register covers all 256
  gates. The address that the processor assembles from a gate is the one given to \<open>set_idt_entry\<close>.
\<close>

theorem load_idt_correct:
  "(\<forall>v. gate_address (idt (load_idt s) v) =
        (if v < 32 then vector_handler_0 s + 16 * ucast v else gate_address (idt s v)))
    \<and> (\<forall>v. idt_flags (idt (load_idt s) v) = (if v < 32 then 0x8E else idt_flags (idt s v))
        \<and> idt_selector (idt (load_idt s) v) = (if v < 32 then GDT_ENTRY_KERNEL_CODE else idt_selector (idt s v)))
    \<and> fst (idtr (load_idt s)) + 1 = 16 * 256 \<and> snd (idtr (load_idt s)) = idt_addr s"
proof -
  have e: "idt (load_idt s) v = (if v < 32 then idt (set_idt_entry v (vector_handler_0 s + 16 * ucast v) GDT_ENTRY_KERNEL_CODE
      (FLAGS_DPL 0 OR FLAGS_GATE_TYPE 0xE) s) v else idt s v)" for v
    using load_idt_entries [of 32 "vector_handler_0 s" GDT_ENTRY_KERNEL_CODE "FLAGS_DPL 0 OR FLAGS_GATE_TYPE 0xE" s v]
    by (simp add: load_idt_def Let_def word_less_nat_alt mult.commute)
  show ?thesis
    by (simp add: e gate_address_set) (simp add: set_idt_entry_def FLAGS_DPL_def FLAGS_GATE_TYPE_def load_idt_def Let_def
        set_idt_fold_fields)
qed

text \<open>
  C32: the task state segment. When \<open>setup_tss\<close> returns, the descriptor that the task register selects is a present, available
  TSS whose base address is the allocated segment, and the segment is zero; \<open>get_rsp0\<close> returns what \<open>update_rsp0\<close> stored
  last, and without a segment both do nothing.
\<close>

theorem setup_tss_correct:
  assumes "setup_tss s = Inr s'"
  shows "tss_address (gdt_tss_entry s') = tss_ptr s' \<and> tss_ptr s' \<noteq> NULL \<and> get_rsp0 s' = 0
    \<and> tss_access (gdt_tss_entry s') = 0x89 \<and> task_register s' = 0x28
    \<and> get_rsp0 (update_rsp0 v s') = v \<and> update_rsp0 v (s\<lparr>tss_ptr := NULL\<rparr>) = s\<lparr>tss_ptr := NULL\<rparr>"
proof -
  have a: "tss_address (d\<lparr>tss_addr_low := ucast (p AND 0xFFFF), tss_addr_mid0 := ucast (drop_bit 16 p AND 0xFF),
      tss_addr_mid1 := ucast (drop_bit 24 p AND 0xFF), tss_addr_high := ucast (drop_bit 32 p AND 0xFFFFFFFF)\<rparr>) = p" for p d
  proof (rule bit_word_eqI)
    fix n assume "n < LENGTH(64)"
    then show "bit (tss_address (d\<lparr>tss_addr_low := ucast (p AND 0xFFFF), tss_addr_mid0 := ucast (drop_bit 16 p AND 0xFF),
        tss_addr_mid1 := ucast (drop_bit 24 p AND 0xFF), tss_addr_high := ucast (drop_bit 32 p AND 0xFFFFFFFF)\<rparr>)) n = bit p n"
      unfolding ucast_masks by (cases "32 \<le> n"; cases "24 \<le> n") (auto simp: tss_address_def bit_simps)
  qed
  obtain p s1 where s1: "alloc 104 s = Inr (p, s1)" "p \<noteq> NULL"
    using assms by (auto simp: setup_tss_def bind_res_Inr_iff Let_def split: if_splits)
  note f = get_rsp0_def update_rsp0_def FLAG_PRESENT_def FLAG_DPL_def FLAG_TYPE_TSS_AVAIL_def
  have "tss_address (gdt_tss_entry s') = p" "tss_ptr s' = p" "tss_access (gdt_tss_entry s') = 0x89" "task_register s' = 0x28"
      "tss_objects s' p = \<lparr>rsp0 = 0, rsp1 = 0, rsp2 = 0, ist1 = 0, ist2 = 0, ist3 = 0, ist4 = 0, ist5 = 0, ist6 = 0, ist7 = 0, io_map_base_addr = 0\<rparr>"
    using assms s1 a [of p "gdt_tss_entry s1"] by (auto simp: setup_tss_def Let_def f tss_address_def)
  with s1(2) show ?thesis by (simp add: get_rsp0_def update_rsp0_def)
qed

definition example_heap :: mem where
  "example_heap = set_node_size 0x1000 1000 (\<lambda>a. 0)"

lemma example_heap_fit: "\<not> unfit example_heap 0x1000 104"
proof -
  have "apart 0x1008 1 (0x1000 :: ptr) 8" by (rule apartI) simp_all
  then show ?thesis
    by (simp add: unfit_def example_heap_def set_node_size_def node_size_def node_status_def)
qed

theorem setup_tss_correct_witness:
  "\<forall>s :: idt_state. \<exists>s'. setup_tss (s\<lparr>kernel_heap := 0x1000, kmem := example_heap\<rparr>) = Inr s'
     \<and> tss_address (gdt_tss_entry s') = tss_ptr s' \<and> get_rsp0 (update_rsp0 7 s') = 7"
proof
  fix s :: idt_state
  let ?s = "s\<lparr>kernel_heap := 0x1000, kmem := example_heap\<rparr>"
  have "\<exists>s1. alloc 104 ?s = Inr (0x1020, s1)"
    using alloc_here [of ?s 104] example_heap_fit by simp
  then obtain s' where s': "setup_tss ?s = Inr s'" by (auto simp: setup_tss_def Let_def)
  from setup_tss_correct [OF this, of 7] s'
  show "\<exists>s'. setup_tss ?s = Inr s' \<and> tss_address (gdt_tss_entry s') = tss_ptr s' \<and> get_rsp0 (update_rsp0 7 s') = 7"
    by blast
qed

end
