(* ===== verification/Local_Apic.thy ===== *)
theory Local_Apic
  imports Interrupts
begin

text \<open>
  The local interrupt controller: \<open>interrupt/apic.c\<close> and \<open>timer/apic_timer.c\<close>. Its registers are reached through model-specific
  registers or through memory, depending on the CPU; both are modelled as storage that keeps what is written. Ports
  are modelled by the sequence of bytes written to them.
\<close>

section \<open>State\<close>

text \<open>
  \<open>msr\<close> and \<open>mmio32\<close> are the model-specific registers of the running CPU and the 32-bit device registers by virtual address. \<open>cpuid_1\<close>
  is what leaf 1 reports in \<open>ecx\<close> and \<open>edx\<close>, \<open>cpuid_15\<close> what leaf 0x15 reports in \<open>ecx\<close> where the CPU has that leaf.
\<close>

record lapic_state = idt_state +
  msr :: "u32 \<Rightarrow> u64"
  mmio32 :: "ptr \<Rightarrow> u32"
  port_writes :: "(u16 \<times> u8) list"
  lapic_base_address :: "u32 \<Rightarrow> ptr"
  support_xapic2 :: "u32 \<Rightarrow> bool"
  apic_timer_period :: u64
  cpuid_1 :: "u32 \<times> u32"
  cpuid_15 :: "u32 option"
  vector_handler_0xFF :: u64
  vector_handler_0x40 :: u64

definition LAPIC_REG_EOI :: u32 where "LAPIC_REG_EOI = 0xB0"
definition LAPIC_REG_SPURIOUS_VECTOR :: u32 where "LAPIC_REG_SPURIOUS_VECTOR = 0xF0"
definition LAPIC_REG_INTERRUPT_COMMAND :: u32 where "LAPIC_REG_INTERRUPT_COMMAND = 0x300"
definition LAPIC_REG_LVT_TIMER :: u32 where "LAPIC_REG_LVT_TIMER = 0x320"
definition LAPIC_REG_INITIAL_COUNT :: u32 where "LAPIC_REG_INITIAL_COUNT = 0x380"
definition LAPIC_REG_CURRENT_COUNT :: u32 where "LAPIC_REG_CURRENT_COUNT = 0x390"
definition IA32_APIC_BASE :: u32 where "IA32_APIC_BASE = 0x1B"

section \<open>Ports and registers\<close>

definition outb :: "u16 \<Rightarrow> u8 \<Rightarrow> 'a lapic_state_scheme \<Rightarrow> 'a lapic_state_scheme" where
  "outb port v s = s\<lparr>port_writes := port_writes s @ [(port, v)]\<rparr>"

definition iowait :: "'a lapic_state_scheme \<Rightarrow> 'a lapic_state_scheme" where
  "iowait s = outb 0x80 0 s"

definition wrmsr :: "u32 \<Rightarrow> u64 \<Rightarrow> 'a lapic_state_scheme \<Rightarrow> 'a lapic_state_scheme" where
  "wrmsr i v s = s\<lparr>msr := (msr s)(i := v)\<rparr>"

text \<open>The legacy controllers are programmed and then masked completely.\<close>

definition disable_pic :: "'a lapic_state_scheme \<Rightarrow> 'a lapic_state_scheme" where
  "disable_pic s =
     (let s = iowait (outb 0xA0 0x11 (outb 0x20 0x11 s));
          s = iowait (outb 0xA1 0x28 (outb 0x21 0x20 s));
          s = iowait (outb 0xA1 0x4 (outb 0x21 0x2 s));
          s = iowait (outb 0xA1 0x01 (outb 0x21 0x01 s))
      in outb 0xA1 0xFF (outb 0x21 0xFF s))"

definition check_lapic_availability :: "u32 \<Rightarrow> 'a lapic_state_scheme \<Rightarrow> bool \<times> 'a lapic_state_scheme" where
  "check_lapic_availability apicid s =
     (let (ecx, edx) = cpuid_1 s; has_lapic = (edx AND 0x100 \<noteq> 0)
      in (has_lapic, s\<lparr>support_xapic2 := (support_xapic2 s)(apicid := (ecx AND push_bit 21 1 \<noteq> 0))\<rparr>))"

definition read_lapic_register :: "u32 \<Rightarrow> 'a lapic_state_scheme \<Rightarrow> u32 res" where
  "read_lapic_register reg s =
     (let i = apic_id s
      in if support_xapic2 s i then Inr (ucast (msr s (0x800 + drop_bit 4 reg)))
         else if lapic_base_address s i = NULL then Inl NullDeref
         else Inr (mmio32 s (lapic_base_address s i + ucast reg)))"

definition write_lapic_register :: "u32 \<Rightarrow> u32 \<Rightarrow> 'a lapic_state_scheme \<Rightarrow> 'a lapic_state_scheme res" where
  "write_lapic_register reg value s =
     (let i = apic_id s
      in if support_xapic2 s i then Inr (wrmsr (0x800 + drop_bit 4 reg) (ucast value) s)
         else if lapic_base_address s i = NULL then Inl NullDeref
         else Inr (s\<lparr>mmio32 := (mmio32 s)(lapic_base_address s i + ucast reg := value)\<rparr>))"

definition read_icr :: "'a lapic_state_scheme \<Rightarrow> u64 res" where
  "read_icr s =
     (if support_xapic2 s (apic_id s) then Inr (msr s 0x830)
      else bind_res (read_lapic_register LAPIC_REG_INTERRUPT_COMMAND s) (\<lambda>low.
           bind_res (read_lapic_register (LAPIC_REG_INTERRUPT_COMMAND + 0x10) s) (\<lambda>high.
           Inr (ucast low OR push_bit 32 (ucast high)))))"

definition write_icr :: "u64 \<Rightarrow> 'a lapic_state_scheme \<Rightarrow> 'a lapic_state_scheme res" where
  "write_icr value s =
     (if support_xapic2 s (apic_id s) then Inr (wrmsr 0x830 value s)
      else bind_res (write_lapic_register (LAPIC_REG_INTERRUPT_COMMAND + 0x10) (ucast (drop_bit 32 value)) s)
             (write_lapic_register LAPIC_REG_INTERRUPT_COMMAND (ucast value)))"

text \<open>
  \<open>ipi_command_t\<close> is its 32-bit word; \<open>deliv_status\<close> is bit 12. As the registers keep what is written, the loop that waits for
  delivery ends at once or never.
\<close>

definition send_ipi :: "u32 \<Rightarrow> u32 \<Rightarrow> 'a lapic_state_scheme \<Rightarrow> 'a lapic_state_scheme res" where
  "send_ipi dest command s =
     (let x2 = support_xapic2 s (apic_id s);
          full_cmd = ucast command OR push_bit (if x2 then 32 else 56) (ucast dest)
      in bind_res (write_icr full_cmd s) (\<lambda>s.
         if x2 then Inr s
         else bind_res (read_icr s) (\<lambda>icr. if get_field 12 1 icr \<noteq> 0 then Inl Spinning else Inr s)))"

definition send_eoi :: "'a lapic_state_scheme \<Rightarrow> 'a lapic_state_scheme res" where
  "send_eoi s = write_lapic_register LAPIC_REG_EOI 0 s"

definition enable_lapic :: "u32 \<Rightarrow> 'a lapic_state_scheme \<Rightarrow> (int \<times> 'a lapic_state_scheme) res" where
  "enable_lapic apicid s =
     (let (available, s) = check_lapic_availability apicid s
      in if \<not> available then Inr (1, s)
      else let s = disable_pic s;
               apic_base = msr s IA32_APIC_BASE OR 0x800;
               apic_base = (if support_xapic2 s apicid then apic_base OR push_bit 10 1 else apic_base);
               s = wrmsr IA32_APIC_BASE apic_base s
      in bind_res (if support_xapic2 s apicid then Inr (True, s)
                   else bind_res (map_mmio NULL (apic_base AND 0xFFFFF000) 0x400 True s) (\<lambda>(base, s).
                        Inr (base \<noteq> NULL, s\<lparr>lapic_base_address := (lapic_base_address s)(apicid := base)\<rparr>)))
           (\<lambda>(ok, s).
         if \<not> ok then Inr (1, s)
         else bind_res (write_lapic_register LAPIC_REG_SPURIOUS_VECTOR (0xFF OR 0x100) s) (\<lambda>s.
              Inr (0, set_idt_entry 0xFF (vector_handler_0xFF s) GDT_ENTRY_KERNEL_CODE
                     (FLAGS_DPL 0 OR FLAGS_GATE_TYPE 0xE) s))))"

section \<open>The timer\<close>

text \<open>
  The periods and cycle counts are computed in \<open>double\<close>; the integer quotients below are the same for dividends under \<open>2 ^ 53\<close>, which
  holds for every delay the kernel asks for. A quotient by zero is infinite and its conversion undefined; that is
  the outcome \<^const>\<open>DivideError\<close>. The delay of the calibration passes time only; the count is the register's value after it.
\<close>

definition quotient :: "u64 \<Rightarrow> u64 \<Rightarrow> u64 res" where
  "quotient a b = (if b = 0 then Inl DivideError else Inr (a div b))"

definition calibrate_apic_timer :: "'a lapic_state_scheme \<Rightarrow> 'a lapic_state_scheme res" where
  "calibrate_apic_timer s =
     bind_res
       (case cpuid_15 s of
          Some ecx \<Rightarrow> bind_res (quotient 1000000000000000 (ucast ecx)) (\<lambda>p. Inr (s\<lparr>apic_timer_period := p\<rparr>))
        | None \<Rightarrow>
            bind_res (read_lapic_register LAPIC_REG_LVT_TIMER s) (\<lambda>entry.
            bind_res (write_lapic_register LAPIC_REG_LVT_TIMER (put_field 17 2 0 (put_field 16 1 1 entry)) s) (\<lambda>s.
            bind_res (write_lapic_register LAPIC_REG_INITIAL_COUNT 0xFFFFFFFF s) (\<lambda>s.
            bind_res (read_lapic_register LAPIC_REG_CURRENT_COUNT s) (\<lambda>count.
            bind_res (quotient 5000000000000 (0xFFFFFFFF - ucast count)) (\<lambda>p. Inr (s\<lparr>apic_timer_period := p\<rparr>)))))))
       (\<lambda>s. Inr (set_idt_entry 0x40 (vector_handler_0x40 s) GDT_ENTRY_KERNEL_CODE
                  (FLAGS_DPL 0 OR FLAGS_GATE_TYPE 0xE) s))"

definition arm_apic_timer :: "u64 \<Rightarrow> bool \<Rightarrow> 'a lapic_state_scheme \<Rightarrow> 'a lapic_state_scheme res" where
  "arm_apic_timer nano periodic s =
     bind_res (if apic_timer_period s = 0 then calibrate_apic_timer s else Inr s) (\<lambda>s.
     bind_res (quotient (nano * 1000000) (apic_timer_period s)) (\<lambda>cycle.
     let cycle = (if drop_bit 32 cycle \<noteq> 0 then 0xFFFFFFFF else cycle)
     in bind_res (read_lapic_register LAPIC_REG_LVT_TIMER s) (\<lambda>entry.
        let entry = put_field 17 2 (if periodic then 1 else 0) entry;
            entry = put_field 16 1 0 entry;
            entry = put_field 0 8 0x40 entry
        in bind_res (write_lapic_register LAPIC_REG_LVT_TIMER entry s)
             (write_lapic_register LAPIC_REG_INITIAL_COUNT (ucast cycle)))))"

section \<open>Registers keep what is written\<close>

text \<open>The registers can be reached: the CPU has the MSR interface or the register page is mapped.\<close>

definition lapic_ok :: "'a lapic_state_scheme \<Rightarrow> bool" where
  "lapic_ok s \<longleftrightarrow> support_xapic2 s (apic_id s) \<or> lapic_base_address s (apic_id s) \<noteq> NULL"

lemma drop_bit_4_inj:
  assumes "16 dvd unat (a :: u32)" "16 dvd unat b"
  shows "drop_bit 4 a = drop_bit 4 b \<longleftrightarrow> a = b"
proof
  assume "drop_bit 4 a = drop_bit 4 b"
  from arg_cong [OF this, of unat] have "unat a div 16 = unat b div 16" by (simp add: drop_bit_eq_div unat_div)
  then have "unat a = unat b" using assms by (metis dvd_div_mult_self)
  then show "a = b" by (simp add: word_unat_eq_iff)
qed simp

lemma write_lapic_ok:
  assumes "lapic_ok s"
  shows "\<exists>s'. write_lapic_register reg v s = Inr s' \<and> lapic_ok s' \<and> apic_timer_period s' = apic_timer_period s
    \<and> support_xapic2 s' = support_xapic2 s \<and> apic_id s' = apic_id s
    \<and> (\<forall>r. r < 0x1000 \<and> reg < 0x1000 \<and> 16 dvd unat r \<and> 16 dvd unat reg
         \<longrightarrow> read_lapic_register r s' = (if r = reg then Inr v else read_lapic_register r s))"
proof (cases "support_xapic2 s (apic_id s)")
  case True
  have "read_lapic_register r (wrmsr (0x800 + drop_bit 4 reg) (ucast v) s) = (if r = reg then Inr v else read_lapic_register r s)"
    if "16 dvd unat r" "16 dvd unat reg" for r
  proof (cases "r = reg")
    case False
    then have "0x800 + drop_bit 4 r \<noteq> 0x800 + drop_bit 4 reg" using that by (simp add: drop_bit_4_inj)
    then show ?thesis using False True by (simp add: read_lapic_register_def wrmsr_def)
  next
    case eq: True
    have "(ucast (ucast v :: u64) :: u32) = v" by (rule bit_word_eqI) (auto simp: bit_simps)
    then show ?thesis using eq True by (simp add: read_lapic_register_def wrmsr_def)
  qed
  moreover have "write_lapic_register reg v s = Inr (wrmsr (0x800 + drop_bit 4 reg) (ucast v) s)"
    using True by (simp add: write_lapic_register_def)
  ultimately show ?thesis using assms by (auto simp: lapic_ok_def wrmsr_def)
next
  case False
  define b where "b = lapic_base_address s (apic_id s)"
  have b: "b \<noteq> NULL" using False assms by (simp add: lapic_ok_def b_def)
  define s' where "s' = s\<lparr>mmio32 := (mmio32 s)(b + ucast reg := v)\<rparr>"
  have u: "(ucast r :: u64) = ucast reg \<longleftrightarrow> r = reg" for r
    by (simp add: word_unat_eq_iff unat_ucast_up)
  have "read_lapic_register r s' = (if r = reg then Inr v else read_lapic_register r s)" for r
    using False b u [of r] by (simp add: read_lapic_register_def s'_def b_def)
  moreover have "write_lapic_register reg v s = Inr s'"
    using False b by (simp add: write_lapic_register_def s'_def b_def)
  ultimately show ?thesis using assms by (auto simp: lapic_ok_def s'_def)
qed

lemma timer_registers [simp]:
  "LAPIC_REG_LVT_TIMER < 0x1000" "LAPIC_REG_INITIAL_COUNT < 0x1000" "16 dvd unat LAPIC_REG_LVT_TIMER"
  "16 dvd unat LAPIC_REG_INITIAL_COUNT" "LAPIC_REG_LVT_TIMER \<noteq> LAPIC_REG_INITIAL_COUNT"
  by (simp_all add: LAPIC_REG_LVT_TIMER_def LAPIC_REG_INITIAL_COUNT_def)

lemma read_lapic_total: "lapic_ok s \<Longrightarrow> \<exists>v. read_lapic_register r s = Inr v"
  by (auto simp: lapic_ok_def read_lapic_register_def Let_def)



end
