(* ===== verification/Thread_Array.thy ===== *)
theory Thread_Array
  imports Kernel_Heap
begin

text \<open>
  The growing array of thread pointers of \<open>kernel/process.c\<close>. Its elements lie in a block of the kernel heap, eight bytes each,
  and are moved by \<open>memmove\<close>.
\<close>

section \<open>Operations\<close>

record thread_array =
  arr_data :: ptr
  arr_len :: u64
  arr_capacity :: u64

definition init_thread_array :: "'a heap_state_scheme \<Rightarrow> (thread_array \<times> 'a heap_state_scheme) res" where
  "init_thread_array s =
     bind_res (alloc (8 * 8) s) (\<lambda>(p, s). Inr (\<lparr>arr_data = p, arr_len = 0, arr_capacity = 8\<rparr>, s))"

text \<open>\<open>add\<close> returns without storing when the array cannot grow; the array is then left without its block.\<close>

definition array_add :: "thread_array \<Rightarrow> ptr \<Rightarrow> 'a heap_state_scheme \<Rightarrow> (thread_array \<times> 'a heap_state_scheme) res" where
  "array_add array t s =
     bind_res (if arr_len array \<ge> arr_capacity array
               then let array = array\<lparr>arr_capacity := arr_capacity array * 2\<rparr>
                    in bind_res (realloc (arr_data array) (arr_capacity array * 8) s) (\<lambda>(p, s).
                       Inr (array\<lparr>arr_data := p\<rparr>, p \<noteq> NULL, s))
               else Inr (array, True, s)) (\<lambda>(array, ok, s).
     if \<not> ok then Inr (array, s)
     else if arr_data array = NULL then Inl NullDeref
     else Inr (array\<lparr>arr_len := arr_len array + 1\<rparr>,
               s\<lparr>kmem := store64 (kmem s) (arr_data array + 8 * arr_len array) t\<rparr>))"

definition array_get :: "mem \<Rightarrow> thread_array \<Rightarrow> u64 \<Rightarrow> ptr" where
  "array_get m array index = load64 m (arr_data array + 8 * index)"

definition array_remove :: "thread_array \<Rightarrow> u64 \<Rightarrow> mem \<Rightarrow> thread_array \<times> mem" where
  "array_remove array index m =
     (if index = arr_len array - 1
      then (array\<lparr>arr_len := arr_len array - 1\<rparr>, store64 m (arr_data array + 8 * index) NULL)
      else (array\<lparr>arr_len := arr_len array - 1\<rparr>,
            memmove m (arr_data array + 8 * index) (arr_data array + 8 * (index + 1)) (8 * (arr_len array - index - 1))))"

text \<open>The loop of \<open>remove_el\<close> over the indices from \<open>i\<close> on.\<close>

primrec remove_el_loop :: "nat list \<Rightarrow> thread_array \<Rightarrow> ptr \<Rightarrow> mem \<Rightarrow> thread_array \<times> mem" where
  "remove_el_loop [] array t m = (array, m)"
| "remove_el_loop (i # is) array t m =
     (if array_get m array (of_nat i) = t then array_remove array (of_nat i) m else remove_el_loop is array t m)"

definition remove_el :: "thread_array \<Rightarrow> ptr \<Rightarrow> mem \<Rightarrow> thread_array \<times> mem" where
  "remove_el array t m = remove_el_loop [0..<unat (arr_len array)] array t m"

section \<open>The list an array stands for\<close>

definition arr_list :: "mem \<Rightarrow> thread_array \<Rightarrow> ptr list" where
  "arr_list m a = map (\<lambda>i. array_get m a (of_nat i)) [0..<unat (arr_len a)]"

text \<open>The elements lie in memory without wrap-around.\<close>

definition arr_ok :: "thread_array \<Rightarrow> bool" where
  "arr_ok a \<longleftrightarrow> unat (arr_data a) + 8 * unat (arr_len a) \<le> 2 ^ 64"

lemma arr_ok_index:
  assumes "arr_ok a" "i \<le> unat (arr_len a)"
  shows "unat (8 * of_nat i :: u64) = 8 * i mod 2 ^ 64" "unat (arr_data a + 8 * of_nat i) = (unat (arr_data a) + 8 * i) mod 2 ^ 64"
    "unat (arr_data a) + 8 * i \<le> 2 ^ 64"
proof -
  show 1: "unat (8 * of_nat i :: u64) = 8 * i mod 2 ^ 64" using assms unat_u64_less [of "arr_len a"]
    by (simp add: unat_word_ariths)
  show "unat (arr_data a) + 8 * i \<le> 2 ^ 64" using assms by (simp add: arr_ok_def)
  show "unat (arr_data a + 8 * of_nat i) = (unat (arr_data a) + 8 * i) mod 2 ^ 64"
    using 1 by (simp add: unat_word_ariths mod_simps)
qed

lemma load_memmove:
  assumes "fits dst (unat n)" "fits src (unat n)" "k + 8 \<le> unat n"
  shows "load64 (memmove m dst src n) (dst + of_nat k) = load64 m (src + of_nat k)"
proof (rule bit_word_eqI)
  fix j assume "j < LENGTH(64)"
  have "memmove m dst src n (dst + of_nat k + of_nat i) = m (src + of_nat k + of_nat i)" if "i < 8" for i
  proof -
    have "unat (of_nat (k + i) :: u64) = k + i" using assms(3) that unat_u64_less [of n] by (intro unat_of_nat_u64) simp
    then have "(of_nat (k + i) :: u64) < n" using assms(3) that by (simp add: word_less_nat_alt)
    then show ?thesis using memmove_apply [OF assms(1,2), of m "dst + of_nat (k + i)"] by (simp add: ac_simps)
  qed
  then show "bit (load64 (memmove m dst src n) (dst + of_nat k)) j = bit (load64 m (src + of_nat k)) j"
    using \<open>j < LENGTH(64)\<close> by (simp add: bit_load_le)
qed

lemma load_memmove_apart:
  assumes "fits dst (unat n)" "fits src (unat n)" "apart a 8 dst (unat n)"
  shows "load64 (memmove m dst src n) a = load64 m a"
  by (rule load_le_cong)
    (use memmove_apply [OF assms(1,2)] apart_offset [OF assms(3)] in \<open>simp add: word_less_nat_alt\<close>)

lemma elem_apart:
  assumes "arr_ok a" "i < unat (arr_len a)" "j \<le> unat (arr_len a)" "k \<le> unat (arr_len a) - j" "i < j \<or> j + k \<le> i" "0 < k"
  shows "apart (arr_data a + 8 * of_nat i) 8 (arr_data a + 8 * of_nat j) (8 * k)"
proof -
  have b: "unat (arr_data a) + 8 * unat (arr_len a) \<le> 2 ^ 64" using assms(1) by (simp add: arr_ok_def)
  have m: "unat (arr_data a + 8 * of_nat n) = unat (arr_data a) + 8 * n" if "n < unat (arr_len a)" for n
    using arr_ok_index(2) [OF assms(1), of n] that b by simp
  have "j < unat (arr_len a)" using assms(4,6) by simp
  then show ?thesis
    by (intro apartI) (use m [of i] m [of j] assms b in auto)
qed

lemma array_remove_list:
  assumes ok: "arr_ok a" and i: "i < unat (arr_len a)" and r: "array_remove a (of_nat i) m = (a', m')"
  shows "arr_list m' a' = take i (arr_list m a) @ drop (Suc i) (arr_list m a) \<and> arr_ok a'"
proof -
  define n where "n = unat (arr_len a)"
  have n: "n < 2 ^ 64" "i < n" using i unat_u64_less [of "arr_len a"] by (simp_all add: n_def)
  have l: "arr_len a = of_nat n" "unat (arr_len a - 1) = n - 1" using i by (simp_all add: n_def unat_pred_if_less [of 0] word_less_nat_alt)
  have "unat (of_nat i :: u64) = i" using n by (intro unat_of_nat_u64) simp
  then have last: "of_nat i = arr_len a - 1 \<longleftrightarrow> i = n - 1"
    unfolding word_unat_eq_iff l(2) by simp
  have a': "a' = a\<lparr>arr_len := arr_len a - 1\<rparr>" using r by (auto simp: array_remove_def split: if_splits)
  then have ok': "arr_ok a'" using ok l(2) by (simp add: arr_ok_def n_def)
  have get: "array_get m' a' (of_nat j) = array_get m a (of_nat (if j < i then j else Suc j))" if "j < n - 1" for j
  proof (cases "i = n - 1")
    case True
    then have "m' = store64 m (arr_data a + 8 * of_nat i) NULL" using r last by (simp add: array_remove_def)
    then show ?thesis
      using that True elem_apart [OF ok, of j i 1] i n by (simp add: array_get_def a' n_def)
  next
    case False
    define dst where "dst = arr_data a + 8 * of_nat i"
    define src where "src = arr_data a + 8 * of_nat (Suc i)"
    define sz where "sz = 8 * (arr_len a - of_nat i - 1)"
    have m': "m' = memmove m dst src sz"
      using r False last by (simp add: array_remove_def dst_def src_def sz_def add.commute)
    have b: "unat (arr_data a) + 8 * n \<le> 2 ^ 64" using ok by (simp add: arr_ok_def n_def)
    have "arr_len a - of_nat i - 1 = of_nat (n - i - 1)" using n False by (simp add: l(1) of_nat_diff)
    then have "sz = of_nat (8 * (n - i - 1))" unfolding sz_def by (simp only: of_nat_mult of_nat_numeral)
    moreover have "8 * (n - i - 1) < 18446744073709551616" using b n by simp
    ultimately have sz: "unat sz = 8 * (n - i - 1)" by (simp only: unat_of_nat_u64)
    have "unat dst = unat (arr_data a) + 8 * i" "unat src = unat (arr_data a) + 8 * Suc i"
      using arr_ok_index(2) [OF ok, of i] arr_ok_index(2) [OF ok, of "Suc i"] b n False by (simp_all add: dst_def src_def n_def)
    then have f: "fits dst (unat sz)" "fits src (unat sz)" using b n sz by (simp_all add: fits_def)
    show ?thesis
    proof (cases "j < i")
      case True
      then show ?thesis
        using load_memmove_apart [OF f] elem_apart [OF ok, of j i "n - i - 1"] n False
        by (simp add: m' array_get_def a' sz dst_def n_def [symmetric])
    next
      case False
      have "load64 (memmove m dst src sz) (dst + of_nat (8 * (j - i))) = load64 m (src + of_nat (8 * (j - i)))"
        using that False by (intro load_memmove [OF f]) (simp add: sz)
      then show ?thesis
        using False by (simp add: m' array_get_def a' dst_def src_def of_nat_diff algebra_simps)
    qed
  qed
  have "arr_list m' a' = map (\<lambda>j. array_get m a (of_nat (if j < i then j else Suc j))) [0..<n - 1]"
    using get l(2) by (simp add: arr_list_def a')
  also have "\<dots> = take i (arr_list m a) @ drop (Suc i) (arr_list m a)"
    by (rule nth_equalityI) (use n in \<open>auto simp: arr_list_def n_def [symmetric] nth_append\<close>)
  finally show ?thesis using ok' by simp
qed

lemma remove_el_loop_list:
  assumes "arr_ok a" "j \<le> unat (arr_len a)" "t \<notin> set (take j (arr_list m a))"
    and "remove_el_loop [j..<unat (arr_len a)] a t m = (a', m')"
  shows "arr_list m' a' = remove1 t (arr_list m a) \<and> arr_ok a'"
  using assms(2-4)
proof (induction "unat (arr_len a) - j" arbitrary: j)
  case 0
  then have "t \<notin> set (arr_list m a)" by (simp add: arr_list_def)
  with 0 assms(1) show ?case by (simp add: remove1_idem)
next
  case (Suc k)
  let ?xs = "arr_list m a"
  have j: "j < unat (arr_len a)" "j < length ?xs" using Suc.hyps(2) by (simp_all add: arr_list_def)
  then have x: "?xs ! j = array_get m a (of_nat j)" by (simp add: arr_list_def)
  have step: "remove_el_loop (j # [Suc j..<unat (arr_len a)]) a t m = (a', m')"
    using Suc.prems(3) j(1) by (simp add: upt_conv_Cons)
  show ?case
  proof (cases "array_get m a (of_nat j) = t")
    case True
    have "remove1 t (take j ?xs @ t # drop (Suc j) ?xs) = take j ?xs @ drop (Suc j) ?xs"
      using Suc.prems(2) by (simp add: remove1_append)
    then have "remove1 t ?xs = take j ?xs @ drop (Suc j) ?xs" using id_take_nth_drop [OF j(2)] x True by simp
    then show ?thesis using array_remove_list [OF assms(1) j(1), of m a' m'] step True by simp
  next
    case False
    then show ?thesis
      using Suc.hyps(1) [of "Suc j"] Suc.hyps(2) Suc.prems(2) j step x by (simp add: take_Suc_conv_app_nth)
  qed
qed


text \<open>An array of the threads \<open>0x10\<close>, \<open>0x20\<close>, \<open>0x30\<close> from which \<open>0x20\<close> is removed.\<close>

definition example_array :: thread_array where
  "example_array = \<lparr>arr_data = 0x1000, arr_len = 3, arr_capacity = 8\<rparr>"

definition example_elements :: mem where
  "example_elements = store64 (store64 (store64 (\<lambda>_. 0) 0x1000 0x10) 0x1008 0x20) 0x1010 0x30"


end
