(* ===== verification/Vmm_Lifecycle.thy ===== *)
theory Vmm_Lifecycle
  imports Kernel_Heap
begin

text \<open>
  Creation and destruction of address spaces, the part of \<open>kernel/memory/vmm.c\<close> that uses the kernel heap.
\<close>

definition VMM_INFO_SIZE :: u64 where "VMM_INFO_SIZE = 96"
definition SPINLOCK_SIZE :: u64 where "SPINLOCK_SIZE = 16"

text \<open>\<open>memset(lock, 0, sizeof(spinlock_t))\<close>.\<close>

definition zero_lock :: "ptr \<Rightarrow> 'a sync_state_scheme \<Rightarrow> 'a sync_state_scheme" where
  "zero_lock l s = s\<lparr>spinlocks := (spinlocks s)(l := \<lparr>held = 0, lock_cpu_id = 0, lock_name = NULL\<rparr>)\<rparr>"

definition vmm_create :: "u64 \<Rightarrow> u64 \<Rightarrow> bool \<Rightarrow> 'a heap_state_scheme \<Rightarrow> (ptr \<times> 'a heap_state_scheme) res" where
  "vmm_create start end user s =
     bind_res (alloc VMM_INFO_SIZE s) (\<lambda>(vmm, s).
     if vmm = NULL then Inr (NULL, s)
     else bind_res (kalloc s) (\<lambda>(pagetable, s).
     if pagetable = 0 then bind_res (free vmm s) (\<lambda>s. Inr (NULL, s))
     else let pagetable = pagetable + PHYSICAL_OFFSET
     in bind_res (alloc SPINLOCK_SIZE s) (\<lambda>(vmm_lock, s).
     if vmm_lock = NULL
     then bind_res (kfree (pagetable - PHYSICAL_OFFSET) s) (\<lambda>s. bind_res (free vmm s) (\<lambda>s. Inr (NULL, s)))
     else Inr (vmm, vmm_init vmm pagetable start end user vmm_lock (zero_lock vmm_lock s)))))"

primrec destroy_areas :: "nat \<Rightarrow> ptr \<Rightarrow> ptr \<Rightarrow> 'a heap_state_scheme \<Rightarrow> 'a heap_state_scheme res" where
  "destroy_areas 0 vmm cur s = Inl Diverges"
| "destroy_areas (Suc fuel) vmm cur s =
     (if cur = NULL then Inr s
      else bind_res (unmappages (root_pagetable (vmms s vmm)) (area_start (areas s cur)) (area_size (areas s cur)) True s)
             (\<lambda>(_, s). destroy_areas fuel vmm (area_next (areas s cur)) s))"

primrec destroy_containers :: "nat \<Rightarrow> ptr \<Rightarrow> 'a heap_state_scheme \<Rightarrow> 'a heap_state_scheme res" where
  "destroy_containers 0 cur s = Inl Diverges"
| "destroy_containers (Suc fuel) cur s =
     (if cur = NULL then Inr s
      else bind_res (kfree (cur - PHYSICAL_OFFSET) s) (destroy_containers fuel (container_next s cur)))"

definition vmm_destroy :: "ptr \<Rightarrow> 'a heap_state_scheme \<Rightarrow> 'a heap_state_scheme res" where
  "vmm_destroy vmm s =
     (if vmm = NULL then Inl NullDeref
      else bind_res (destroy_areas CHAIN_BOUND vmm (first_area (vmms s vmm)) s) (\<lambda>s.
           bind_res (destroy_containers CHAIN_BOUND (root_container (vmms s vmm)) s) (\<lambda>s.
           bind_res (free (vmm_lock (vmms s vmm)) s) (\<lambda>s.
           bind_res (kfree (root_pagetable (vmms s vmm) - PHYSICAL_OFFSET) s) (free vmm)))))"

end
