(* ===== verification/Libc_Elf.thy ===== *)
theory Libc_Elf
  imports Byte_Memory
begin

text \<open>
  \<open>libc/elf.c\<close> and the structures of \<open>libc/include/elf.h\<close>: finding sections, segments and strings in an ELF
  image that lies in memory, and the System V symbol hash. The structures are read from byte memory at their
  x86-64 offsets.
\<close>

section \<open>Structures\<close>

record Elf64_Ehdr =
  e_ident :: "u8 list"
  e_type :: u16
  e_machine :: u16
  e_version :: u32
  e_entry :: u64
  e_phoff :: u64
  e_shoff :: u64
  e_flags :: u32
  e_ehsize :: u16
  e_phentisze :: u16
  e_phnum :: u16
  e_shentsize :: u16
  e_shnum :: u16
  e_shstrndx :: u16

record Elf64_Shdr =
  sh_name :: u32
  sh_type :: u32
  sh_flags :: u64
  sh_addr :: u64
  sh_offset :: u64
  sh_size :: u64
  sh_link :: u32
  sh_info :: u32
  sh_addralign :: u64
  sh_entsize :: u64

record Elf64_Phdr =
  p_type :: u32
  p_flags :: u32
  p_offset :: u64
  p_vaddr :: u64
  p_paddr :: u64
  p_filesz :: u64
  p_memsz :: u64
  p_align :: u64

definition read_Ehdr :: "mem \<Rightarrow> ptr \<Rightarrow> Elf64_Ehdr" where
  "read_Ehdr m p =
     \<lparr>e_ident = bytes m p 16, e_type = load16 m (p + 16), e_machine = load16 m (p + 18),
      e_version = load32 m (p + 20), e_entry = load64 m (p + 24), e_phoff = load64 m (p + 32),
      e_shoff = load64 m (p + 40), e_flags = load32 m (p + 48), e_ehsize = load16 m (p + 52),
      e_phentisze = load16 m (p + 54), e_phnum = load16 m (p + 56), e_shentsize = load16 m (p + 58),
      e_shnum = load16 m (p + 60), e_shstrndx = load16 m (p + 62)\<rparr>"

definition read_Shdr :: "mem \<Rightarrow> ptr \<Rightarrow> Elf64_Shdr" where
  "read_Shdr m p =
     \<lparr>sh_name = load32 m p, sh_type = load32 m (p + 4), sh_flags = load64 m (p + 8),
      sh_addr = load64 m (p + 16), sh_offset = load64 m (p + 24), sh_size = load64 m (p + 32),
      sh_link = load32 m (p + 40), sh_info = load32 m (p + 44), sh_addralign = load64 m (p + 48),
      sh_entsize = load64 m (p + 56)\<rparr>"

definition read_Phdr :: "mem \<Rightarrow> ptr \<Rightarrow> Elf64_Phdr" where
  "read_Phdr m p =
     \<lparr>p_type = load32 m p, p_flags = load32 m (p + 4), p_offset = load64 m (p + 8),
      p_vaddr = load64 m (p + 16), p_paddr = load64 m (p + 24), p_filesz = load64 m (p + 32),
      p_memsz = load64 m (p + 40), p_align = load64 m (p + 48)\<rparr>"

definition SHN_UNDEF :: u16 where "SHN_UNDEF = 0"
definition PT_LOAD :: u32 where "PT_LOAD = 1"
definition PF_X :: u32 where "PF_X = 1"
definition PF_W :: u32 where "PF_W = 2"

definition ELF64_R_SYM :: "u64 \<Rightarrow> u64" where "ELF64_R_SYM i = drop_bit 32 i"
definition ELF64_R_TYPE :: "u64 \<Rightarrow> u64" where "ELF64_R_TYPE i = i AND 0xffffffff"
definition ELF64_R_INFO :: "u64 \<Rightarrow> u64 \<Rightarrow> u64" where
  "ELF64_R_INFO s t = push_bit 32 s + (t AND 0xffffffff)"

section \<open>Operations\<close>

text \<open>Indexing a table is address arithmetic with the size of its entries, 64 and 56 bytes.\<close>

definition get_section :: "mem \<Rightarrow> ptr \<Rightarrow> u64 \<Rightarrow> ptr" where
  "get_section m header idx =
     (let section_count = ucast (e_shnum (read_Ehdr m header))
      in if idx > section_count then NULL
         else let shdr_table = header + e_shoff (read_Ehdr m header) in shdr_table + 64 * idx)"

definition get_segment :: "mem \<Rightarrow> ptr \<Rightarrow> u64 \<Rightarrow> ptr" where
  "get_segment m header idx =
     (let seg_count = ucast (e_phnum (read_Ehdr m header))
      in if idx > seg_count then NULL
         else let phdr_table = header + e_phoff (read_Ehdr m header) in phdr_table + 56 * idx)"

text \<open>The result of \<open>get_section\<close> is used without a test: a null pointer is dereferenced.\<close>

definition get_elf_string :: "mem \<Rightarrow> ptr \<Rightarrow> u64 \<Rightarrow> ptr res" where
  "get_elf_string m header off =
     (if e_shstrndx (read_Ehdr m header) = SHN_UNDEF then Inr NULL
      else let string_table = get_section m header (ucast (e_shstrndx (read_Ehdr m header)))
           in if string_table = NULL then Inl NullDeref
              else if off > sh_size (read_Shdr m string_table) then Inr NULL
              else Inr (header + sh_offset (read_Shdr m string_table) + off))"

text \<open>One turn of the loop of \<open>elf64_has\<close>; \<open>unsigned long\<close> has 64 bits.\<close>

definition elf64_hash_step :: "u64 \<Rightarrow> u8 \<Rightarrow> u64" where
  "elf64_hash_step h c =
     (let h = push_bit 4 h + ucast c; g = h AND 0xf0000000;
          h = (if g \<noteq> 0 then h XOR drop_bit 24 g else h)
      in h AND 0x0fffffff)"

partial_function (option) elf64_has_loop :: "mem \<Rightarrow> ptr \<Rightarrow> u64 \<Rightarrow> u64 option" where
  "elf64_has_loop m name h =
     (if m name \<noteq> 0 then elf64_has_loop m (name + 1) (elf64_hash_step h (m name)) else Some h)"

definition elf64_has :: "mem \<Rightarrow> ptr \<Rightarrow> u64 option" where
  "elf64_has m name = elf64_has_loop m name 0"

section \<open>The symbol hash\<close>

text \<open>
  The hash of the System V ABI as it is specified for 32-bit arithmetic: shift in the next byte, fold the
  top four bits back in, clear them.
\<close>

definition sysv_hash_step :: "u32 \<Rightarrow> u8 \<Rightarrow> u32" where
  "sysv_hash_step h c =
     (let h = push_bit 4 h + ucast c; g = h AND 0xf0000000
      in (h XOR drop_bit 24 g) AND NOT g)"

definition sysv_hash :: "u8 list \<Rightarrow> u32" where
  "sysv_hash cs = foldl sysv_hash_step 0 cs"

lemma hash_step_sum:
  "(ucast (push_bit 4 (ucast (h :: u32) :: u64) + ucast (c :: u8)) :: u32) = push_bit 4 h + ucast c"
proof -
  have "(ucast (a + b :: u64) :: u32) = ucast a + ucast b" for a b
    by (simp add: word_unat_eq_iff unsigned_ucast_eq unat_word_ariths take_bit_eq_mod unat_mod mod_mod_cancel mod_simps)
  moreover have "(ucast (push_bit 4 (ucast h :: u64)) :: u32) = push_bit 4 h"
    by (rule bit_word_eqI) (auto simp: bit_simps)
  moreover have "(ucast (ucast c :: u64) :: u32) = ucast c"
    by (rule bit_word_eqI) (auto simp: bit_simps)
  ultimately show ?thesis by simp
qed

lemma bit_top_nibble: "bit (0xf0000000 :: 'w::len word) n \<longleftrightarrow> n < LENGTH('w) \<and> 28 \<le> n \<and> n < 32"
proof -
  have e: "(0xf0000000 :: 'w word) = push_bit 28 (mask 4)" by (simp add: push_bit_eq_mult mask_eq_exp_minus_1)
  show ?thesis unfolding e by (auto simp: bit_simps)
qed

lemma bit_low_28: "bit (0x0fffffff :: 'w::len word) n \<longleftrightarrow> n < LENGTH('w) \<and> n < 28"
proof -
  have e: "(0x0fffffff :: 'w word) = mask 28" by (simp add: mask_eq_exp_minus_1)
  show ?thesis unfolding e by (auto simp: bit_simps)
qed

lemma hash_fold_bits:
  fixes x G :: u32 and y G' L :: u64
  assumes "\<And>n. bit G n \<longleftrightarrow> 28 \<le> n \<and> n < 32" "\<And>n. bit G' n \<longleftrightarrow> 28 \<le> n \<and> n < 32" "\<And>n. bit L n \<longleftrightarrow> n < 28"
  shows "take_bit 28 ((x XOR drop_bit 24 (x AND G)) AND NOT (x AND G)) = (x XOR drop_bit 24 (x AND G)) AND NOT (x AND G)"
    and "x = ucast y \<Longrightarrow>
      (y XOR drop_bit 24 (y AND G')) AND L = ucast ((x XOR drop_bit 24 (x AND G)) AND NOT (x AND G))"
  by (rule bit_word_eqI, auto simp: bit_simps assms)+

lemma hash_masks:
  "bit (0xf0000000 :: u32) n \<longleftrightarrow> 28 \<le> n \<and> n < 32" "bit (0xf0000000 :: u64) n \<longleftrightarrow> 28 \<le> n \<and> n < 32"
  "bit (0x0fffffff :: u64) n \<longleftrightarrow> n < 28"
  unfolding bit_top_nibble bit_low_28 by auto

lemma sysv_hash_step_bound: "sysv_hash_step h c < 0x10000000"
proof -
  have "sysv_hash_step h c = take_bit 28 (sysv_hash_step h c)"
    unfolding sysv_hash_step_def Let_def by (rule hash_fold_bits(1) [symmetric]) (rule hash_masks)+
  then have "unat (sysv_hash_step h c) < 2 ^ 28"
    by (metis unsigned_take_bit_eq take_bit_nat_less_exp)
  then show ?thesis by (simp add: word_less_nat_alt)
qed

lemma elf64_hash_step_ucast: "elf64_hash_step (ucast h) c = ucast (sysv_hash_step h c)"
proof -
  define y :: u64 where "y = push_bit 4 (ucast h) + ucast c"
  have "elf64_hash_step (ucast h) c = (y XOR drop_bit 24 (y AND 0xf0000000)) AND 0x0fffffff"
    unfolding elf64_hash_step_def Let_def y_def by (simp only: drop_bit_of_0 xor.right_neutral split: if_splits) simp
  also have "\<dots> = ucast (sysv_hash_step h c)"
    unfolding sysv_hash_step_def Let_def
    by (rule hash_fold_bits(2)) (rule hash_masks, rule hash_masks, rule hash_masks, simp only: y_def hash_step_sum)
  finally show ?thesis .
qed

lemma elf64_has_loop_hash:
  assumes "\<forall>i < n. m (name + of_nat i) \<noteq> 0" "m (name + of_nat n) = 0"
  shows "elf64_has_loop m name (ucast h) = Some (ucast (foldl sysv_hash_step h (bytes m name n)))"
  using assms
proof (induction n arbitrary: name h)
  case 0
  then show ?case by (subst elf64_has_loop.simps) (simp add: bytes_def)
next
  case (Suc n)
  have "m (name + 1 + of_nat i) \<noteq> 0" if "i < n" for i
    using Suc.prems(1) [rule_format, of "Suc i"] that by (simp add: ac_simps)
  moreover have "m (name + 1 + of_nat n) = 0" using Suc.prems(2) by (simp add: ac_simps)
  ultimately have "elf64_has_loop m (name + 1) (ucast (sysv_hash_step h (m name)))
      = Some (ucast (foldl sysv_hash_step (sysv_hash_step h (m name)) (bytes m (name + 1) n)))"
    by (intro Suc.IH) simp_all
  moreover have "bytes m name (Suc n) = m name # bytes m (name + 1) n"
    by (simp add: bytes_def upt_conv_Cons map_Suc_upt [symmetric] ac_simps del: upt_Suc)
  moreover have "m name \<noteq> 0" using Suc.prems(1) [rule_format, of 0] by simp
  ultimately show ?case
    by (subst elf64_has_loop.simps) (simp add: elf64_hash_step_ucast)
qed

text \<open>
  C34: the symbol hash. On a C string the 64-bit code of \<open>elf64_has\<close> ends and returns the hash that the System V
  ABI specifies with 32-bit arithmetic; the result has at most 28 bits.
\<close>

theorem elf64_has_correct:
  assumes "\<forall>i < n. m (name + of_nat i) \<noteq> 0" "m (name + of_nat n) = 0"
  shows "elf64_has m name = Some (ucast (sysv_hash (bytes m name n))) \<and> sysv_hash (bytes m name n) < 0x10000000"
proof
  show "elf64_has m name = Some (ucast (sysv_hash (bytes m name n)))"
    using elf64_has_loop_hash [OF assms, of 0] by (simp add: elf64_has_def sysv_hash_def)
  show "sysv_hash (bytes m name n) < 0x10000000"
    by (cases "bytes m name n" rule: rev_cases) (simp_all add: sysv_hash_def sysv_hash_step_bound)
qed

text \<open>The hash of the name \<open>main\<close>.\<close>

theorem elf64_has_correct_witness:
  "elf64_has ((\<lambda>_. 0)(0 := 109, 1 := 97, 2 := 105, 3 := 110)) 0 = Some 0x737fe"
proof -
  let ?m = "(\<lambda>_. 0)(0 := 109, 1 := 97, 2 := 105, 3 := 110) :: mem"
  have "i = 0 \<or> i = 1 \<or> i = 2 \<or> i = 3" if "i < 4" for i :: nat using that by auto
  then have "\<forall>i < 4. ?m (0 + of_nat i) \<noteq> 0" by fastforce
  then have "elf64_has ?m 0 = Some (ucast (sysv_hash (bytes ?m 0 4)))"
    using elf64_has_correct [of 4 ?m 0] by simp
  also have "bytes ?m 0 4 = [109, 97, 105, 110]"
    by (simp add: bytes_def upt_conv_Cons)
  also have "sysv_hash [109, 97, 105, 110] = 0x737fe"
    by (simp add: sysv_hash_def sysv_hash_step_def Let_def)
  finally show ?thesis by (simp del: fun_upd_apply)
qed

section \<open>Relocation entries\<close>

text \<open>
  The relocation macros: symbol index and type are packed into one 64-bit word and recovered from it, for
  every index and type of 32 bits.
\<close>

lemma elf64_r_info_roundtrip:
  assumes "si < 0x100000000" "ty < 0x100000000"
  shows "ELF64_R_SYM (ELF64_R_INFO si ty) = si \<and> ELF64_R_TYPE (ELF64_R_INFO si ty) = ty"
proof -
  define si' ty' :: u32 where "si' = ucast si" and "ty' = ucast ty"
  have e: "si = ucast si'" "ty = ucast ty'"
    using assms by (simp_all add: si'_def ty'_def word_unat_eq_iff unsigned_ucast_eq unsigned_take_bit_eq take_bit_nat_eq_self word_less_nat_alt)
  have m: "ELF64_R_TYPE i = take_bit 32 i" for i
    unfolding ELF64_R_TYPE_def by (simp add: take_bit_eq_mask mask_eq_exp_minus_1)
  have "ELF64_R_INFO si ty = push_bit 32 si + take_bit 32 ty"
    using m [of ty] by (simp add: ELF64_R_INFO_def ELF64_R_TYPE_def)
  also have "\<dots> = push_bit 32 si OR take_bit 32 ty"
    by (rule disjunctive_add) (auto simp: bit_simps)
  finally have i: "ELF64_R_INFO si ty = push_bit 32 si OR take_bit 32 ty" .
  have l: "bit w n \<Longrightarrow> n < 32" for w :: u32 and n using bit_imp_le_length [of w n] by simp
  show ?thesis
    unfolding i m ELF64_R_SYM_def unfolding e
    by (auto intro!: bit_word_eqI simp: bit_simps dest: l)
qed

section \<open>Segments and sections\<close>

text \<open>
  C35: table lookups. For an image of \<open>sz\<close> bytes whose program header table lies inside it, \<open>get_segment\<close> returns the
  address of a header that lies inside the image for every index below \<open>e_phnum\<close>, distinct indices give headers that do
  not overlap, and an index above \<open>e_phnum\<close> is refused. The index \<open>e_phnum\<close> itself is accepted, although it denotes
  the bytes behind the table.
\<close>

theorem get_segment_bounds:
  assumes "unat (e_phoff (read_Ehdr m hdr)) + 56 * unat (e_phnum (read_Ehdr m hdr)) \<le> sz" "unat hdr + sz < 2 ^ 64"
    and "hdr \<noteq> NULL"
  shows "(\<forall>i < unat (e_phnum (read_Ehdr m hdr)). get_segment m hdr (of_nat i) \<noteq> NULL
        \<and> unat hdr \<le> unat (get_segment m hdr (of_nat i)) \<and> unat (get_segment m hdr (of_nat i)) + 56 \<le> unat hdr + sz)
    \<and> (\<forall>i j. i < j \<and> j \<le> unat (e_phnum (read_Ehdr m hdr))
        \<longrightarrow> unat (get_segment m hdr (of_nat i)) + 56 \<le> unat (get_segment m hdr (of_nat j)))
    \<and> (\<forall>i. i > ucast (e_phnum (read_Ehdr m hdr)) \<longrightarrow> get_segment m hdr i = NULL)
    \<and> unat (get_segment m hdr (ucast (e_phnum (read_Ehdr m hdr))))
        = unat hdr + unat (e_phoff (read_Ehdr m hdr)) + 56 * unat (e_phnum (read_Ehdr m hdr))"
proof -
  let ?n = "unat (e_phnum (read_Ehdr m hdr))"
  have n: "(ucast (e_phnum (read_Ehdr m hdr)) :: u64) = of_nat ?n" by simp
  have b: "?n < 2 ^ 16" using unsigned_less [of "e_phnum (read_Ehdr m hdr)", where ?'a = nat] by simp
  have n': "unat (ucast (e_phnum (read_Ehdr m hdr)) :: u64) = ?n" unfolding n using b by (intro unat_of_nat_u64) simp
  have seg: "unat (get_segment m hdr (of_nat i)) = unat hdr + unat (e_phoff (read_Ehdr m hdr)) + 56 * i" if "i \<le> ?n" for i
  proof -
    have le: "\<not> (of_nat i :: u64) > ucast (e_phnum (read_Ehdr m hdr))"
      using that b by (simp add: word_less_nat_alt n')
    have "unat (e_phoff (read_Ehdr m hdr)) + 56 * i < 2 ^ 64 - unat hdr" using assms(1,2) that by simp
    moreover have "unat (56 * of_nat i :: u64) = 56 * i" using that b by (simp add: unat_word_ariths)
    ultimately show ?thesis
      using le by (simp add: get_segment_def unat_word_ariths Let_def)
  qed
  show ?thesis
  proof (intro conjI allI impI; (elim conjE)?)
    fix i assume i: "i < ?n"
    show "get_segment m hdr (of_nat i) \<noteq> NULL" "unat hdr \<le> unat (get_segment m hdr (of_nat i))"
      "unat (get_segment m hdr (of_nat i)) + 56 \<le> unat hdr + sz"
      using seg [of i] i assms by (auto simp: unat_eq_zero)
  next
    fix i j assume "i < j" "j \<le> ?n"
    then show "unat (get_segment m hdr (of_nat i)) + 56 \<le> unat (get_segment m hdr (of_nat j))"
      using seg [of i] seg [of j] by simp
  next
    fix i :: u64 assume "i > ucast (e_phnum (read_Ehdr m hdr))"
    then show "get_segment m hdr i = NULL" by (simp add: get_segment_def)
  next
    show "unat (get_segment m hdr (ucast (e_phnum (read_Ehdr m hdr))))
        = unat hdr + unat (e_phoff (read_Ehdr m hdr)) + 56 * ?n"
      unfolding n by (rule seg) simp
  qed
qed

text \<open>An image at \<open>0x1000\<close> with its program header table, of two entries, at offset 64.\<close>

definition example_image :: mem where
  "example_image = store16 (store64 (\<lambda>_. 0) (0x1000 + 32) 64) (0x1000 + 56) 2"

lemma example_image_fields: "e_phoff (read_Ehdr example_image 0x1000) = 64" "e_phnum (read_Ehdr example_image 0x1000) = 2"
  unfolding read_Ehdr_def example_image_def
  by (simp_all add: apart_def)

theorem get_segment_bounds_witness:
  "unat (get_segment example_image 0x1000 (ucast (e_phnum (read_Ehdr example_image 0x1000)))) = 0x1000 + 64 + 56 * 2"
  using get_segment_bounds [of example_image "0x1000" 176] by (simp add: example_image_fields)

end
