(* ===== verification/Process.thy ===== *)
theory Process
  imports Local_Apic Thread_Array Vmm_Lifecycle Libc_Elf
begin

text \<open>
  Processes and threads (\<open>kernel/process.c\<close>) and the scheduling decision (\<open>kernel/scheduler/scheduler.c\<close>).
  Process and thread objects are maps from addresses; their names are bytes of \<open>kmem\<close> at the offsets of the name fields.
\<close>

section \<open>State\<close>

record process =
  proc_id :: u64
  proc_threads :: thread_array
  proc_vmm :: ptr
  heap_start :: ptr

text \<open>
  \<open>user_mem r\<close> are the bytes of the lower half of the address space whose root page table has the physical address \<open>r\<close>. \<open>idle_t\<close> is the
  address of the idle thread.
\<close>

record proc_state = lapic_state +
  procs :: "ptr \<Rightarrow> process"
  process_list :: ptr
  next_free_pid :: u64
  free_pid_lock :: ptr
  next_free_tid :: u64
  free_tid_lock :: ptr
  user_mem :: "u64 \<Rightarrow> mem"
  idle_t :: ptr

definition PROC_NAME_LEN :: u64 where "PROC_NAME_LEN = 64"
definition THREAD_NAME_LEN :: u64 where "THREAD_NAME_LEN = 64"
definition PROC_SIZE :: u64 where "PROC_SIZE = 128"
definition THREAD_SIZE :: u64 where "THREAD_SIZE = 560"

definition set_proc :: "ptr \<Rightarrow> (process \<Rightarrow> process) \<Rightarrow> 'a proc_state_scheme \<Rightarrow> 'a proc_state_scheme" where
  "set_proc p f s = s\<lparr>procs := (procs s)(p := f (procs s p))\<rparr>"

definition set_thread :: "ptr \<Rightarrow> (thread \<Rightarrow> thread) \<Rightarrow> 'a proc_state_scheme \<Rightarrow> 'a proc_state_scheme" where
  "set_thread t f s = s\<lparr>threads := (threads s)(t := f (threads s t))\<rparr>"

text \<open>The frame that \<open>memset(&t->context, 0, sizeof(int_frame_t))\<close> leaves.\<close>

definition zero_frame :: int_frame where
  "zero_frame = \<lparr>frame_registers = \<lparr>cr2 = 0, r15 = 0, r14 = 0, r13 = 0, r12 = 0, r11 = 0, r10 = 0, r9 = 0, r8 = 0,
       rdi = 0, rsi = 0, rbp = 0, rsp = 0, rbx = 0, rdx = 0, rcx = 0, rax = 0,
       xmm = replicate 16 \<lparr>xmm_low = 0, xmm_high = 0\<rparr>\<rparr>,
     vector_number = 0, error_code = 0, iret_rip = 0, iret_cs = 0, iret_flags = 0, iret_rsp = 0, iret_ss = 0\<rparr>"

section \<open>Threads\<close>

definition add_thread :: "ptr \<Rightarrow> ptr \<Rightarrow> u64 \<Rightarrow> 'a proc_state_scheme \<Rightarrow> (ptr \<times> 'a proc_state_scheme) res" where
  "add_thread proc name entry s =
     bind_res (alloc THREAD_SIZE s) (\<lambda>(t, s).
     if t = NULL then Inr (NULL, s)
     else bind_res (acquire (free_tid_lock s) s) (\<lambda>s.
     let s = set_thread t (\<lambda>x. x\<lparr>tid := next_free_tid s\<rparr>) s;
         s = s\<lparr>next_free_tid := next_free_tid s + 1\<rparr>
     in bind_res (release (free_tid_lock s) s) (\<lambda>s.
     let s = set_thread t (\<lambda>x. x\<lparr>thread_state := WAITING, thread_context := zero_frame
               \<lparr>iret_flags := 0x202, iret_cs := 0x18 OR 3, iret_ss := 0x20 OR 3\<rparr>\<rparr>) s;
         s = s\<lparr>kmem := strncpy (kmem s) (t + 24) name THREAD_NAME_LEN\<rparr>
     in bind_res (vmm_alloc (proc_vmm (procs s proc)) PAGE_SIZE MEMORY_FLAG_WRITE s) (\<lambda>(stack, s).
     if stack = NULL then bind_res (free t s) (\<lambda>s. Inr (NULL, s))
     else let a = areas s stack;
              s = set_thread t (\<lambda>x. x\<lparr>thread_stack := stack, thread_context := (thread_context x)
                    \<lparr>iret_rsp := area_start a + area_size a, iret_rip := entry\<rparr>, thread_proc := proc\<rparr>) s
          in bind_res (array_add (proc_threads (procs s proc)) t s) (\<lambda>(arr, s).
             Inr (t, set_proc proc (\<lambda>p. p\<lparr>proc_threads := arr\<rparr>) s))))))"

definition destroy_process :: "ptr \<Rightarrow> 'a proc_state_scheme \<Rightarrow> 'a proc_state_scheme res" where
  "destroy_process proc s =
     bind_res (get_prev proc s) (\<lambda>pp.
     bind_res (get_next proc s) (\<lambda>pn.
     bind_res (set_next pp pn s) (\<lambda>s.
     bind_res (get_next proc s) (\<lambda>pn.
     bind_res (get_prev proc s) (\<lambda>pp.
     bind_res (set_prev pn pp s) (\<lambda>s.
     bind_res (vmm_destroy (proc_vmm (procs s proc)) s) (\<lambda>s.
     bind_res (free (arr_data (proc_threads (procs s proc))) s) (free proc))))))))"

definition destroy_thread :: "ptr \<Rightarrow> 'a proc_state_scheme \<Rightarrow> 'a proc_state_scheme res" where
  "destroy_thread t s =
     (let proc = thread_proc (threads s t);
          (arr, m) = remove_el (proc_threads (procs s proc)) t (kmem s);
          s = (set_proc proc (\<lambda>p. p\<lparr>proc_threads := arr\<rparr>) s)\<lparr>kmem := m\<rparr>
      in bind_res (vmm_free_area (proc_vmm (procs s proc)) (thread_stack (threads s t)) s) (\<lambda>(_, s).
         bind_res (free t s) (\<lambda>s.
         if arr_len (proc_threads (procs s proc)) = 0 then destroy_process proc s else Inr s)))"

section \<open>Processes\<close>

text \<open>
  A write to the lower half by the kernel. When the page is not present the CPU raises a page fault with a clear present bit; its handler
  (\<open>interrupt_handler.c\<close>) calls \<open>on_demand_allocation\<close> and the write is retried.
\<close>

definition fault_in :: "u64 \<Rightarrow> 'a proc_state_scheme \<Rightarrow> 'a proc_state_scheme res" where
  "fault_in va s =
     bind_res (walk (cr3 s + PHYSICAL_OFFSET) va False s) (\<lambda>(d, s).
       if d \<noteq> 0 \<and> pte_present (pt_mem s d) then Inr s
       else bind_res (on_demand_allocation va s) (\<lambda>(r, s).
            if r \<noteq> 0 then Inl (Panic ''Error for on demand allocation, memory not allocated'') else Inr s))"

definition write_user :: "u64 \<Rightarrow> u8 \<Rightarrow> 'a proc_state_scheme \<Rightarrow> 'a proc_state_scheme res" where
  "write_user va b s =
     bind_res (fault_in va s) (\<lambda>s. Inr (s\<lparr>user_mem := (user_mem s)(cr3 s := (user_mem s (cr3 s))(va := b))\<rparr>))"

text \<open>The \<open>memcpy\<close> of a segment into the address space that is being built.\<close>

definition copy_to_user :: "u64 \<Rightarrow> ptr \<Rightarrow> u64 \<Rightarrow> 'a proc_state_scheme \<Rightarrow> 'a proc_state_scheme res" where
  "copy_to_user dst src n s =
     iter_res (\<lambda>i s. write_user (dst + of_nat i) (kmem s (src + of_nat i)) s) [0..<unat n] s"

text \<open>
  One turn of the loop of \<open>create_process\<close> over the segments; \<open>False\<close> is the jump to \<open>free_vmm\<close>.
\<close>

definition load_segment :: "ptr \<Rightarrow> ptr \<Rightarrow> u64 \<Rightarrow> 'a proc_state_scheme \<Rightarrow> (bool \<times> 'a proc_state_scheme) res" where
  "load_segment vmm elf i s =
     (let p = get_segment (kmem s) elf i; seg = read_Phdr (kmem s) p
      in if p = NULL then Inl NullDeref
      else if p_type seg \<noteq> PT_LOAD then Inr (True, s)
      else let mem_flag = (if p_flags seg AND PF_W \<noteq> 0 then MEMORY_FLAG_WRITE else 0);
               mem_flag = (if p_flags seg AND PF_X \<noteq> 0 then mem_flag OR MEMORY_FLAG_EXEC else mem_flag)
      in bind_res (vmm_alloc_at (p_vaddr seg) vmm (p_memsz seg) (mem_flag OR MEMORY_FLAG_WRITE) s) (\<lambda>(area, s).
         if area = NULL \<or> area_start (areas s area) \<noteq> p_vaddr seg then Inr (False, s)
         else bind_res (copy_to_user (area_start (areas s area)) (elf + p_offset seg) (p_filesz seg) s) (\<lambda>s.
              bind_res (update_area_access vmm area mem_flag s) (\<lambda>(_, s). Inr (True, s)))))"

primrec load_segments :: "nat list \<Rightarrow> ptr \<Rightarrow> ptr \<Rightarrow> 'a proc_state_scheme \<Rightarrow> (bool \<times> 'a proc_state_scheme) res" where
  "load_segments [] vmm elf s = Inr (True, s)"
| "load_segments (i # is) vmm elf s =
     bind_res (load_segment vmm elf (of_nat i) s) (\<lambda>(ok, s).
       if ok then load_segments is vmm elf s else Inr (False, s))"

text \<open>The labels \<open>free_vmm\<close> and \<open>free_proc\<close>.\<close>

definition abandon_process :: "ptr \<Rightarrow> ptr \<Rightarrow> ptr \<Rightarrow> 'a proc_state_scheme \<Rightarrow> (ptr \<times> 'a proc_state_scheme) res" where
  "abandon_process current_vmm vmm proc s =
     bind_res (change_current_vmm current_vmm s) (\<lambda>s.
     bind_res (vmm_destroy vmm s) (\<lambda>s. bind_res (free proc s) (\<lambda>s. Inr (NULL, s))))"

definition create_process :: "ptr \<Rightarrow> ptr \<Rightarrow> bool \<Rightarrow> ptr \<Rightarrow> 'a proc_state_scheme \<Rightarrow> (ptr \<times> 'a proc_state_scheme) res" where
  "create_process name elf user_proc empty_name s =
     (let (cpu, s) = get_cpu s; current_vmm = cpu_vmm (cpu_status_of s cpu)
      in bind_res (alloc PROC_SIZE s) (\<lambda>(proc, s).
      if proc = NULL then Inr (NULL, s)
      else bind_res (acquire (free_pid_lock s) s) (\<lambda>s.
      let s = set_proc proc (\<lambda>p. p\<lparr>proc_id := next_free_pid s\<rparr>) s;
          s = s\<lparr>next_free_pid := next_free_pid s + 1\<rparr>
      in bind_res (release (free_pid_lock s) s) (\<lambda>s.
      let s = s\<lparr>kmem := strncpy (kmem s) (proc + 24) name PROC_NAME_LEN\<rparr>
      in bind_res (vmm_create LOWHALF_START LOWHALF_END user_proc s) (\<lambda>(vmm, s).
      if vmm = NULL then bind_res (free proc s) (\<lambda>s. Inr (NULL, s))
      else let s = push_off (map_higher_half (root_pagetable (vmms s vmm)) s)
      in bind_res (change_current_vmm vmm s) (\<lambda>s.
      let s = set_proc proc (\<lambda>p. p\<lparr>proc_vmm := vmm\<rparr>) s
      in bind_res (load_segments [0..<unat (e_phnum (read_Ehdr (kmem s) elf))] vmm elf s) (\<lambda>(ok, s).
      if \<not> ok then abandon_process current_vmm vmm proc s
      else bind_res (if current_vmm \<noteq> NULL then change_current_vmm current_vmm s else Inr s) (\<lambda>s.
      bind_res (pop_off s) (\<lambda>s.
      bind_res (init_thread_array s) (\<lambda>(arr, s).
      let s = set_proc proc (\<lambda>p. p\<lparr>proc_threads := arr\<rparr>) s
      in bind_res (add_thread proc empty_name (e_entry (read_Ehdr (kmem s) elf)) s) (\<lambda>(t, s).
      if t = NULL then abandon_process current_vmm vmm proc s
      else bind_res (lst_push_end (process_list s) proc s) (\<lambda>s. Inr (proc, s)))))))))))))"

text \<open>Queue every thread of a process, from a start time of 0.\<close>

definition run_thread :: "ptr \<Rightarrow> nat \<Rightarrow> 'a proc_state_scheme \<Rightarrow> 'a proc_state_scheme res" where
  "run_thread p i s =
     (let se = array_get (kmem s) (proc_threads (procs s p)) (of_nat i)
      in if se = NULL then Inl NullDeref
         else cfs_queue se (s\<lparr>sched_entities := (sched_entities s)(se := (sched_entities s se)\<lparr>exec_start_time := 0\<rparr>)\<rparr>))"

definition run_proc :: "ptr \<Rightarrow> 'a proc_state_scheme \<Rightarrow> 'a proc_state_scheme res" where
  "run_proc p s = iter_res (run_thread p) [0..<unat (arr_len (proc_threads (procs s p)))] s"

section \<open>Scheduling\<close>

text \<open>The assignment to \<open>cpu->thread\<close>, through \<open>get_cpu\<close>.\<close>

definition set_current_thread :: "ptr \<Rightarrow> 'a sync_state_scheme \<Rightarrow> 'a sync_state_scheme" where
  "set_current_thread t s = (let (cpu, s) = get_cpu s in update_cpu cpu (\<lambda>c. c\<lparr>cpu_thread := t\<rparr>) s)"

text \<open>
  What \<open>schedule\<close> does with the interrupted thread: the new choice, the interrupt frame and the state. \<open>context\<close> is the frame on the
  interrupt stack.
\<close>

definition retire_thread ::
    "ptr \<Rightarrow> ptr \<Rightarrow> int_frame \<Rightarrow> 'a proc_state_scheme \<Rightarrow> (ptr \<times> 'a proc_state_scheme) res" where
  "retire_thread old_thread new_thread context s =
     (if old_thread = NULL \<or> old_thread = idle_t s then Inr (new_thread, update_rsp0 (iret_rsp context) s)
      else if thread_state (threads s old_thread) \<noteq> DEAD
      then if new_thread = NULL then Inr (old_thread, s)
           else bind_res (cfs_queue old_thread (set_thread old_thread (\<lambda>t. t\<lparr>thread_state := WAITING\<rparr>) s)) (\<lambda>s.
                Inr (new_thread, set_thread old_thread (\<lambda>t. t\<lparr>thread_context := context\<rparr>) s))
      else bind_res (destroy_thread old_thread s) (\<lambda>s. Inr (new_thread, s)))"

definition schedule :: "int_frame \<Rightarrow> 'a proc_state_scheme \<Rightarrow> (int_frame \<times> 'a proc_state_scheme) res" where
  "schedule context s =
     (let saved_rsp = rsp (frame_registers context);
          (cpu, s) = get_cpu s;
          old_thread = cpu_thread (cpu_status_of s cpu);
          se = cfs_pick_next s
      in bind_res (retire_thread old_thread se context s) (\<lambda>(new_thread, s).
         if new_thread = NULL
         then let s = set_current_thread (idle_t s) s;
                  context = context\<lparr>iret_rip := iret_rip (thread_context (threads s (idle_t s))), iret_rsp := get_rsp0 s\<rparr>
              in bind_res (change_current_vmm (kernel_vmm s) s) (\<lambda>s.
                 bind_res (arm_apic_timer 1000000 False s) (\<lambda>s. Inr (context, s)))
         else bind_res
                (if new_thread \<noteq> old_thread
                 then bind_res (cfs_dequeue se s) (\<lambda>s.
                      let s = set_current_thread new_thread
                                (set_thread new_thread (\<lambda>t. t\<lparr>thread_state := ACTIVE\<rparr>) s);
                          context = thread_context (threads s new_thread)
                      in bind_res (change_current_vmm (proc_vmm (procs s (thread_proc (threads s new_thread)))) s)
                           (\<lambda>s. Inr (context, s)))
                 else Inr (context, s)) (\<lambda>(context, s).
              bind_res (arm_apic_timer (get_timeslice new_thread s) False s) (\<lambda>s.
              Inr (context\<lparr>frame_registers := (frame_registers context)\<lparr>rsp := saved_rsp\<rparr>\<rparr>, s)))))"

end
