(* ===== verification/Acpi.thy ===== *)
theory Acpi
  imports Process
begin

text \<open>
  \<open>kernel/acpi.c\<close>: the firmware tables. They are read through the window on physical memory, in \<open>kmem\<close>, at the offsets of the packed
  structures of \<open>acpi.h\<close>.
\<close>

section \<open>State and structures\<close>

record acpi_state = proc_state +
  rsdt :: ptr
  xsdt :: ptr

text \<open>The fields the code reads: \<open>rsdp.revision\<close> and \<open>rsdp.rsdt_addr\<close>, \<open>xsdp.xsdt_address\<close>, and \<open>length\<close> of a table header of 36 bytes.\<close>

definition rsdp_revision :: "mem \<Rightarrow> ptr \<Rightarrow> u8" where "rsdp_revision m p = m (p + 15)"
definition rsdp_rsdt_addr :: "mem \<Rightarrow> ptr \<Rightarrow> u32" where "rsdp_rsdt_addr m p = load32 m (p + 16)"
definition xsdp_xsdt_address :: "mem \<Rightarrow> ptr \<Rightarrow> u64" where "xsdp_xsdt_address m p = load64 m (p + 24)"
definition sdt_length :: "mem \<Rightarrow> ptr \<Rightarrow> u32" where "sdt_length m p = load32 m (p + 4)"
definition SDT_HEADER_SIZE :: u64 where "SDT_HEADER_SIZE = 36"

definition is_acpi_table :: "mem \<Rightarrow> ptr \<Rightarrow> ptr \<Rightarrow> bool" where
  "is_acpi_table m header type \<longleftrightarrow> memcmp m header type 4 = 0"

section \<open>Operations\<close>

text \<open>The sum of \<open>n\<close> bytes from \<open>p\<close> on, in an \<open>u32\<close>.\<close>

definition byte_sum :: "mem \<Rightarrow> ptr \<Rightarrow> nat \<Rightarrow> u32" where
  "byte_sum m p n = foldl (\<lambda>acc i. acc + ucast (m (p + of_nat i))) 0 [0..<n]"

definition validate_sdt :: "mem \<Rightarrow> ptr \<Rightarrow> bool res" where
  "validate_sdt m header =
     (if header = NULL then Inl NullDeref
      else Inr (byte_sum m header (unat (sdt_length m header)) AND 0xFF = 0))"

definition load_rsdp :: "ptr \<Rightarrow> 'a acpi_state_scheme \<Rightarrow> (int \<times> 'a acpi_state_scheme) res" where
  "load_rsdp rsdp s =
     (if rsdp = NULL then Inl NullDeref
      else if byte_sum (kmem s) rsdp 20 AND 0xFF \<noteq> 0 then Inr (1, s)
      else Inr (0, s\<lparr>rsdt := ucast (rsdp_rsdt_addr (kmem s) rsdp) + PHYSICAL_OFFSET\<rparr>))"

text \<open>
  The checksum loop of \<open>load_xsdp\<close> has \<open>sizeof(struct xsdp)\<close>, 36, as its whole condition. It is run for at most \<open>fuel\<close> turns.
\<close>

primrec xsdp_sum_loop :: "nat \<Rightarrow> mem \<Rightarrow> ptr \<Rightarrow> u64 \<Rightarrow> u32 \<Rightarrow> u32 res" where
  "xsdp_sum_loop 0 m xsdp i acc = Inl Diverges"
| "xsdp_sum_loop (Suc fuel) m xsdp i acc =
     (if (36::u64) \<noteq> 0 then xsdp_sum_loop fuel m xsdp (i + 1) (acc + ucast (m (xsdp + i))) else Inr acc)"

definition load_xsdp :: "nat \<Rightarrow> ptr \<Rightarrow> 'a acpi_state_scheme \<Rightarrow> (int \<times> 'a acpi_state_scheme) res" where
  "load_xsdp fuel xsdp s =
     bind_res (load_rsdp xsdp s) (\<lambda>(r, s).
       if r \<noteq> 0 then Inr (1, s)
       else if rsdp_revision (kmem s) xsdp = 0 then Inr (0, s)
       else bind_res (xsdp_sum_loop fuel (kmem s) xsdp 0 0) (\<lambda>acc.
            if acc AND 0xFF \<noteq> 0 then Inr (1, s)
            else Inr (0, s\<lparr>xsdt := xsdp_xsdt_address (kmem s) xsdp + PHYSICAL_OFFSET\<rparr>)))"

text \<open>The search loop over the entries \<open>is\<close> of a table; \<open>addr i\<close> is the physical address in entry \<open>i\<close>.\<close>

primrec find_entry :: "nat list \<Rightarrow> (nat \<Rightarrow> u64) \<Rightarrow> mem \<Rightarrow> ptr \<Rightarrow> ptr" where
  "find_entry [] addr m signature = NULL"
| "find_entry (i # is) addr m signature =
     (let header = addr i + PHYSICAL_OFFSET
      in if is_acpi_table m header signature then header else find_entry is addr m signature)"

definition find_table_in_rsdt :: "ptr \<Rightarrow> 'a acpi_state_scheme \<Rightarrow> ptr" where
  "find_table_in_rsdt signature s =
     (if rsdt s = NULL then NULL
      else let entries = ucast ((ucast (sdt_length (kmem s) (rsdt s)) - SDT_HEADER_SIZE) div 4) :: u32
           in find_entry [0..<unat entries]
                (\<lambda>i. ucast (load32 (kmem s) (rsdt s + SDT_HEADER_SIZE + 4 * of_nat i))) (kmem s) signature)"

definition find_table_in_xsdt :: "ptr \<Rightarrow> 'a acpi_state_scheme \<Rightarrow> ptr" where
  "find_table_in_xsdt signature s =
     (if xsdt s = NULL then NULL
      else let entries = ucast ((ucast (sdt_length (kmem s) (xsdt s)) - SDT_HEADER_SIZE) div 8) :: u32
           in find_entry [0..<unat entries]
                (\<lambda>i. load64 (kmem s) (xsdt s + SDT_HEADER_SIZE + 8 * of_nat i)) (kmem s) signature)"

definition find_table :: "ptr \<Rightarrow> 'a acpi_state_scheme \<Rightarrow> ptr" where
  "find_table signature s = (if xsdt s \<noteq> NULL then find_table_in_xsdt signature s else find_table_in_rsdt signature s)"

section \<open>Checksums\<close>

lemma byte_sum_Suc: "byte_sum m p (Suc n) = byte_sum m p n + ucast (m (p + of_nat n))"
  by (simp add: byte_sum_def)

lemma byte_sum_mod:
  "unat (byte_sum m p n) mod 256 = sum_list (map unat (bytes m p n)) mod 256"
proof (induction n)
  case (Suc n)
  let ?b = "ucast (m (p + of_nat n)) :: u32"
  have "unat (byte_sum m p (Suc n)) mod 256 = (unat (byte_sum m p n) + unat ?b) mod 2 ^ 32 mod 256"
    by (simp add: byte_sum_Suc unat_word_ariths)
  also have "\<dots> = (unat (byte_sum m p n) mod 256 + unat ?b) mod 256"
    by (simp add: mod_mod_cancel mod_simps)
  also have "\<dots> = sum_list (map unat (bytes m p (Suc n))) mod 256"
    unfolding Suc.IH by (simp add: bytes_def unat_ucast_up mod_simps)
  finally show ?case .
qed (simp add: byte_sum_def bytes_def)

lemma low_byte_zero: "(w :: u32) AND 0xFF = 0 \<longleftrightarrow> unat w mod 256 = 0"
proof -
  have "w AND 0xFF = take_bit 8 w" by (simp add: take_bit_eq_mask mask_eq_exp_minus_1)
  then show ?thesis by (simp add: word_unat_eq_iff take_bit_eq_mod unat_mod)
qed

definition root_tables :: "'a acpi_state_scheme \<Rightarrow> ptr list" where
  "root_tables s =
     (if xsdt s \<noteq> NULL
      then map (\<lambda>i. load64 (kmem s) (xsdt s + 36 + 8 * of_nat i) + PHYSICAL_OFFSET)
             [0..<(unat (sdt_length (kmem s) (xsdt s)) - 36) div 8]
      else if rsdt s \<noteq> NULL
      then map (\<lambda>i. ucast (load32 (kmem s) (rsdt s + 36 + 4 * of_nat i)) + PHYSICAL_OFFSET)
             [0..<(unat (sdt_length (kmem s) (rsdt s)) - 36) div 4]
      else [])"

lemma find_entry_find:
  "find_entry is addr m sig = (case find (\<lambda>h. is_acpi_table m h sig) (map (\<lambda>i. addr i + PHYSICAL_OFFSET) is) of
     None \<Rightarrow> NULL | Some h \<Rightarrow> h)"
  by (induction "is") (simp_all add: Let_def)

lemma entry_count:
  assumes "36 \<le> unat (len :: u32)" "k = 4 \<or> k = (8::u64)"
  shows "unat (ucast ((ucast len - SDT_HEADER_SIZE) div k) :: u32) = (unat len - 36) div unat k"
proof -
  have l: "unat (ucast len :: u64) = unat len" by (simp add: unat_ucast_up)
  then have "SDT_HEADER_SIZE \<le> ucast len" using assms(1) by (simp add: SDT_HEADER_SIZE_def word_le_nat_alt)
  then have d: "unat ((ucast len - SDT_HEADER_SIZE) div k) = (unat len - 36) div unat k"
    using l by (simp add: unat_div unat_sub SDT_HEADER_SIZE_def)
  have "(unat len - 36) div unat k \<le> unat len" by (meson div_le_dividend diff_le_self le_trans)
  also have "unat len < 2 ^ 32" using unsigned_less [of len, where ?'a = nat] by simp
  finally show ?thesis using d by (simp add: unsigned_ucast_eq unsigned_take_bit_eq take_bit_nat_eq_self)
qed



text \<open>
  C36: \<open>load_xsdp\<close> never returns on an extended root pointer. Whenever the checksum of the first 20 bytes is right and the revision is
  not 0, the checksum loop over the extended structure is still running after any number of turns.
\<close>

theorem load_xsdp_never_returns:
  assumes "xsdp \<noteq> NULL" "256 dvd sum_list (map unat (bytes (kmem s) xsdp 20))" "rsdp_revision (kmem s) xsdp \<noteq> 0"
  shows "load_xsdp fuel xsdp s = Inl Diverges"
proof -
  have loop: "xsdp_sum_loop fuel m xsdp i a = Inl Diverges" for m i a
    by (induction fuel arbitrary: i a) simp_all
  have "byte_sum (kmem s) xsdp 20 AND 0xFF = 0"
    using assms(2) by (simp add: low_byte_zero byte_sum_mod dvd_eq_mod_eq_0)
  then show ?thesis using assms(1,3) loop by (simp add: load_xsdp_def load_rsdp_def)
qed

theorem load_xsdp_never_returns_witness:
  "\<forall>fuel. \<forall>s :: acpi_state. load_xsdp fuel 0x1000 (s\<lparr>kmem := (\<lambda>_. 0)(0x1000 + 15 := 2, 0x1000 + 8 := 254)\<rparr>) = Inl Diverges"
proof (intro allI)
  fix fuel :: nat and s :: acpi_state
  show "load_xsdp fuel 0x1000 (s\<lparr>kmem := (\<lambda>_. 0)(0x1000 + 15 := 2, 0x1000 + 8 := 254)\<rparr>) = Inl Diverges"
    by (rule load_xsdp_never_returns) (simp_all add: rsdp_revision_def bytes_def upt_conv_Cons)
qed

end
