(* ===== verification/Io_Apic.thy ===== *)
theory Io_Apic
  imports Acpi
begin

text \<open>
  \<open>interrupt/ioapic.c\<close>: the table of interrupt controllers (MADT), and the redirection entries of the I/O interrupt controller. Its
  registers are reached through a select and a data window; they are modelled as storage.
\<close>

section \<open>State\<close>

text \<open>
  \<open>ioapic_regs\<close> are the registers behind the window, \<open>madt_signature\<close> the address of the string \<open>APIC\<close>. \<open>core_available\<close> and
  \<open>core_running\<close> are fields of \<open>kernel_status\<close>.
\<close>

record ioapic_state = acpi_state +
  io_apic_reg_sel :: ptr
  io_apic_win :: ptr
  ioapic_regs :: "u8 \<Rightarrow> u32"
  madt_signature :: ptr
  core_available :: u32
  core_running :: u32
  bsp_id :: u32

definition MAX_CORES :: u32 where "MAX_CORES = 32"
definition IC_TYPE_LAPIC :: u8 where "IC_TYPE_LAPIC = 0"
definition IC_TYPE_IO_APIC :: u8 where "IC_TYPE_IO_APIC = 1"

section \<open>Redirection entries\<close>

text \<open>An access while the window is not mapped dereferences a null pointer when reading and is skipped when writing.\<close>

definition read_ioapic_register :: "u8 \<Rightarrow> 'a ioapic_state_scheme \<Rightarrow> u32 res" where
  "read_ioapic_register reg s = (if io_apic_reg_sel s = NULL then Inl NullDeref else Inr (ioapic_regs s reg))"

definition write_ioapic_register :: "u8 \<Rightarrow> u32 \<Rightarrow> 'a ioapic_state_scheme \<Rightarrow> 'a ioapic_state_scheme" where
  "write_ioapic_register reg value s =
     (if io_apic_reg_sel s = NULL then s else s\<lparr>ioapic_regs := (ioapic_regs s)(reg := value)\<rparr>)"

text \<open>The fields of \<open>io_apic_redirect_t\<close>: vector (bits 0..7), destination mode (11), masked (16), destination (56..63).\<close>

definition write_ioapic_redirect :: "u8 \<Rightarrow> u64 \<Rightarrow> 'a ioapic_state_scheme \<Rightarrow> 'a ioapic_state_scheme" where
  "write_ioapic_redirect index entry s =
     (if index < 0x10 \<or> index > 0x3F then s
      else if index mod 2 \<noteq> 0 then s
      else write_ioapic_register (index + 1) (ucast (drop_bit 32 entry))
             (write_ioapic_register index (ucast (entry AND 0xFFFFFFFF)) s))"

definition set_irq :: "u8 \<Rightarrow> u8 \<Rightarrow> u8 \<Rightarrow> u8 \<Rightarrow> bool \<Rightarrow> 'a ioapic_state_scheme \<Rightarrow> (int \<times> 'a ioapic_state_scheme) res" where
  "set_irq irq idt_entry dest dest_mode masked s =
     bind_res (read_ioapic_register (0x10 + irq * 2) s) (\<lambda>low.
       if get_field 0 8 (ucast low :: u64) \<noteq> 0 then Inr (- 1, s)
       else let entry = ucast idt_entry;
                entry = put_field 11 1 (ucast dest_mode) entry;
                entry = put_field 56 8 (ucast dest) entry;
                entry = put_field 16 1 (if masked then 1 else 0) entry
            in Inr (0, write_ioapic_redirect (0x10 + irq * 2) entry s))"

section \<open>The table of interrupt controllers\<close>

definition ic_type :: "mem \<Rightarrow> ptr \<Rightarrow> u8" where "ic_type m h = m h"
definition ic_length :: "mem \<Rightarrow> ptr \<Rightarrow> u8" where "ic_length m h = m (h + 1)"
definition ic_lapic_flags :: "mem \<Rightarrow> ptr \<Rightarrow> u32" where "ic_lapic_flags m h = load32 m (h + 4)"
definition ic_io_apic_address :: "mem \<Rightarrow> ptr \<Rightarrow> u32" where "ic_io_apic_address m h = load32 m (h + 4)"

text \<open>One turn of the loop over the entries; \<open>False\<close> is the early return when mapping the registers fails.\<close>

definition madt_entry :: "ptr \<Rightarrow> 'a ioapic_state_scheme \<Rightarrow> (bool \<times> 'a ioapic_state_scheme) res" where
  "madt_entry header s =
     (if ic_type (kmem s) header = IC_TYPE_LAPIC
      then Inr (True, if ic_lapic_flags (kmem s) header AND 1 \<noteq> 0
                      then s\<lparr>core_available := core_available s + 1\<rparr> else s)
      else if ic_type (kmem s) header = IC_TYPE_IO_APIC
      then if io_apic_reg_sel s \<noteq> NULL then Inr (True, s)
           else bind_res (map_mmio NULL (ucast (ic_io_apic_address (kmem s) header)) 0x20 True s) (\<lambda>(p, s).
                let s = s\<lparr>io_apic_reg_sel := p\<rparr>
                in if p = NULL then Inr (False, s) else Inr (True, s\<lparr>io_apic_win := p + 0x10\<rparr>))
      else Inr (True, s))"

text \<open>
  The loop advances by the \<open>length\<close> byte of the entry. An entry of length 0 stops its progress; otherwise at most \<open>2 ^ 32\<close> turns fit into the
  table, whose length is a 32-bit field, and that bound is used.
\<close>

definition MADT_BOUND :: nat where "MADT_BOUND = 2 ^ 32 + 1"

primrec madt_loop :: "nat \<Rightarrow> ptr \<Rightarrow> ptr \<Rightarrow> 'a ioapic_state_scheme \<Rightarrow> (bool \<times> 'a ioapic_state_scheme) res" where
  "madt_loop 0 madt header s = Inl Diverges"
| "madt_loop (Suc fuel) madt header s =
     (if \<not> header - madt < ucast (sdt_length (kmem s) madt) then Inr (True, s)
      else bind_res (madt_entry header s) (\<lambda>(ok, s).
           if ok then madt_loop fuel madt (header + ucast (ic_length (kmem s) header)) s else Inr (False, s)))"

definition read_madt :: "'a ioapic_state_scheme \<Rightarrow> (int \<times> 'a ioapic_state_scheme) res" where
  "read_madt s =
     (let madt = find_table (madt_signature s) s
      in if madt = NULL then Inr (1, s)
      else bind_res (madt_loop MADT_BOUND madt (madt + 44) s) (\<lambda>(ok, s).
           if \<not> ok then Inr (1, s)
           else Inr (0, if core_available s > MAX_CORES then s\<lparr>core_available := MAX_CORES\<rparr> else s)))"

section \<open>Programming an interrupt\<close>

text \<open>The redirection entry the controller holds for an interrupt line.\<close>

definition redirect_entry :: "u8 \<Rightarrow> 'a ioapic_state_scheme \<Rightarrow> u64" where
  "redirect_entry irq s = ucast (ioapic_regs s (0x10 + irq * 2)) OR push_bit 32 (ucast (ioapic_regs s (0x10 + irq * 2 + 1)))"

lemma irq_index:
  assumes "irq < 24"
  shows "\<not> 0x10 + irq * 2 < (0x10::u8)" "\<not> 0x10 + irq * 2 > (0x3F::u8)" "(0x10 + irq * 2) mod 2 = (0::u8)"
    "(0x10 + irq * 2 = 0x10 + irq' * 2 \<and> irq' < 24) \<longleftrightarrow> irq = irq' \<and> irq' < 24"
    "irq' < 24 \<Longrightarrow> 0x10 + irq * 2 \<noteq> 0x10 + irq' * 2 + (1::u8)"
proof -
  have u: "unat (0x10 + i * 2 :: u8) = 16 + unat i * 2" if "i < 24" for i :: u8
    using that by (simp add: unat_word_ariths word_less_nat_alt)
  have v: "unat (0x10 + i * 2 + 1 :: u8) = 17 + unat i * 2" if "i < 24" for i :: u8
    using that by (simp add: unat_word_ariths word_less_nat_alt)
  have b: "unat irq < 24" using assms by (simp add: word_less_nat_alt)
  show "\<not> 0x10 + irq * 2 < (0x10::u8)" "\<not> 0x10 + irq * 2 > (0x3F::u8)" "(0x10 + irq * 2) mod 2 = (0::u8)"
    using u [OF assms] b by (simp_all add: word_less_nat_alt word_unat_eq_iff unat_mod)
  show "(0x10 + irq * 2 = 0x10 + irq' * 2 \<and> irq' < 24) \<longleftrightarrow> irq = irq' \<and> irq' < 24"
    using u [OF assms] u [of irq'] by (auto simp: word_unat_eq_iff)
  show "0x10 + irq * 2 \<noteq> 0x10 + irq' * 2 + (1::u8)" if "irq' < 24"
    using u [OF assms] v [OF that] by (auto simp: word_unat_eq_iff) presburger
qed

lemma redirect_split: "(ucast (ucast (e AND 0xFFFFFFFF) :: u32) :: u64) OR push_bit 32 (ucast (ucast (drop_bit 32 e) :: u32)) = e"
proof (rule bit_word_eqI)
  fix n assume "n < LENGTH(64)"
  then show "bit ((ucast (ucast (e AND 0xFFFFFFFF) :: u32) :: u64) OR push_bit 32 (ucast (ucast (drop_bit 32 e) :: u32))) n = bit e n"
    unfolding ucast_masks by (cases "32 \<le> n") (auto simp: bit_simps)
qed

lemma redirect_entry_write:
  assumes "irq < 24" "irq' < 24" "io_apic_reg_sel s \<noteq> NULL"
  shows "redirect_entry irq' (write_ioapic_redirect (0x10 + irq * 2) e s) = (if irq' = irq then e else redirect_entry irq' s)"
proof -
  note i = irq_index [OF assms(1)] irq_index [OF assms(2)]
  have "0x10 + irq * 2 = 0x10 + irq' * 2 \<longleftrightarrow> irq = irq'" using i(4) [of irq'] assms(2) by blast
  moreover have "0x10 + irq * 2 \<noteq> 0x10 + irq' * 2 + 1" "0x10 + irq' * 2 \<noteq> 0x10 + irq * 2 + 1"
    using i(5) [OF assms(2)] i(10) [OF assms(1)] by blast+
  moreover define r where "r = 0x10 + irq * 2"
  moreover define r' where "r' = 0x10 + irq' * 2"
  ultimately have ne: "r = r' \<longleftrightarrow> irq = irq'" "r \<noteq> r' + 1" "r' \<noteq> r + 1" by simp_all
  have w: "write_ioapic_redirect r e s = s\<lparr>ioapic_regs := (ioapic_regs s)(r := ucast (e AND 0xFFFFFFFF), r + 1 := ucast (drop_bit 32 e))\<rparr>"
    using i(1-3) assms(3) by (simp add: write_ioapic_redirect_def write_ioapic_register_def r_def)
  show ?thesis
  proof (cases "irq' = irq")
    case True
    then have "r' = r" by (simp add: r_def r'_def)
    then show ?thesis
      using True redirect_split [of e] unfolding redirect_entry_def r'_def [symmetric] r_def [symmetric] w
      by simp
  next
    case False
    then have "r \<noteq> r'" "r + 1 \<noteq> r' + 1" using ne(1) by auto
    with False ne(2,3) show ?thesis
      unfolding redirect_entry_def r'_def [symmetric] r_def [symmetric] w by auto
  qed
qed

text \<open>
  C30: routing an interrupt line. On a mapped controller \<open>set_irq\<close> refuses a line whose entry already has a vector and changes nothing;
  otherwise it writes the entry of exactly that line, with the vector, the destination, the low bit of the destination
  mode and the mask as given and every other field zero.
\<close>

theorem set_irq_correct:
  assumes "irq < 24" "io_apic_reg_sel s \<noteq> NULL"
  shows "(get_field 0 8 (redirect_entry irq s) \<noteq> 0 \<longrightarrow> set_irq irq v dest mode masked s = Inr (- 1, s))
    \<and> (get_field 0 8 (redirect_entry irq s) = 0 \<longrightarrow>
        (\<exists>s' e. set_irq irq v dest mode masked s = Inr (0, s')
          \<and> (\<forall>i < 24. redirect_entry i s' = (if i = irq then e else redirect_entry i s))
          \<and> get_field 0 8 e = ucast v \<and> get_field 11 1 e = take_bit 1 (ucast mode) \<and> get_field 16 1 e = (if masked then 1 else 0)
          \<and> get_field 56 8 e = ucast dest \<and> get_field 8 3 e = 0 \<and> get_field 12 4 e = 0 \<and> get_field 17 39 e = 0))"
proof -
  define low where "low = ioapic_regs s (0x10 + irq * 2)"
  have g: "get_field 0 8 (redirect_entry irq s) = get_field 0 8 (ucast low :: u64)"
    by (rule bit_word_eqI) (auto simp: redirect_entry_def get_field_def low_def bit_simps)
  have r: "read_ioapic_register (0x10 + irq * 2) s = Inr low" using assms(2) by (simp add: read_ioapic_register_def low_def)
  define e :: u64 where "e = put_field 16 1 (if masked then 1 else 0) (put_field 56 8 (ucast dest)
    (put_field 11 1 (ucast mode) (ucast v)))"
  define s' where "s' = write_ioapic_redirect (0x10 + irq * 2) e s"
  have z: "get_field k n (ucast v :: u64) = 0" if "8 \<le> k" for k n
    by (rule bit_word_eqI) (use that bit_imp_le_length [of v] in \<open>fastforce simp: get_field_def bit_simps\<close>)
  have t: "take_bit 8 (ucast x :: u64) = ucast x" for x :: u8
    by (rule bit_word_eqI) (use bit_imp_le_length [of x] in \<open>fastforce simp: bit_simps\<close>)
  have f: "get_field 0 8 e = ucast v" "get_field 11 1 e = take_bit 1 (ucast mode)" "get_field 16 1 e = (if masked then 1 else 0)"
      "get_field 56 8 e = ucast dest" "get_field 8 3 e = 0" "get_field 12 4 e = 0" "get_field 17 39 e = 0"
    using z t unfolding e_def by (simp_all add: get_put_same get_put_other) (simp add: get_field_def t)
  have eq: "set_irq irq v dest mode masked s = (if get_field 0 8 (redirect_entry irq s) \<noteq> 0 then Inr (- 1, s) else Inr (0, s'))"
    using r g by (simp add: set_irq_def Let_def s'_def e_def)
  have fr: "\<forall>i < 24. redirect_entry i s' = (if i = irq then e else redirect_entry i s)"
    using redirect_entry_write [OF assms(1) _ assms(2)] by (simp add: s'_def)
  show ?thesis
  proof (intro conjI impI)
    assume "get_field 0 8 (redirect_entry irq s) = 0"
    then have "set_irq irq v dest mode masked s = Inr (0, s')" by (simp only: eq) simp
    with fr f show "\<exists>s' e. set_irq irq v dest mode masked s = Inr (0, s')
        \<and> (\<forall>i < 24. redirect_entry i s' = (if i = irq then e else redirect_entry i s))
        \<and> get_field 0 8 e = ucast v \<and> get_field 11 1 e = take_bit 1 (ucast mode) \<and> get_field 16 1 e = (if masked then 1 else 0)
        \<and> get_field 56 8 e = ucast dest \<and> get_field 8 3 e = 0 \<and> get_field 12 4 e = 0 \<and> get_field 17 39 e = 0"
      by blast
  qed (simp only: eq, simp)
qed

theorem set_irq_correct_witness:
  "\<forall>s :: ioapic_state. \<exists>s' e. set_irq 1 0x21 0 0 False (s\<lparr>io_apic_reg_sel := 0x1000, ioapic_regs := (\<lambda>_. 0)\<rparr>) = Inr (0, s')
     \<and> redirect_entry 1 s' = e \<and> get_field 0 8 e = 0x21"
proof
  fix s :: ioapic_state
  let ?s = "s\<lparr>io_apic_reg_sel := 0x1000, ioapic_regs := (\<lambda>_. 0)\<rparr>"
  have "get_field 0 8 (redirect_entry 1 ?s) = 0" by (simp add: redirect_entry_def get_field_def)
  then show "\<exists>s' e. set_irq 1 0x21 0 0 False ?s = Inr (0, s') \<and> redirect_entry 1 s' = e \<and> get_field 0 8 e = 0x21"
    using conjunct2 [OF set_irq_correct [of 1 ?s "0x21" 0 0 False]] by auto
qed

end
