(* ===== verification/Hpet.thy ===== *)
theory Hpet
  imports Io_Apic
begin

text \<open>
  The high-precision timer, \<open>timer/hpet.c\<close>, and the delays and timers built on it, \<open>timer/timer.c\<close>. The registers are storage,
  except the main counter: its successive readings are a sequence \<open>hpet_clock\<close> that the device chooses.
\<close>

section \<open>State\<close>

text \<open>
  \<open>hpet_regs\<close> are the 64-bit registers by their index from \<open>hpet_base_addr\<close> on. \<open>hpet_polls\<close> counts the readings of the main counter,
  \<open>hpet_clock i\<close> is what reading \<open>i\<close> returns. \<open>hpet_signature\<close> is the address of the string \<open>HPET\<close>.
\<close>

record hpet_state = ioapic_state +
  hpet_base_addr :: ptr
  hpet_period :: u32
  timer_count :: u8
  hpet_regs :: "u16 \<Rightarrow> u64"
  hpet_clock :: "nat \<Rightarrow> u64"
  hpet_polls :: nat
  hpet_vec_handler :: "nat \<Rightarrow> u64"
  hpet_signature :: ptr

definition GENERAL_CAPABILTIES_REG :: u16 where "GENERAL_CAPABILTIES_REG = 0"
definition GENERAL_CONFIGURATION_REG :: u16 where "GENERAL_CONFIGURATION_REG = 2"
definition MAIN_COUNTER_VALUE_REG :: u16 where "MAIN_COUNTER_VALUE_REG = 30"
definition TIMER_CONFIG_REG :: "u8 \<Rightarrow> u16" where "TIMER_CONFIG_REG n = 32 + 4 * ucast n"
definition TIMER_COMPARATOR_REG :: "u8 \<Rightarrow> u16" where "TIMER_COMPARATOR_REG n = 33 + 4 * ucast n"
definition HPET_BASE_INT_VEC :: u8 where "HPET_BASE_INT_VEC = 0x30"
definition DEST_PHYSICAL :: u8 where "DEST_PHYSICAL = 0"
definition DEST_LOGICAL :: u8 where "DEST_LOGICAL = 1"

section \<open>Registers\<close>

definition read_hpet_register :: "u16 \<Rightarrow> 'a hpet_state_scheme \<Rightarrow> (u64 \<times> 'a hpet_state_scheme) res" where
  "read_hpet_register reg s =
     (if hpet_base_addr s = NULL then Inl NullDeref
      else if reg = MAIN_COUNTER_VALUE_REG
      then Inr (hpet_clock s (hpet_polls s), s\<lparr>hpet_polls := hpet_polls s + 1\<rparr>)
      else Inr (hpet_regs s reg, s))"

definition write_hpet_register :: "u16 \<Rightarrow> u64 \<Rightarrow> 'a hpet_state_scheme \<Rightarrow> 'a hpet_state_scheme res" where
  "write_hpet_register reg value s =
     (if hpet_base_addr s = NULL then Inl NullDeref
      else Inr (s\<lparr>hpet_regs := (hpet_regs s)(reg := value)\<rparr>))"

definition enable_hpet :: "'a hpet_state_scheme \<Rightarrow> 'a hpet_state_scheme res" where
  "enable_hpet s =
     bind_res (read_hpet_register GENERAL_CONFIGURATION_REG s) (\<lambda>(config, s).
       write_hpet_register GENERAL_CONFIGURATION_REG (config OR 1) s)"

definition configure_timer :: "u8 \<Rightarrow> u64 \<Rightarrow> 'a hpet_state_scheme \<Rightarrow> 'a hpet_state_scheme res" where
  "configure_timer timer conf s =
     (if timer \<ge> timer_count s then Inr s else write_hpet_register (TIMER_CONFIG_REG timer) conf s)"

definition poll_hpet :: "'a hpet_state_scheme \<Rightarrow> (u64 \<times> 'a hpet_state_scheme) res" where
  "poll_hpet s = read_hpet_register MAIN_COUNTER_VALUE_REG s"

text \<open>Nanoseconds since the counter started; the product wraps, the quotient by \<open>1e6\<close> is taken in \<open>double\<close>.\<close>

definition uptime :: "'a hpet_state_scheme \<Rightarrow> (u64 \<times> 'a hpet_state_scheme) res" where
  "uptime s =
     bind_res (poll_hpet s) (\<lambda>(c, s). let femto = c * ucast (hpet_period s) in Inr (femto div 1000000, s))"

section \<open>Waiting\<close>

text \<open>
  \<open>poll_while\<close> is the loop \<open>while (c (poll_hpet()));\<close>, which returns as soon as a reading fails the test; \<open>None\<close> when none ever does.
\<close>

partial_function (option) poll_while :: "(u64 \<Rightarrow> bool) \<Rightarrow> 'a hpet_state_scheme \<Rightarrow> 'a hpet_state_scheme option" where
  "poll_while c s =
     (if c (hpet_clock s (hpet_polls s)) then poll_while c (s\<lparr>hpet_polls := hpet_polls s + 1\<rparr>)
      else Some (s\<lparr>hpet_polls := hpet_polls s + 1\<rparr>))"

definition wait_loop :: "(u64 \<Rightarrow> bool) \<Rightarrow> 'a hpet_state_scheme \<Rightarrow> 'a hpet_state_scheme res" where
  "wait_loop c s = (case poll_while c s of None \<Rightarrow> Inl Diverges | Some s \<Rightarrow> Inr s)"

definition sleep_polled_hpet :: "u64 \<Rightarrow> 'a hpet_state_scheme \<Rightarrow> 'a hpet_state_scheme res" where
  "sleep_polled_hpet femto s =
     bind_res (quotient femto (ucast (hpet_period s))) (\<lambda>cycle.
     bind_res (poll_hpet s) (\<lambda>(main_counter, s).
     let target = main_counter + cycle
     in bind_res (if main_counter > target then wait_loop (\<lambda>v. v > target) s else Inr s)
          (wait_loop (\<lambda>v. v < target))))"

text \<open>
  The conversions \<open>nano * 1e6\<close> to \<open>u64\<close>, which are exact below \<open>2 ^ 53\<close> and undefined from \<open>2 ^ 64\<close> on.
\<close>

definition times_1e6 :: "u64 \<Rightarrow> u64 res" where
  "times_1e6 n = (if unat n * 1000000 < 2 ^ 64 then Inr (n * 1000000) else Inl Undefined)"

definition nanodelay :: "u64 \<Rightarrow> 'a hpet_state_scheme \<Rightarrow> 'a hpet_state_scheme res" where
  "nanodelay nano s = bind_res (times_1e6 nano) (\<lambda>femto. sleep_polled_hpet femto s)"

definition millidelay :: "u64 \<Rightarrow> 'a hpet_state_scheme \<Rightarrow> 'a hpet_state_scheme res" where
  "millidelay milli s = bind_res (times_1e6 milli) (\<lambda>nano. nanodelay nano s)"

section \<open>Timers\<close>

text \<open>
  The inner loop that looks for the lowest set bit of the interrupt lines a timer may use; a word that is not zero has one within 32 turns.
\<close>

primrec next_irq :: "nat \<Rightarrow> u32 \<Rightarrow> u8 \<Rightarrow> u32 \<times> u8" where
  "next_irq 0 available_irq irq_used = (available_irq, irq_used)"
| "next_irq (Suc n) available_irq irq_used =
     (if available_irq AND 1 = 0 then next_irq n (drop_bit 1 available_irq) (irq_used + 1) else (available_irq, irq_used))"

text \<open>
  The outer loop. After a line that \<open>set_irq\<close> refuses neither \<open>available_irq\<close> nor \<open>irq_used\<close> changes, so a loop that has not ended in the
  first turn does not end.
\<close>

definition ROUTE_BOUND :: nat where "ROUTE_BOUND = 32"

primrec route_irq :: "nat \<Rightarrow> u8 \<Rightarrow> u32 \<Rightarrow> u8 \<Rightarrow> 'a hpet_state_scheme \<Rightarrow> (u32 \<times> u8 \<times> 'a hpet_state_scheme) res" where
  "route_irq 0 timer available_irq irq_used s = Inl Diverges"
| "route_irq (Suc fuel) timer available_irq irq_used s =
     (if available_irq = 0 then Inr (0, irq_used, s)
      else let (available_irq, irq_used) = next_irq 32 available_irq irq_used
           in bind_res (set_irq irq_used (0x30 + timer) DEST_LOGICAL 0xFF False s) (\<lambda>(r, s).
              if r = 0 then Inr (available_irq, irq_used, s) else route_irq fuel timer available_irq irq_used s))"

text \<open>
  The fields of \<open>timer_config_t\<close>: \<open>int_enb_cnf\<close> (bit 2), \<open>per_int_cnf\<close> (3), \<open>per_int_cap\<close> (4), \<open>val_set_cnf\<close> (6), \<open>int_route_cnf\<close> (9..13)
  and \<open>int_route_cap\<close> (32..63). The first part of \<open>arm_hpet_timer\<close> chooses an interrupt line; \<open>None\<close> is the return with 1.
\<close>

definition route_timer :: "u8 \<Rightarrow> u64 \<Rightarrow> 'a hpet_state_scheme \<Rightarrow> (u64 option \<times> 'a hpet_state_scheme) res" where
  "route_timer timer config s =
     (if get_field 9 5 config = 0
      then bind_res (route_irq ROUTE_BOUND timer (drop_bit 9 (ucast (get_field 32 32 config))) 9 s)
             (\<lambda>(available_irq, irq_used, s).
               if available_irq = 0 then Inr (None, s) else Inr (Some (put_field 9 5 (ucast irq_used) config), s))
      else Inr (Some config, s))"

definition write_comparator :: "u8 \<Rightarrow> u64 \<Rightarrow> 'a hpet_state_scheme \<Rightarrow> 'a hpet_state_scheme res" where
  "write_comparator timer cycle s =
     bind_res (poll_hpet s) (\<lambda>(v, s). write_hpet_register (TIMER_COMPARATOR_REG timer) (v + cycle) s)"

definition arm_hpet_timer :: "u8 \<Rightarrow> u64 \<Rightarrow> bool \<Rightarrow> 'a hpet_state_scheme \<Rightarrow> (int \<times> 'a hpet_state_scheme) res" where
  "arm_hpet_timer timer femto periodic s =
     (let s = push_off s
      in if timer \<ge> timer_count s then Inr (1, s)
      else bind_res (quotient femto (ucast (hpet_period s))) (\<lambda>cycle.
      bind_res (read_hpet_register (TIMER_CONFIG_REG timer) s) (\<lambda>(config, s).
      bind_res (route_timer timer config s) (\<lambda>(routed, s).
      case routed of
        None \<Rightarrow> Inr (1, s)
      | Some config \<Rightarrow>
          let config = put_field 2 1 1 config; p = (if periodic then 1 else 0)
          in if periodic \<and> get_field 4 1 config = 0 then Inr (1, s)
             else let config = put_field 6 1 p (put_field 3 1 p config)
             in bind_res (write_comparator timer cycle s) (\<lambda>s.
                bind_res (write_hpet_register (TIMER_CONFIG_REG timer) config s) (\<lambda>s.
                bind_res (write_comparator timer cycle s) (\<lambda>s.
                bind_res (if periodic then write_hpet_register (TIMER_COMPARATOR_REG timer) cycle s else Inr s) (\<lambda>s.
                bind_res (pop_off s) (\<lambda>s. Inr (0, s))))))))))"

definition arm_timer :: "u64 \<Rightarrow> bool \<Rightarrow> bool \<Rightarrow> 'a hpet_state_scheme \<Rightarrow> 'a hpet_state_scheme res" where
  "arm_timer nano periodic local s =
     (if local then arm_apic_timer nano periodic s
      else bind_res (times_1e6 nano) (\<lambda>femto. bind_res (arm_hpet_timer 0 femto periodic s) (\<lambda>(_, s). Inr s)))"

section \<open>Initialisation\<close>

text \<open>The physical address of the registers is at offset 44 of the ACPI table.\<close>

definition setup_hpet :: "'a hpet_state_scheme \<Rightarrow> (int \<times> 'a hpet_state_scheme) res" where
  "setup_hpet s =
     (let header = find_table (hpet_signature s) s
      in bind_res (validate_sdt (kmem s) header) (\<lambda>valid.
      if \<not> valid then Inr (1, s)
      else bind_res (map_mmio (kernel_vmm s) (load64 (kmem s) (header + 44)) 0x400 True s) (\<lambda>(base, s).
      let s = s\<lparr>hpet_base_addr := base\<rparr>
      in if base = NULL then Inr (1, s)
      else bind_res (read_hpet_register GENERAL_CAPABILTIES_REG s) (\<lambda>(general_cap, s).
      let s = s\<lparr>timer_count := ucast ((drop_bit 8 general_cap AND 0x1F) + 1), hpet_period := ucast (drop_bit 32 general_cap)\<rparr>
      in bind_res (enable_hpet s) (\<lambda>s.
         Inr (0, fold (\<lambda>i s. set_idt_entry (HPET_BASE_INT_VEC + of_nat i) (hpet_vec_handler s i) GDT_ENTRY_KERNEL_CODE
                  (FLAGS_DPL 0 OR FLAGS_GATE_TYPE 0xE) s) [0..<unat (timer_count s)] s))))))"

section \<open>A delay lasts long enough\<close>

lemma poll_while_ends:
  assumes "\<not> c (hpet_clock s (hpet_polls s + k))"
  shows "\<exists>n. hpet_polls s \<le> n \<and> \<not> c (hpet_clock s n) \<and> wait_loop c s = Inr (s\<lparr>hpet_polls := n + 1\<rparr>)"
  using assms
proof (induction k arbitrary: s)
  case 0
  then show ?case by (auto simp: wait_loop_def poll_while.simps [of c s] intro!: exI [of _ "hpet_polls s"])
next
  case (Suc k)
  let ?s = "s\<lparr>hpet_polls := hpet_polls s + 1\<rparr>"
  show ?case
  proof (cases "c (hpet_clock s (hpet_polls s))")
    case True
    then have e: "wait_loop c s = wait_loop c ?s" by (simp add: wait_loop_def poll_while.simps [of c s])
    have "\<not> c (hpet_clock ?s (hpet_polls ?s + k))" using Suc.prems by simp
    from Suc.IH [OF this] obtain n where "hpet_polls ?s \<le> n" "\<not> c (hpet_clock ?s n)"
        "wait_loop c ?s = Inr (?s\<lparr>hpet_polls := n + 1\<rparr>)" by blast
    then show ?thesis using e by (auto intro!: exI [of _ n])
  next
    case False
    then show ?thesis by (auto simp: wait_loop_def poll_while.simps [of c s] intro!: exI [of _ "hpet_polls s"])
  qed
qed

text \<open>
  A counter that does not run backwards, does not stop and advances by at most \<open>d\<close> from one reading to the next; \<open>t i\<close> is the number of
  ticks at reading \<open>i\<close>, of which the device shows the low 64 bits.
\<close>

definition counter_runs :: "(nat \<Rightarrow> nat) \<Rightarrow> nat \<Rightarrow> 'a hpet_state_scheme \<Rightarrow> bool" where
  "counter_runs t d s \<longleftrightarrow> mono t \<and> (\<forall>n. \<exists>i. n \<le> t i) \<and> (\<forall>i. t (Suc i) \<le> t i + d) \<and> (\<forall>i. hpet_clock s i = of_nat (t i))"

lemma counter_hits:
  assumes "counter_runs t d s" "t p < a"
  shows "\<exists>i > p. a \<le> t i \<and> t i < a + d"
proof -
  have m: "mono t" "\<And>i. t (Suc i) \<le> t i + d" and ex: "\<exists>i. a \<le> t i"
    using assms(1) by (auto simp: counter_runs_def)
  define i where "i = (LEAST i. a \<le> t i)"
  have ai: "a \<le> t i" unfolding i_def using ex by (rule LeastI_ex)
  have p: "p < i" using monoD [OF m(1), of i p] ai assms(2) by (cases "i \<le> p") auto
  then obtain j where j: "i = Suc j" by (cases i) auto
  have "\<not> a \<le> t j" using not_less_Least [of j "\<lambda>i. a \<le> t i"] j by (simp add: i_def)
  then have "t i < a + d" using m(2) [of j] j by simp
  with p ai show ?thesis by blast
qed

lemma counter_reads:
  assumes "counter_runs t d s" "lo + d \<le> 2 ^ 64"
  shows "\<exists>i > p. lo \<le> unat (hpet_clock s i) \<and> unat (hpet_clock s i) < lo + d"
proof -
  define a where "a = 2 ^ 64 * (t p + 1) + lo"
  have "t p < a" by (simp add: a_def)
  from counter_hits [OF assms(1) this] obtain i where i: "p < i" "a \<le> t i" "t i < a + d" by blast
  define r where "r = t i - 2 ^ 64 * (t p + 1)"
  have r: "t i = r + 2 ^ 64 * (t p + 1)" "lo \<le> r" "r < lo + d" using i by (auto simp: r_def a_def)
  have "unat (hpet_clock s i) = t i mod 2 ^ 64"
    using assms(1) by (simp add: counter_runs_def unsigned_of_nat take_bit_eq_mod)
  also have "\<dots> = r" using r assms(2) unfolding r(1) mod_mult_self2 by (intro mod_less) linarith
  finally show ?thesis using i(1) r(2,3) by (intro exI [of _ i]) simp
qed

lemma wait_up:
  assumes "counter_runs t d s" "unat target + d \<le> 2 ^ 64"
  shows "\<exists>n \<ge> k. \<not> hpet_clock s n < target
    \<and> wait_loop (\<lambda>v. v < target) (s\<lparr>hpet_polls := k\<rparr>) = Inr (s\<lparr>hpet_polls := n + 1\<rparr>)"
proof -
  obtain i where "i > k" "unat target \<le> unat (hpet_clock s i)"
    using counter_reads [OF assms, of k] by blast
  then have "\<not> hpet_clock (s\<lparr>hpet_polls := k\<rparr>) (hpet_polls (s\<lparr>hpet_polls := k\<rparr>) + (i - k)) < target"
    by (simp add: word_less_nat_alt)
  from poll_while_ends [of "\<lambda>v. v < target", OF this] show ?thesis by simp
qed

lemma wait_down:
  assumes "counter_runs t d s" "d \<le> unat target + 1" "unat target + d \<le> 2 ^ 64"
  shows "\<exists>n \<ge> k. \<not> hpet_clock s n > target
    \<and> wait_loop (\<lambda>v. v > target) (s\<lparr>hpet_polls := k\<rparr>) = Inr (s\<lparr>hpet_polls := n + 1\<rparr>)"
proof -
  have "0 + d \<le> 2 ^ 64" using assms(3) by simp
  from counter_reads [OF assms(1) this, of k]
  obtain i where "i > k" "unat (hpet_clock s i) < d" by auto
  then have "\<not> hpet_clock (s\<lparr>hpet_polls := k\<rparr>) (hpet_polls (s\<lparr>hpet_polls := k\<rparr>) + (i - k)) > target"
    using assms(2) by (simp add: word_less_nat_alt)
  from poll_while_ends [of "\<lambda>v. v > target", OF this] show ?thesis by simp
qed

text \<open>What two readings say about the ticks between them.\<close>

lemma ticks_passed:
  fixes c0 c1 :: nat
  assumes "T0 \<le> T1" "c0 = T0 mod 2 ^ 64" "c1 = T1 mod 2 ^ 64"
  shows "c0 + k < 2 ^ 64 \<Longrightarrow> c0 + k \<le> c1 \<Longrightarrow> T0 + k \<le> T1"
    and "c1 < c0 \<Longrightarrow> T0 + (2 ^ 64 - c0) \<le> T1"
    and "T0 + (2 ^ 64 - c0) \<le> T1 \<Longrightarrow> k < 2 ^ 64 \<Longrightarrow> 2 ^ 64 \<le> c0 + k \<Longrightarrow> c0 + k - 2 ^ 64 \<le> c1 \<Longrightarrow> T0 + k \<le> T1"
proof -
  obtain q where T0: "T0 = q * 2 ^ 64 + c0" using assms(2) by (metis div_mult_mod_eq)
  have c0: "c0 < 2 ^ 64" using assms(2) by simp
  have low: "c1 = c0 + (T1 - T0)" if "c0 + (T1 - T0) < 2 ^ 64"
  proof -
    have "T1 = c0 + (T1 - T0) + q * 2 ^ 64" using assms(1) T0 by simp
    then have "c1 = (c0 + (T1 - T0)) mod 2 ^ 64" using assms(3) by (metis mod_mult_self1)
    then show ?thesis using that by simp
  qed
  have high: "c1 = c0 + (T1 - T0) - 2 ^ 64" if "2 ^ 64 \<le> c0 + (T1 - T0)" "c0 + (T1 - T0) < 2 * 2 ^ 64"
  proof -
    have "T1 = c0 + (T1 - T0) - 2 ^ 64 + (q + 1) * 2 ^ 64" using assms(1) T0 that by simp
    then have "c1 = (c0 + (T1 - T0) - 2 ^ 64) mod 2 ^ 64" using assms(3) by (metis mod_mult_self1)
    then show ?thesis using that by simp
  qed
  show "T0 + k \<le> T1" if "c0 + k < 2 ^ 64" "c0 + k \<le> c1"
    using that low assms(1) by (cases "c0 + (T1 - T0) < 2 ^ 64") auto
  show "T0 + (2 ^ 64 - c0) \<le> T1" if "c1 < c0"
    using that low assms(1) by (cases "c0 + (T1 - T0) < 2 ^ 64") auto
  show "T0 + k \<le> T1" if "T0 + (2 ^ 64 - c0) \<le> T1" "k < 2 ^ 64" "2 ^ 64 \<le> c0 + k" "c0 + k - 2 ^ 64 \<le> c1"
    using that high c0 assms(1) by (cases "c0 + (T1 - T0) < 2 * 2 ^ 64") auto
qed

lemma target_cases:
  fixes c k :: u64
  shows "\<not> c > c + k \<Longrightarrow> unat c + unat k < 2 ^ 64 \<and> unat (c + k) = unat c + unat k"
    and "c > c + k \<Longrightarrow> 2 ^ 64 \<le> unat c + unat k \<and> unat (c + k) = unat c + unat k - 2 ^ 64"
proof -
  have s: "unat (c + k) = (if unat c + unat k < 2 ^ 64 then unat c + unat k else unat c + unat k - 2 ^ 64)"
    using unat_u64_less [of c] unat_u64_less [of k] by (simp add: unat_word_ariths mod_if)
  show "unat c + unat k < 2 ^ 64 \<and> unat (c + k) = unat c + unat k" if "\<not> c > c + k"
    using that s unat_u64_less [of k] by (simp add: word_less_nat_alt split: if_splits)
  show "2 ^ 64 \<le> unat c + unat k \<and> unat (c + k) = unat c + unat k - 2 ^ 64" if "c > c + k"
    using that s by (simp add: word_less_nat_alt split: if_splits)
qed

lemma counter_value: "counter_runs t d s \<Longrightarrow> unat (hpet_clock s i) = t i mod 2 ^ 64"
  by (simp add: counter_runs_def unsigned_of_nat take_bit_eq_mod)

lemma counter_mono: "counter_runs t d s \<Longrightarrow> i \<le> j \<Longrightarrow> t i \<le> t j"
  by (simp add: counter_runs_def monoD)

text \<open>Waiting for a target before the counter wraps, and for one behind it.\<close>

lemma wait_straight:
  assumes R: "counter_runs t d s" and "target = hpet_clock s p + cyc" "unat target + d \<le> 2 ^ 64" "\<not> hpet_clock s p > target"
  shows "\<exists>n > p. wait_loop (\<lambda>v. v < target) (s\<lparr>hpet_polls := p + 1\<rparr>) = Inr (s\<lparr>hpet_polls := n + 1\<rparr>) \<and> t p + unat cyc \<le> t n"
proof -
  note e = target_cases(1) [OF assms(4) [unfolded assms(2)], folded assms(2)]
  obtain n where n: "p + 1 \<le> n" "\<not> hpet_clock s n < target" "wait_loop (\<lambda>v. v < target) (s\<lparr>hpet_polls := p + 1\<rparr>) = Inr (s\<lparr>hpet_polls := n + 1\<rparr>)"
    using wait_up [OF R assms(3), of "p + 1"] by blast
  have "t p + unat cyc \<le> t n"
  proof (rule ticks_passed(1) [OF _ counter_value [OF R] counter_value [OF R] conjunct1 [OF e]])
    show "t p \<le> t n" using counter_mono [OF R] n(1) by simp
    show "unat (hpet_clock s p) + unat cyc \<le> unat (hpet_clock s n)" using n(2) e by (simp add: word_less_nat_alt)
  qed
  then show ?thesis using n(1,3) by (intro exI [of _ n]) simp
qed

lemma wait_wrapped:
  assumes R: "counter_runs t d s" and "target = hpet_clock s p + cyc" "d \<le> unat target + 1" "unat target + d \<le> 2 ^ 64" "hpet_clock s p > target"
  shows "\<exists>n > p. bind_res (wait_loop (\<lambda>v. v > target) (s\<lparr>hpet_polls := p + 1\<rparr>)) (wait_loop (\<lambda>v. v < target)) = Inr (s\<lparr>hpet_polls := n + 1\<rparr>)
    \<and> t p + unat cyc \<le> t n"
proof -
  note e = target_cases(2) [OF assms(5) [unfolded assms(2)], folded assms(2)]
  obtain j where j: "p + 1 \<le> j" "\<not> hpet_clock s j > target" "wait_loop (\<lambda>v. v > target) (s\<lparr>hpet_polls := p + 1\<rparr>) = Inr (s\<lparr>hpet_polls := j + 1\<rparr>)"
    using wait_down [OF R assms(3,4), of "p + 1"] by blast
  obtain n where n: "j + 1 \<le> n" "\<not> hpet_clock s n < target" "wait_loop (\<lambda>v. v < target) (s\<lparr>hpet_polls := j + 1\<rparr>) = Inr (s\<lparr>hpet_polls := n + 1\<rparr>)"
    using wait_up [OF R assms(4), of "j + 1"] by blast
  have "t p + (2 ^ 64 - unat (hpet_clock s p)) \<le> t j"
  proof (rule ticks_passed(2) [OF _ counter_value [OF R] counter_value [OF R]])
    show "t p \<le> t j" using counter_mono [OF R] j(1) by simp
    show "unat (hpet_clock s j) < unat (hpet_clock s p)" using assms(5) j(2) by (simp add: word_less_nat_alt)
  qed
  also have "t j \<le> t n" using counter_mono [OF R] n(1) by simp
  finally have far: "t p + (2 ^ 64 - unat (hpet_clock s p)) \<le> t n" .
  have "unat cyc < 2 ^ 64" using unat_u64_less [of cyc] by simp
  then have "t p + unat cyc \<le> t n"
  proof (rule ticks_passed(3) [OF _ counter_value [OF R] counter_value [OF R] far _ conjunct1 [OF e], rotated])
    show "t p \<le> t n" using counter_mono [OF R] n(1) j(1) by simp
    show "unat (hpet_clock s p) + unat cyc - 2 ^ 64 \<le> unat (hpet_clock s n)" using n(2) e by (simp add: word_less_nat_alt)
  qed
  then show ?thesis using n(1,3) j(1,3) by (intro exI [of _ n]) simp
qed

text \<open>
  C37: busy waiting ends and is never too short. If the main counter runs (never backwards, without stopping, and by at most \<open>d\<close> ticks between two
  readings, where the target is at least \<open>d\<close> ticks away from both ends of the 64-bit range) then \<open>sleep_polled_hpet\<close> returns, it
  changes nothing but the number of readings, and between its first and its last reading at least the requested time has passed, also when the
  counter wraps around meanwhile.
\<close>

theorem sleep_polled_hpet_correct:
  assumes "counter_runs t d s" "hpet_base_addr s \<noteq> NULL" "hpet_period s \<noteq> 0"
    and target: "target = hpet_clock s (hpet_polls s) + femto div ucast (hpet_period s)"
    and "d \<le> unat target + 1" "unat target + d \<le> 2 ^ 64"
  shows "\<exists>n. sleep_polled_hpet femto s = Inr (s\<lparr>hpet_polls := n + 1\<rparr>) \<and> hpet_polls s < n
    \<and> t (hpet_polls s) + unat femto div unat (hpet_period s) \<le> t n"
proof -
  define p where "p = hpet_polls s"
  define cyc where "cyc = femto div ucast (hpet_period s)"
  have per: "unat (ucast (hpet_period s) :: u64) = unat (hpet_period s)" by (simp add: unat_ucast_up)
  then have "(ucast (hpet_period s) :: u64) \<noteq> 0" using assms(3) by (metis unat_eq_0 unat_0)
  then have q: "quotient femto (ucast (hpet_period s)) = Inr cyc" by (simp add: quotient_def cyc_def)
  have cyc: "unat cyc = unat femto div unat (hpet_period s)" using per by (simp add: cyc_def unat_div)
  have tgt: "target = hpet_clock s p + cyc" by (simp add: target p_def cyc_def)
  have run: "sleep_polled_hpet femto s = bind_res (if hpet_clock s p > target then wait_loop (\<lambda>v. v > target) (s\<lparr>hpet_polls := p + 1\<rparr>)
      else Inr (s\<lparr>hpet_polls := p + 1\<rparr>)) (wait_loop (\<lambda>v. v < target))"
    using assms(2) by (simp add: sleep_polled_hpet_def q poll_hpet_def read_hpet_register_def p_def Let_def target cyc_def)
  have "\<exists>n > p. sleep_polled_hpet femto s = Inr (s\<lparr>hpet_polls := n + 1\<rparr>) \<and> t p + unat cyc \<le> t n"
  proof (cases "hpet_clock s p > target")
    case True
    then show ?thesis using wait_wrapped [OF assms(1) tgt assms(5,6) True] by (simp add: run)
  next
    case False
    then show ?thesis using wait_straight [OF assms(1) tgt assms(6) False] by (simp add: run)
  qed
  then show ?thesis unfolding cyc p_def by blast
qed

theorem sleep_polled_hpet_correct_witness:
  "\<forall>s :: hpet_state. \<exists>n. sleep_polled_hpet 1000 (s\<lparr>hpet_base_addr := 0x1000, hpet_period := 10, hpet_polls := 0,
     hpet_clock := of_nat\<rparr>) = Inr (s\<lparr>hpet_base_addr := 0x1000, hpet_period := 10, hpet_polls := n + 1, hpet_clock := of_nat\<rparr>) \<and> 100 \<le> n"
proof
  fix s :: hpet_state
  let ?s = "s\<lparr>hpet_base_addr := 0x1000, hpet_period := 10, hpet_polls := 0, hpet_clock := of_nat\<rparr>"
  define s1 where "s1 = ?s"
  have f: "hpet_base_addr s1 = 0x1000" "hpet_period s1 = 10" "hpet_polls s1 = 0" "hpet_clock s1 = of_nat"
    by (simp_all add: s1_def)
  have r: "counter_runs (\<lambda>i. i) 1 s1" by (auto simp: counter_runs_def monoI f(4))
  have e: "(100 :: u64) = hpet_clock s1 (hpet_polls s1) + 1000 div ucast (hpet_period s1)" by (simp add: f)
  have "hpet_base_addr s1 \<noteq> NULL" "hpet_period s1 \<noteq> 0" by (simp_all add: f)
  from sleep_polled_hpet_correct [OF r this e]
  obtain n where "sleep_polled_hpet 1000 s1 = Inr (s1\<lparr>hpet_polls := n + 1\<rparr>)"
      "hpet_polls s1 + unat (1000 :: u64) div unat (hpet_period s1) \<le> n" by auto
  then show "\<exists>n. sleep_polled_hpet 1000 ?s = Inr (s\<lparr>hpet_base_addr := 0x1000, hpet_period := 10, hpet_polls := n + 1, hpet_clock := of_nat\<rparr>) \<and> 100 \<le> n"
    by (intro exI [of _ n]) (simp add: f(2,3), simp add: s1_def)
qed
end
