(* ===== verification/Libc_Printf.thy ===== *)
theory Libc_Printf
  imports Libc_Math
begin

text \<open>
  \<open>libc/stdio/printf.c\<close>: the formatter behind \<open>printf\<close>, \<open>sprintf\<close> and \<open>vsprintf\<close>. Format strings are the bytes before the terminating zero; the
  result is what the \<open>dump\<close> callback receives. Both callbacks of the file always succeed, so their failure branches are left out.
\<close>

section \<open>The formatter\<close>

text \<open>A variable argument: an \<open>int\<close>, or a pointer to a string, given by its bytes.\<close>

datatype printf_arg = Int_Arg u32 | Str_Arg "u8 list"

definition INT_MAX :: int where "INT_MAX = 2147483647"

text \<open>\<open>INT_MAX - written\<close> as a \<open>size_t\<close>.\<close>

definition maxrem :: "int \<Rightarrow> u64" where
  "maxrem written = word_of_int (INT_MAX - written)"

text \<open>The digits of a number, from the zeroed buffer of 13 bytes.\<close>

definition int_text :: "u32 \<Rightarrow> u32 \<Rightarrow> bool \<Rightarrow> u8 list res" where
  "int_text base d caps = bind_res (itoa (\<lambda>_. 0) 0 base d caps) (\<lambda>m. Inr (cstring m 0 13))"

text \<open>The first byte of the format decides; 37 is \<open>%\<close>. \<open>format\<close> returns the number of bytes and the bytes.\<close>

definition literal_run :: "u8 list \<Rightarrow> u8 list" where
  "literal_run cs = (case cs of [] \<Rightarrow> [] | c # cs \<Rightarrow> c # takeWhile (\<lambda>x. x \<noteq> 37) cs)"

definition conversion_base :: "u8 \<Rightarrow> u32" where
  "conversion_base c = (if c = 100 \<or> c = 105 then 10 else if c = 111 then 8 else 16)"

function format :: "u8 list \<Rightarrow> printf_arg list \<Rightarrow> int \<Rightarrow> u8 list \<Rightarrow> (int \<times> u8 list) res" where
  "format [] args written out = Inr (written, out)"
| "format (c # cs) args written out =
     (if c \<noteq> 37 \<or> (cs \<noteq> [] \<and> hd cs = 37)
      then let fmt = (if c = 37 then cs else c # cs); run = literal_run fmt
           in if maxrem written < of_nat (length run) then Inr (- 1, out)
              else format (drop (length run) fmt) args (written + int (length run)) (out @ run)
      else case cs of
        [] \<Rightarrow> if maxrem written < 1 then Inr (- 1, out) else Inr (written + 1, out @ [c])
      | d # ds \<Rightarrow>
          if d = 99
          then case args of
                 Int_Arg i # args \<Rightarrow> if maxrem written = 0 then Inr (- 1, out)
                                    else format ds args (written + 1) (out @ [ucast i])
               | _ \<Rightarrow> Inl Undefined
          else if d = 115
          then case args of
                 Str_Arg str # args \<Rightarrow> if maxrem written < of_nat (length str) then Inr (- 1, out)
                                      else format ds args (written + int (length str)) (out @ str)
               | _ \<Rightarrow> Inl Undefined
          else if d \<in> {100, 105, 111, 120, 88}
          then case args of
                 Int_Arg i # args \<Rightarrow> (case int_text (conversion_base d) i (d = 88) of
                     Inl e \<Rightarrow> Inl e
                   | Inr text \<Rightarrow> format ds args (written + int (length text)) (out @ text))
               | _ \<Rightarrow> Inl Undefined
          else if maxrem written < of_nat (length (c # cs)) then Inr (- 1, out)
          else Inr (written + int (length (c # cs)), out @ c # cs))"
  by pat_completeness auto
termination
proof (relation "measure (\<lambda>(f, _). length f)", goal_cases)
  case (2 c cs args written out fmt run)
  then show ?case by (cases cs) (auto simp: literal_run_def split: if_splits list.splits)
qed auto

definition printf :: "u8 list \<Rightarrow> printf_arg list \<Rightarrow> (int \<times> u8 list) res" where
  "printf fmt args = format fmt args 0 []"

text \<open>\<open>write_to_buf\<close>: the output lands at \<open>str\<close>; no terminating zero is written.\<close>

definition vsprintf :: "mem \<Rightarrow> ptr \<Rightarrow> u8 list \<Rightarrow> printf_arg list \<Rightarrow> (int \<times> mem) res" where
  "vsprintf m str fmt args =
     bind_res (format fmt args 0 []) (\<lambda>(n, out).
       Inr (n, \<lambda>a. if unat (a - str) < length out then out ! unat (a - str) else m a))"

declare format.simps [simp del]

section \<open>What is printed\<close>

text \<open>
  A format string as its author means it: literal text, \<open>%%\<close> with the text behind it, and conversions with their arguments. \<open>encode\<close> is the
  string, \<open>render\<close> the intended output.
\<close>

datatype piece = Lit "u8 list" | Percent "u8 list" | Conv u8 printf_arg

fun encode_piece :: "piece \<Rightarrow> u8 list" where
  "encode_piece (Lit cs) = cs"
| "encode_piece (Percent cs) = 37 # 37 # cs"
| "encode_piece (Conv d a) = [37, d]"

fun render_piece :: "piece \<Rightarrow> u8 list" where
  "render_piece (Lit cs) = cs"
| "render_piece (Percent cs) = 37 # cs"
| "render_piece (Conv d (Str_Arg str)) = str"
| "render_piece (Conv d (Int_Arg i)) = (if d = 99 then [ucast i] else itoa_text (unat (conversion_base d)) (d = 88) i)"

fun piece_args :: "piece \<Rightarrow> printf_arg list" where
  "piece_args (Conv d a) = [a]"
| "piece_args _ = []"

fun wf_piece :: "piece \<Rightarrow> bool" where
  "wf_piece (Lit cs) \<longleftrightarrow> cs \<noteq> [] \<and> 37 \<notin> set cs"
| "wf_piece (Percent cs) \<longleftrightarrow> 37 \<notin> set cs"
| "wf_piece (Conv d (Str_Arg str)) \<longleftrightarrow> d = 115"
| "wf_piece (Conv d (Int_Arg i)) \<longleftrightarrow> d \<in> {99, 100, 105, 111, 120, 88}"

fun wf_pieces :: "piece list \<Rightarrow> bool" where
  "wf_pieces [] \<longleftrightarrow> True"
| "wf_pieces (p # ps) \<longleftrightarrow> wf_piece p \<and> wf_pieces ps
     \<and> (case p of Conv _ _ \<Rightarrow> True | _ \<Rightarrow> (case ps of Lit _ # _ \<Rightarrow> False | _ \<Rightarrow> True))"

definition encode :: "piece list \<Rightarrow> u8 list" where "encode ps = concat (map encode_piece ps)"
definition render :: "piece list \<Rightarrow> u8 list" where "render ps = concat (map render_piece ps)"
definition pieces_args :: "piece list \<Rightarrow> printf_arg list" where "pieces_args ps = concat (map piece_args ps)"

lemma int_text_itoa:
  assumes "d \<in> {100, 105, 111, 120, 88}"
  shows "int_text (conversion_base d) i caps = Inr (itoa_text (unat (conversion_base d)) caps i)"
proof -
  let ?b = "conversion_base d"
  have b: "2 \<le> unat ?b" "8 \<le> unat ?b" "unat ?b \<le> 36" using assms by (auto simp: conversion_base_def)
  let ?s = "itoa_text (unat ?b) caps i"
  obtain m' where m': "itoa (\<lambda>_. 0) 0 ?b i caps = Inr m'"
      "\<And>a. m' a = (if unat (a - 0) \<le> length ?s then (?s @ [0]) ! unat (a - 0) else 0)"
    using itoa_writes [OF b(1), of 0 "\<lambda>_. 0" i caps] by (auto simp: Let_def less_Suc_eq_le fits_def)
  have "length ?s \<le> 11" by (rule length_itoa_text(2) [OF b(1,2)])
  then have "cstring m' 0 13 = ?s"
    using itoa_text_digits(1) [OF b(1,3)] by (intro takeWhile_bytes_text) (simp_all add: m'(2))
  then show ?thesis by (simp add: int_text_def m'(1))
qed

lemma literal_run_append:
  assumes "cs \<noteq> []" "37 \<notin> set (tl cs)" "fs = [] \<or> hd fs = 37"
  shows "literal_run (cs @ fs) = cs"
proof -
  have fs: "takeWhile (\<lambda>x. x \<noteq> 37) fs = []" using assms(3) by (cases fs) auto
  have "takeWhile (\<lambda>x. x \<noteq> 37) (ts @ fs) = ts" if "37 \<notin> set ts" for ts
    using that fs by (induction ts) auto
  from this [OF assms(2)] show ?thesis using assms(1) by (cases cs) (simp_all add: literal_run_def)
qed

lemma encode_next:
  assumes "wf_pieces ps" "case ps of Lit _ # _ \<Rightarrow> False | _ \<Rightarrow> True"
  shows "encode ps = [] \<or> hd (encode ps) = 37"
proof (cases ps)
  case (Cons p ps')
  then show ?thesis using assms by (cases p) (auto simp: encode_def)
qed (simp add: encode_def)

lemma maxrem_ok:
  assumes "0 \<le> w" "w + int n \<le> INT_MAX"
  shows "\<not> maxrem w < of_nat n"
proof -
  have "maxrem w = of_nat (nat (INT_MAX - w))" using assms by (simp add: maxrem_def of_nat_nat)
  moreover have "unat (of_nat (nat (INT_MAX - w)) :: u64) = nat (INT_MAX - w)" "unat (of_nat n :: u64) = n"
    using assms by (intro unat_of_nat_u64; simp add: INT_MAX_def)+
  ultimately show ?thesis using assms by (simp add: word_less_nat_alt)
qed

lemma format_run:
  assumes "c \<noteq> 37 \<or> (cs \<noteq> [] \<and> hd cs = 37)" "fmt = (if c = 37 then cs else c # cs)" "literal_run fmt = run"
    and "0 \<le> w" "w + int (length run) \<le> INT_MAX"
  shows "format (c # cs) args w out = format (drop (length run) fmt) args (w + int (length run)) (out @ run)"
  using assms(1-3) maxrem_ok [OF assms(4,5)] by (subst format.simps) (simp only: if_True Let_def if_False)

lemma format_pieces:
  assumes "wf_pieces ps" "0 \<le> w" "w + int (length (render ps)) \<le> INT_MAX"
  shows "format (encode ps) (pieces_args ps) w out = Inr (w + int (length (render ps)), out @ render ps)"
  using assms
proof (induction ps arbitrary: w out)
  case Nil
  then show ?case by (simp add: encode_def render_def pieces_args_def format.simps)
next
  case (Cons p ps)
  have e: "encode (p # ps) = encode_piece p @ encode ps" "render (p # ps) = render_piece p @ render ps"
      "pieces_args (p # ps) = piece_args p @ pieces_args ps"
    by (simp_all add: encode_def render_def pieces_args_def)
  let ?r = "render_piece p"
  have IH: "format (encode ps) (pieces_args ps) (w + int (length ?r)) (out @ ?r)
      = Inr (w + int (length (render (p # ps))), out @ render (p # ps))"
    using Cons.IH [of "w + int (length ?r)" "out @ ?r"] Cons.prems by (simp add: e algebra_simps)
  have len: "w + int (length ?r) \<le> INT_MAX" using Cons.prems(3) by (simp add: e)
  have "format (encode (p # ps)) (pieces_args (p # ps)) w out
      = format (encode ps) (pieces_args ps) (w + int (length ?r)) (out @ ?r)"
  proof (cases p)
    case (Lit cs)
    then obtain c cs' where cs: "cs = c # cs'" "c \<noteq> 37" "37 \<notin> set cs'" using Cons.prems(1) by (cases cs) auto
    have nx: "encode ps = [] \<or> hd (encode ps) = 37"
      using Cons.prems(1) Lit by (intro encode_next) simp_all
    have "literal_run (c # cs' @ encode ps) = c # cs'" using literal_run_append [of "c # cs'", OF _ _ nx] cs by simp
    then show ?thesis
      unfolding e using format_run [of c "cs' @ encode ps" _ "c # cs'" w] cs Cons.prems(2) len by (simp add: Lit)
  next
    case (Percent cs)
    have nx: "encode ps = [] \<or> hd (encode ps) = 37"
      using Cons.prems(1) Percent by (intro encode_next) simp_all
    have "literal_run (37 # cs @ encode ps) = 37 # cs"
      using literal_run_append [of "37 # cs", OF _ _ nx] Cons.prems(1) Percent by simp
    then show ?thesis
      unfolding e using format_run [of 37 "37 # cs @ encode ps" _ "37 # cs" w] Cons.prems(2) len by (simp add: Percent)
  next
    case (Conv d a)
    show ?thesis
    proof (cases a)
      case (Str_Arg str)
      then show ?thesis
        unfolding e using Cons.prems(1,2) len maxrem_ok [of w "length str"] by (simp add: Conv format.simps)
    next
      case (Int_Arg i)
      then have d: "d \<in> {99, 100, 105, 111, 120, 88}" using Cons.prems(1) by (simp add: Conv)
      show ?thesis
      proof (cases "d = 99")
        case True
        then show ?thesis
          unfolding e using Int_Arg Cons.prems(2) len maxrem_ok [of w 1] by (auto simp: Conv format.simps)
      next
        case False
        then show ?thesis
          unfolding e using d Int_Arg int_text_itoa [of d i "d = 88"] by (auto simp: Conv format.simps)
      qed
    qed
  qed
  with IH show ?case by simp
qed

text \<open>
  C27: formatted output. For every format string made of text, \<open>%%\<close> and the conversions \<open>%c %s %d %i %o %x %X\<close> with matching arguments, whose output has at
  most \<open>INT_MAX\<close> bytes, \<open>printf\<close> returns the number of bytes and has emitted exactly the text with every conversion replaced by its
  argument; \<open>vsprintf\<close> writes these bytes at the destination and nothing else.
\<close>

theorem printf_correct:
  assumes "wf_pieces ps" "int (length (render ps)) \<le> INT_MAX"
  shows "printf (encode ps) (pieces_args ps) = Inr (int (length (render ps)), render ps)
    \<and> (\<exists>m'. vsprintf m str (encode ps) (pieces_args ps) = Inr (int (length (render ps)), m')
        \<and> bytes m' str (length (render ps)) = render ps
        \<and> (\<forall>a. length (render ps) \<le> unat (a - str) \<longrightarrow> m' a = m a))"
proof -
  have f: "format (encode ps) (pieces_args ps) 0 [] = Inr (int (length (render ps)), render ps)"
    using format_pieces [OF assms(1), of 0 "[]"] assms(2) by simp
  have l: "i < length (render ps) \<Longrightarrow> unat (of_nat i :: u64) = i" for i
    using assms(2) by (intro unat_of_nat_u64) (simp add: INT_MAX_def)
  show ?thesis
    using f l by (auto simp: printf_def vsprintf_def intro!: nth_equalityI)
qed

text \<open>\<open>"n=%d, 100%%"\<close> with the argument -5.\<close>

theorem printf_correct_witness:
  "printf [110, 61, 37, 100, 44, 32, 49, 48, 48, 37, 37] [Int_Arg (- 5)] = Inr (10, [110, 61, 45, 53, 44, 32, 49, 48, 48, 37])"
proof -
  let ?ps = "[Lit [110, 61], Conv 100 (Int_Arg (- 5)), Lit [44, 32, 49, 48, 48], Percent []]"
  have b: "base_digits 10 5 = [5]" by (simp add: base_digits.simps)
  have "itoa_text 10 False (- 5) = [45, 53]" by (simp add: itoa_text_def b digit_char_def)
  then have r: "render ?ps = [110, 61, 45, 53, 44, 32, 49, 48, 48, 37]"
    by (simp add: render_def conversion_base_def)
  have "encode ?ps = [110, 61, 37, 100, 44, 32, 49, 48, 48, 37, 37]" "pieces_args ?ps = [Int_Arg (- 5)]"
    by (simp_all add: encode_def pieces_args_def)
  then show ?thesis using conjunct1 [OF printf_correct [of ?ps]] r by (simp add: INT_MAX_def)
qed

end
