(* ===== verification/Tty.thy ===== *)
theory Tty
  imports Hpet Libc_Printf
begin

text \<open>
  \<open>kernel/tty.c\<close>: the text terminal. The characters are kept in a buffer of the kernel heap, one row of \<open>TERMINAL_WIDTH + 1\<close> bytes for each line, and
  drawn into the frame buffer with the glyphs of a bitmap font.
\<close>

section \<open>State\<close>

text \<open>\<open>font\<close> is the link-time address of the font; the frame buffer is written through \<open>mmio32\<close>.\<close>

record tty_state = hpet_state +
  display_addr :: ptr
  display_pitch :: u32
  display_width :: u32
  display_height :: u32
  display_bpp :: u8
  font :: ptr
  font_start :: ptr
  TERMINAL_WIDTH :: u64
  TERMINAL_HEIGHT :: u64
  row :: u64
  column :: u64
  fg :: u16
  bg :: u16
  tty_buffer :: ptr

definition font_headersize :: "'a tty_state_scheme \<Rightarrow> u32" where "font_headersize s = load32 (kmem s) (font s + 8)"
definition font_bytesperglyph :: "'a tty_state_scheme \<Rightarrow> u32" where "font_bytesperglyph s = load32 (kmem s) (font s + 20)"
definition font_height :: "'a tty_state_scheme \<Rightarrow> u32" where "font_height s = load32 (kmem s) (font s + 24)"
definition font_width :: "'a tty_state_scheme \<Rightarrow> u32" where "font_width s = load32 (kmem s) (font s + 28)"

text \<open>The index expression \<open>x + y * (TERMINAL_WIDTH + 1)\<close>.\<close>

definition cell :: "u64 \<Rightarrow> u64 \<Rightarrow> 'a tty_state_scheme \<Rightarrow> ptr" where
  "cell x y s = tty_buffer s + (x + y * (TERMINAL_WIDTH s + 1))"

definition set_cell :: "u64 \<Rightarrow> u64 \<Rightarrow> u8 \<Rightarrow> 'a tty_state_scheme \<Rightarrow> 'a tty_state_scheme" where
  "set_cell x y c s = s\<lparr>kmem := (kmem s)(cell x y s := c)\<rparr>"

section \<open>Drawing\<close>

text \<open>
  One glyph. \<open>c\<close> is a \<open>char\<close>, extended with its sign in the product; the offset into the glyph is held in eight bits.
\<close>

definition terminal_render_char :: "u64 \<Rightarrow> u64 \<Rightarrow> u8 \<Rightarrow> 'a tty_state_scheme \<Rightarrow> 'a tty_state_scheme" where
  "terminal_render_char x_org y_org c s =
     (let font_char = font_start s + ucast (scast c * font_bytesperglyph s);
          fw = unat (font_width s);
          bytes_per_row = (fw + 7) div 8
      in fold (\<lambda>y s. fold (\<lambda>k s. fold (\<lambda>i s.
             if fw \<le> 8 * k + i then s
             else let index = display_addr s + (y_org + of_nat y * ucast (display_pitch s)) + x_org
                        + of_nat (8 * k + i) * ucast (display_bpp s div 8);
                      offset = word_of_int (ceildiv (int fw) 8 * int y + int k) :: u8
                  in if kmem s (font_char + ucast offset) AND drop_bit i 0x80 \<noteq> 0
                     then s\<lparr>mmio32 := (mmio32 s)(index := ucast (fg s))\<rparr>
                     else s\<lparr>mmio32 := (mmio32 s)(index := ucast (bg s))\<rparr>) [0..<8] s)
           [0..<bytes_per_row] s) [0..<unat (font_height s)] s)"

definition terminal_render :: "'a tty_state_scheme \<Rightarrow> 'a tty_state_scheme" where
  "terminal_render s =
     fold (\<lambda>y s. fold (\<lambda>x s.
       let y0 = of_nat y * ucast (font_height s + 1) * ucast (display_pitch s);
           x0 = of_nat x * ucast (font_width s + 1) * ucast (display_bpp s div 8);
           c = kmem s (cell (of_nat x) (of_nat y) s)
       in terminal_render_char x0 y0 (if c = 0 \<or> c = 10 then 32 else c) s)
       [0..<unat (TERMINAL_WIDTH s)] s) [0..<unat (TERMINAL_HEIGHT s)] s"

section \<open>The text buffer\<close>

definition terminal_clear :: "'a tty_state_scheme \<Rightarrow> (int \<times> 'a tty_state_scheme) res" where
  "terminal_clear s =
     (if display_addr s = 0 then Inr (1, s)
      else let n = TERMINAL_HEIGHT s * (TERMINAL_WIDTH s + 1)
      in if tty_buffer s = NULL \<and> n \<noteq> 0 then Inl NullDeref
      else Inr (0, s\<lparr>kmem := memset (kmem s) (tty_buffer s) 0 n,
             mmio32 := (\<lambda>a. if a - display_addr s < ucast (display_pitch s * display_height s) then 0 else mmio32 s a)\<rparr>))"

definition terminal_initialize :: "ptr \<Rightarrow> 'a tty_state_scheme \<Rightarrow> (int \<times> 'a tty_state_scheme) res" where
  "terminal_initialize fb s =
     (let m = kmem s;
          s = s\<lparr>display_addr := load64 m fb, display_pitch := load32 m (fb + 8), display_width := load32 m (fb + 12),
                display_height := load32 m (fb + 16), display_bpp := m (fb + 20)\<rparr>
      in bind_res (map_mmio NULL (display_addr s) (ucast (display_pitch s * display_height s)) True s) (\<lambda>(vaddr, s).
      if vaddr = 0 then Inr (1, s)
      else if font_height s + 1 = 0 \<or> font_width s + 1 = 0 then Inl DivideError
      else let s = s\<lparr>display_addr := vaddr, font_start := font s + ucast (font_headersize s),
                 TERMINAL_HEIGHT := ucast (display_height s div (font_height s + 1)),
                 TERMINAL_WIDTH := ucast (display_width s div (font_width s + 1)),
                 row := 0, column := 0, fg := 0xFFFF, bg := 0\<rparr>
      in bind_res (alloc (TERMINAL_HEIGHT s * (TERMINAL_WIDTH s + 1)) s) (\<lambda>(p, s).
         terminal_clear (s\<lparr>tty_buffer := p\<rparr>))))"

definition terminal_move_up :: "'a tty_state_scheme \<Rightarrow> 'a tty_state_scheme" where
  "terminal_move_up s =
     (let w = TERMINAL_WIDTH s + 1; h = unat (TERMINAL_HEIGHT s);
          m = fold (\<lambda>y m. memcpy m (tty_buffer s + of_nat (y - 1) * w) (tty_buffer s + of_nat y * w) w) [1..<h] (kmem s);
          y = (if h = 0 then 1 else h)
      in terminal_render (s\<lparr>kmem := memset m (tty_buffer s + of_nat (y - 1) * w) 0 w\<rparr>))"

definition terminal_return :: "'a tty_state_scheme \<Rightarrow> 'a tty_state_scheme" where
  "terminal_return s =
     (let s = set_cell (column s) (row s) 10 s;
          s = s\<lparr>row := row s + 1\<rparr>;
          s = (if row s = TERMINAL_HEIGHT s then let s = terminal_move_up s in s\<lparr>row := row s - 1\<rparr> else s)
      in s\<lparr>column := 0\<rparr>)"

definition terminal_putchar :: "u8 \<Rightarrow> 'a tty_state_scheme \<Rightarrow> 'a tty_state_scheme" where
  "terminal_putchar c s =
     (let s = (if column s = TERMINAL_WIDTH s then terminal_return s else s);
          s = set_cell (column s) (row s) c s
      in s\<lparr>column := column s + 1\<rparr>)"

text \<open>
  The scan for the end of the previous line. It reads rows \<open>TERMINAL_WIDTH - 1\<close> bytes apart, has no bound, and is run for at most \<open>fuel\<close> turns.
\<close>

primrec find_newline :: "nat \<Rightarrow> 'a tty_state_scheme \<Rightarrow> 'a tty_state_scheme res" where
  "find_newline 0 s = Inl Diverges"
| "find_newline (Suc fuel) s =
     (if kmem s (tty_buffer s + (column s + row s * (TERMINAL_WIDTH s - 1))) \<noteq> 10
      then find_newline fuel (s\<lparr>column := column s + 1\<rparr>) else Inr s)"

definition terminal_backspace :: "'a tty_state_scheme \<Rightarrow> 'a tty_state_scheme res" where
  "terminal_backspace s =
     (if column s \<noteq> 0
      then let s = terminal_putchar 0 (s\<lparr>column := column s - 1\<rparr>) in Inr (s\<lparr>column := column s - 1\<rparr>)
      else if row s \<noteq> 0 then find_newline (2 ^ 64) (s\<lparr>row := row s - 1, column := 0\<rparr>)
      else Inr s)"

definition terminal_write :: "u8 \<Rightarrow> 'a tty_state_scheme \<Rightarrow> 'a tty_state_scheme res" where
  "terminal_write data s =
     (if display_addr s = 0 then Inr s
      else let s = (if 0x20 \<le> data \<and> data < 0x7F then terminal_putchar data s else s)
      in bind_res
           (if data = 8 then bind_res (terminal_backspace s) (\<lambda>s. Inr (set_cell (column s) (row s) 0 s))
            else if data = 10 then Inr (terminal_return (set_cell (column s) (row s) data s))
            else Inr s) (\<lambda>s. Inr (terminal_render s)))"

definition terminal_writestring :: "u8 list \<Rightarrow> 'a tty_state_scheme \<Rightarrow> 'a tty_state_scheme res" where
  "terminal_writestring str s = iter_res terminal_write str s"

text \<open>\<open>printf\<close> of the kernel's C library ends in \<open>putchar\<close>, which is \<open>terminal_write\<close>.\<close>

definition kprintf :: "u8 list \<Rightarrow> printf_arg list \<Rightarrow> 'a tty_state_scheme \<Rightarrow> (int \<times> 'a tty_state_scheme) res" where
  "kprintf fmt args s =
     bind_res (printf fmt args) (\<lambda>(n, out). bind_res (iter_res terminal_write out s) (\<lambda>s. Inr (n, s)))"

section \<open>Independence of later fields\<close>

text \<open>\<open>with_ext e s\<close> replaces the fields that later components add to the state. The terminal neither reads nor writes them.\<close>

definition with_ext :: "'a \<Rightarrow> 'a tty_state_scheme \<Rightarrow> 'a tty_state_scheme" where
  "with_ext e s = tty_state.more_update (\<lambda>_. e) s"

lemma with_ext_fields [simp]:
  "kmem (with_ext e s) = kmem s" "mmio32 (with_ext e s) = mmio32 s" "row (with_ext e s) = row s" "column (with_ext e s) = column s"
  "TERMINAL_WIDTH (with_ext e s) = TERMINAL_WIDTH s" "TERMINAL_HEIGHT (with_ext e s) = TERMINAL_HEIGHT s"
  "tty_buffer (with_ext e s) = tty_buffer s" "display_addr (with_ext e s) = display_addr s" "display_pitch (with_ext e s) = display_pitch s"
  "display_bpp (with_ext e s) = display_bpp s" "fg (with_ext e s) = fg s" "bg (with_ext e s) = bg s" "font (with_ext e s) = font s"
  "font_start (with_ext e s) = font_start s"
  by (simp_all add: with_ext_def)

lemma with_ext_updates [simp]:
  "(with_ext e s)\<lparr>kmem := m\<rparr> = with_ext e (s\<lparr>kmem := m\<rparr>)" "(with_ext e s)\<lparr>mmio32 := d\<rparr> = with_ext e (s\<lparr>mmio32 := d\<rparr>)"
  "(with_ext e s)\<lparr>row := r\<rparr> = with_ext e (s\<lparr>row := r\<rparr>)" "(with_ext e s)\<lparr>column := c\<rparr> = with_ext e (s\<lparr>column := c\<rparr>)"
  by (cases s, simp add: with_ext_def)+

lemma with_ext_derived [simp]:
  "font_height (with_ext e s) = font_height s" "font_width (with_ext e s) = font_width s"
  "font_bytesperglyph (with_ext e s) = font_bytesperglyph s" "cell x y (with_ext e s) = cell x y s"
  "set_cell x y c (with_ext e s) = with_ext e (set_cell x y c s)"
  by (simp_all add: font_height_def font_width_def font_bytesperglyph_def cell_def set_cell_def)

lemma fold_with_ext:
  "(\<And>x s. f x (with_ext e s) = with_ext e (f x s)) \<Longrightarrow> fold f xs (with_ext e s) = with_ext e (fold f xs s)"
  by (induction xs arbitrary: s) simp_all

lemma render_with_ext [simp]: "terminal_render (with_ext e s) = with_ext e (terminal_render s)"
proof -
  have "terminal_render_char x y c (with_ext e s) = with_ext e (terminal_render_char x y c s)" for x y c s
    unfolding terminal_render_char_def Let_def with_ext_fields with_ext_derived
    by (intro fold_with_ext) (simp add: Let_def)
  then have "fold (\<lambda>x s. let y0 = of_nat y * ucast (font_height s + 1) * ucast (display_pitch s);
           x0 = of_nat x * ucast (font_width s + 1) * ucast (display_bpp s div 8);
           c = kmem s (cell (of_nat x) (of_nat y) s)
       in terminal_render_char x0 y0 (if c = 0 \<or> c = 10 then 32 else c) s) xs (with_ext e s)
     = with_ext e (fold (\<lambda>x s. let y0 = of_nat y * ucast (font_height s + 1) * ucast (display_pitch s);
           x0 = of_nat x * ucast (font_width s + 1) * ucast (display_bpp s div 8);
           c = kmem s (cell (of_nat x) (of_nat y) s)
       in terminal_render_char x0 y0 (if c = 0 \<or> c = 10 then 32 else c) s) xs s)" for y xs s
    by (intro fold_with_ext) (simp add: Let_def)
  then show ?thesis unfolding terminal_render_def with_ext_fields by (intro fold_with_ext) (simp only: with_ext_fields)
qed

lemma return_with_ext [simp]: "terminal_return (with_ext e s) = with_ext e (terminal_return s)"
  by (simp add: terminal_return_def terminal_move_up_def Let_def)

lemma putchar_with_ext [simp]: "terminal_putchar c (with_ext e s) = with_ext e (terminal_putchar c s)"
  by (simp add: terminal_putchar_def Let_def)

lemma find_newline_with_ext [simp]:
  "find_newline n (with_ext e s) = bind_res (find_newline n s) (\<lambda>s. Inr (with_ext e s))"
  by (induction n arbitrary: s) simp_all

lemma write_with_ext: "terminal_write c (with_ext e s) = bind_res (terminal_write c s) (\<lambda>s. Inr (with_ext e s))"
  by (simp add: terminal_write_def terminal_backspace_def Let_def bind_res_assoc)

lemma write_keeps_ext:
  assumes "terminal_write c s = Inr s'"
  shows "tty_state.more s' = tty_state.more s"
proof -
  have "with_ext (tty_state.more s) s = s" by (cases s) (simp add: with_ext_def)
  then have "s' = with_ext (tty_state.more s) s'"
    using write_with_ext [of c "tty_state.more s" s] assms by simp
  then have "tty_state.more s' = tty_state.more (with_ext (tty_state.more s) s')" by simp
  then show ?thesis by (simp add: with_ext_def)
qed

end
