(* ===== verification/Kernel_Log.thy ===== *)
theory Kernel_Log
  imports Tty
begin

text \<open>
  The serial port (\<open>kernel/serial.c\<close>), the output to QEMU over it (\<open>kernel/debug/qemu.c\<close>) and the kernel log (\<open>kernel/log.c\<close>). Strings are the
  bytes before the terminating zero. The buffers of the log are arrays of fixed size on the stack: writing beyond one is \<open>Undefined\<close>.
\<close>

section \<open>State\<close>

text \<open>\<open>port_input i p\<close> is what the device at port \<open>p\<close> answers when it is the \<open>i\<close>-th reading of a port.\<close>

record log_state = tty_state +
  port_input :: "nat \<Rightarrow> u16 \<Rightarrow> u8"
  port_reads :: nat
  qemu_serial_lock :: ptr
  log_qemu :: bool
  log_tty :: bool

definition inb :: "u16 \<Rightarrow> 'a log_state_scheme \<Rightarrow> u8 \<times> 'a log_state_scheme" where
  "inb port s = (port_input s (port_reads s) port, s\<lparr>port_reads := port_reads s + 1\<rparr>)"

section \<open>The serial port\<close>

definition init_serial :: "u16 \<Rightarrow> 'a log_state_scheme \<Rightarrow> int \<times> 'a log_state_scheme" where
  "init_serial port s =
     (let s = outb (port + 1) 0x00 s;
          s = outb (port + 3) 0x80 s;
          s = outb (port + 0) 0x0C s;
          s = outb (port + 1) 0x00 s;
          s = outb (port + 3) 0x03 s;
          s = outb (port + 2) 0xC7 s;
          s = outb (port + 4) 0x0B s;
          s = outb (port + 4) 0x1E s;
          s = outb (port + 0) 0xAE s;
          (v, s) = inb (port + 0) s
      in if v \<noteq> 0xAE then (1, s) else (0, outb (port + 4) 0x0F s))"

definition QEMU_SERIAL_PORT :: u16 where "QEMU_SERIAL_PORT = 0x3F8"

definition init_qemu_serial :: "'a log_state_scheme \<Rightarrow> int \<times> 'a log_state_scheme" where
  "init_qemu_serial s = init_serial QEMU_SERIAL_PORT s"

text \<open>The wait for an empty transmit register; \<open>None\<close> when the device never reports one.\<close>

partial_function (option) wait_transmit :: "'a log_state_scheme \<Rightarrow> 'a log_state_scheme option" where
  "wait_transmit s =
     (if fst (inb (QEMU_SERIAL_PORT + 5) s) AND 0x20 = 0 then wait_transmit (snd (inb (QEMU_SERIAL_PORT + 5) s))
      else Some (snd (inb (QEMU_SERIAL_PORT + 5) s)))"

definition qemu_write_char :: "u8 \<Rightarrow> 'a log_state_scheme \<Rightarrow> 'a log_state_scheme res" where
  "qemu_write_char ch s =
     (case wait_transmit s of None \<Rightarrow> Inl Diverges | Some s \<Rightarrow> Inr (outb QEMU_SERIAL_PORT ch s))"

definition qemu_print :: "u8 list \<Rightarrow> 'a log_state_scheme \<Rightarrow> 'a log_state_scheme res" where
  "qemu_print str s =
     bind_res (acquire (qemu_serial_lock s) s) (\<lambda>s.
     bind_res (iter_res qemu_write_char str s) (\<lambda>s. release (qemu_serial_lock s) s))"

section \<open>The log\<close>

datatype log_level = DEBUG | INFO | WARNING | ERROR

primrec level_number :: "log_level \<Rightarrow> nat" where
  "level_number DEBUG = 0"
| "level_number INFO = 1"
| "level_number WARNING = 2"
| "level_number ERROR = 3"

definition LOG_LEVEL :: nat where "LOG_LEVEL = 1"

definition ascii :: "string \<Rightarrow> u8 list" where
  "ascii str = map of_char str"

primrec level_prefix :: "log_level \<Rightarrow> u8 list" where
  "level_prefix DEBUG = ascii ''DEBUG''"
| "level_prefix INFO = ascii ''INFO''"
| "level_prefix WARNING = ascii ''WARNING''"
| "level_prefix ERROR = ascii ''ERROR''"

definition enable_tty_log :: "'a log_state_scheme \<Rightarrow> 'a log_state_scheme" where
  "enable_tty_log s = s\<lparr>log_tty := True\<rparr>"

definition disable_tty_log :: "'a log_state_scheme \<Rightarrow> 'a log_state_scheme" where
  "disable_tty_log s = s\<lparr>log_tty := False\<rparr>"

text \<open>
  \<open>sprintf\<close> into a zeroed local array of \<open>n\<close> bytes. The text must leave a zero byte: \<open>sprintf\<close> of this library writes none.
\<close>

definition sprintf_local :: "nat \<Rightarrow> u8 list \<Rightarrow> printf_arg list \<Rightarrow> u8 list res" where
  "sprintf_local n fmt args =
     bind_res (printf fmt args) (\<lambda>(_, out). if length out < n then Inr (takeWhile (\<lambda>c. c \<noteq> 0) out) else Inl Undefined)"

text \<open>\<open>log\<close> and \<open>logf\<close>.\<close>

definition klog :: "log_level \<Rightarrow> u8 list \<Rightarrow> 'a log_state_scheme \<Rightarrow> 'a log_state_scheme res" where
  "klog level msg s =
     (if level_number level < LOG_LEVEL then Inr s
      else if \<not> (log_qemu s \<or> log_tty s) then Inr s
      else let (cpu, s) = get_cpu s
      in bind_res (sprintf_local 32 (ascii ''[CPU #%d] [%s]: '')
                     [Int_Arg (cpu_status_id (cpu_status_of s cpu)), Str_Arg (level_prefix level)]) (\<lambda>prefix.
         bind_res (if log_qemu s
                   then bind_res (sprintf_local 200 (ascii ''%s%s'' @ [10]) [Str_Arg prefix, Str_Arg msg]) (\<lambda>fmsg. qemu_print fmsg s)
                   else Inr s) (\<lambda>s.
         if log_tty s
         then bind_res (kprintf (ascii ''%s%s'' @ [10]) [Str_Arg prefix, Str_Arg msg] s) (\<lambda>(_, s). Inr s)
         else Inr s)))"

definition klogf :: "log_level \<Rightarrow> u8 list \<Rightarrow> printf_arg list \<Rightarrow> 'a log_state_scheme \<Rightarrow> 'a log_state_scheme res" where
  "klogf level msg args s =
     (if level_number level < LOG_LEVEL then Inr s
      else if \<not> (log_qemu s \<or> log_tty s) then Inr s
      else bind_res (sprintf_local 128 msg args) (\<lambda>final. klog level final s))"

section \<open>A message reaches the port\<close>

text \<open>From every point on the device becomes ready again.\<close>

definition serial_ready :: "'a log_state_scheme \<Rightarrow> bool" where
  "serial_ready s \<longleftrightarrow> (\<forall>i. \<exists>j \<ge> i. port_input s j (QEMU_SERIAL_PORT + 5) AND 0x20 \<noteq> 0)"

lemma wait_transmit_ends:
  assumes "port_input s (port_reads s + k) (QEMU_SERIAL_PORT + 5) AND 0x20 \<noteq> 0"
  shows "\<exists>n. wait_transmit s = Some (s\<lparr>port_reads := n\<rparr>)"
  using assms
proof (induction k arbitrary: s)
  case 0
  then show ?case by (auto simp: wait_transmit.simps [of s] inb_def)
next
  case (Suc k)
  let ?s = "s\<lparr>port_reads := port_reads s + 1\<rparr>"
  have "port_input ?s (port_reads ?s + k) (QEMU_SERIAL_PORT + 5) AND 0x20 \<noteq> 0" using Suc.prems by simp
  from Suc.IH [OF this] show ?case by (auto simp: wait_transmit.simps [of s] inb_def)
qed

lemma ports_swap: "(s :: 'a log_state_scheme)\<lparr>port_reads := n, port_writes := w\<rparr> = s\<lparr>port_writes := w, port_reads := n\<rparr>"
  by (cases s) simp

lemma qemu_write_char_ready:
  assumes "serial_ready s"
  shows "\<exists>n. qemu_write_char ch s = Inr (s\<lparr>port_writes := port_writes s @ [(QEMU_SERIAL_PORT, ch)], port_reads := n\<rparr>)"
proof -
  obtain j where "port_reads s \<le> j" "port_input s j (QEMU_SERIAL_PORT + 5) AND 0x20 \<noteq> 0"
    using assms by (auto simp: serial_ready_def)
  then have "port_input s (port_reads s + (j - port_reads s)) (QEMU_SERIAL_PORT + 5) AND 0x20 \<noteq> 0" by simp
  then obtain n where "wait_transmit s = Some (s\<lparr>port_reads := n\<rparr>)" using wait_transmit_ends by blast
  then show ?thesis by (auto simp: qemu_write_char_def outb_def ports_swap)
qed

lemma qemu_write_chars:
  assumes "serial_ready s"
  shows "\<exists>n. iter_res qemu_write_char str s
    = Inr (s\<lparr>port_writes := port_writes s @ map (Pair QEMU_SERIAL_PORT) str, port_reads := n\<rparr>)"
  using assms
proof (induction str arbitrary: s)
  case Nil
  then show ?case by (intro exI [of _ "port_reads s"]) simp
next
  case (Cons c str)
  obtain n where n: "qemu_write_char c s = Inr (s\<lparr>port_writes := port_writes s @ [(QEMU_SERIAL_PORT, c)], port_reads := n\<rparr>)"
    using qemu_write_char_ready [OF Cons.prems] by blast
  let ?s = "s\<lparr>port_writes := port_writes s @ [(QEMU_SERIAL_PORT, c)], port_reads := n\<rparr>"
  have "serial_ready ?s" using Cons.prems by (simp add: serial_ready_def)
  from Cons.IH [OF this] show ?case by (auto simp: n ports_swap)
qed

lemma this_cpu_ports [simp]: "this_cpu (s\<lparr>port_writes := w, port_reads := n\<rparr>) = this_cpu s"
  by (simp add: this_cpu_def)

lemma qemu_print_ready:
  assumes "serial_ready s" "qemu_serial_lock s \<noteq> NULL" "held (spinlocks s (qemu_serial_lock s)) = 0"
  shows "\<exists>s'. qemu_print str s = Inr s' \<and> port_writes s' = port_writes s @ map (Pair QEMU_SERIAL_PORT) str
    \<and> held (spinlocks s' (qemu_serial_lock s)) = 0 \<and> log_tty s' = log_tty s"
proof -
  let ?l = "qemu_serial_lock s"
  have f: "qemu_serial_lock (locked ?l s) = ?l" "port_writes (locked ?l s) = port_writes s" "log_tty (locked ?l s) = log_tty s"
      "serial_ready (locked ?l s)"
    using assms(1) by (simp_all add: locked_def serial_ready_def)
  obtain n where n: "iter_res qemu_write_char str (locked ?l s)
      = Inr ((locked ?l s)\<lparr>port_writes := port_writes s @ map (Pair QEMU_SERIAL_PORT) str, port_reads := n\<rparr>)"
    using qemu_write_chars [OF f(4), of str] unfolding f(2) by blast
  define s1 where "s1 = (locked ?l s)\<lparr>port_writes := port_writes s @ map (Pair QEMU_SERIAL_PORT) str, port_reads := n\<rparr>"
  have "release ?l s1 = Inr (unlocked ?l s1)"
    by (rule release_locked [OF assms(2)]) (simp add: s1_def)
  then have "qemu_print str s = Inr (unlocked ?l s1)"
    using n acquire_free [OF assms(2,3)] by (simp add: qemu_print_def s1_def [symmetric] f(1)) (simp add: s1_def f(1))
  moreover have "port_writes (unlocked ?l s1) = port_writes s @ map (Pair QEMU_SERIAL_PORT) str" "log_tty (unlocked ?l s1) = log_tty s"
      "held (spinlocks (unlocked ?l s1) ?l) = 0"
    by (simp_all add: unlocked_def s1_def f(3) Let_def)
  ultimately show ?thesis by blast
qed

text \<open>The text in front of every message.\<close>

definition log_prefix :: "u32 \<Rightarrow> log_level \<Rightarrow> u8 list" where
  "log_prefix cpu level = ascii ''[CPU #'' @ itoa_text 10 False cpu @ ascii ''] ['' @ level_prefix level @ ascii '']: ''"

lemma log_prefix_bound: "length (log_prefix cpu level) \<le> 30"
proof -
  have "length (itoa_text 10 False cpu) \<le> 11" by (rule length_itoa_text(2)) simp_all
  moreover have "length (level_prefix level) \<le> 7" by (cases level) (simp_all add: ascii_def)
  ultimately show ?thesis by (simp add: log_prefix_def ascii_def)
qed


lemma sprintf_local_pieces:
  assumes "wf_pieces ps" "length (render ps) < n" "n \<le> 200"
  shows "sprintf_local n (encode ps) (pieces_args ps) = Inr (takeWhile (\<lambda>c. c \<noteq> 0) (render ps))"
proof -
  have "format (encode ps) (pieces_args ps) 0 [] = Inr (int (length (render ps)), render ps)"
    using format_pieces [OF assms(1), of 0 "[]"] assms(2,3) by (simp add: INT_MAX_def)
  then show ?thesis using assms(2) by (simp add: sprintf_local_def printf_def)
qed

lemma takeWhile_nonzero: "0 \<notin> set cs \<Longrightarrow> takeWhile (\<lambda>c. c \<noteq> 0) cs = (cs :: u8 list)"
  by (induction cs) auto

lemma log_prefix_nonzero: "0 \<notin> set (log_prefix cpu level)"
proof -
  have "0 \<notin> set (itoa_text 10 False cpu)" by (rule itoa_text_digits(1)) simp_all
  moreover have "0 \<notin> set (level_prefix level)" by (cases level) (simp_all add: ascii_def)
  ultimately show ?thesis by (simp add: log_prefix_def ascii_def)
qed

lemma sprintf_prefix:
  "sprintf_local 32 (ascii ''[CPU #%d] [%s]: '') [Int_Arg cpu, Str_Arg (level_prefix level)] = Inr (log_prefix cpu level)"
proof -
  let ?ps = "[Lit (ascii ''[CPU #''), Conv 100 (Int_Arg cpu), Lit (ascii ''] [''), Conv 115 (Str_Arg (level_prefix level)), Lit (ascii '']: '')]"
  have e: "encode ?ps = ascii ''[CPU #%d] [%s]: ''" "pieces_args ?ps = [Int_Arg cpu, Str_Arg (level_prefix level)]"
      "wf_pieces ?ps"
    by (simp_all add: encode_def pieces_args_def ascii_def)
  have r: "render ?ps = log_prefix cpu level" by (simp add: render_def log_prefix_def conversion_base_def)
  show ?thesis
    using sprintf_local_pieces [OF e(3), of 32] log_prefix_bound [of cpu level]
    by (simp add: e(1,2) r takeWhile_nonzero [OF log_prefix_nonzero])
qed

lemma sprintf_line:
  assumes "0 \<notin> set xs" "0 \<notin> set ys" "length xs + length ys < 199"
  shows "sprintf_local 200 (ascii ''%s%s'' @ [10]) [Str_Arg xs, Str_Arg ys] = Inr (xs @ ys @ [10])"
proof -
  let ?ps = "[Conv 115 (Str_Arg xs), Conv 115 (Str_Arg ys), Lit [10]]"
  have e: "encode ?ps = ascii ''%s%s'' @ [10]" "pieces_args ?ps = [Str_Arg xs, Str_Arg ys]" "wf_pieces ?ps"
    by (simp_all add: encode_def pieces_args_def ascii_def)
  have r: "render ?ps = xs @ ys @ [10]" by (simp add: render_def)
  have "0 \<notin> set (xs @ ys @ [10])" using assms(1,2) by simp
  from takeWhile_nonzero [OF this] show ?thesis
    using sprintf_local_pieces [OF e(3), of 200] assms(3) by (simp add: e(1,2) r)
qed


end
