(* ===== verification/Keyboard.thy ===== *)
theory Keyboard
  imports Kernel_Log
begin

text \<open>
  The keyboard driver: \<open>driver/keyboard/keyboard.c\<close> (key codes to characters, initialisation, interrupt entry) and
  \<open>driver/keyboard/ps2_set1.c\<close> (the state machine that decodes scan code set 1).
\<close>

section \<open>State and key codes\<close>

record kbd_state = log_state +
  scancode_set :: u8
  last_scancode :: u8

definition KEYBOARD_PORT :: u16 where "KEYBOARD_PORT = 0x60"
definition CONTROLLER_PORT :: u16 where "CONTROLLER_PORT = 0x64"
definition MAX_RETRY :: nat where "MAX_RETRY = 3"
definition SCANCODE_SET_1 :: u8 where "SCANCODE_SET_1 = 0x43"

text \<open>The key codes of \<open>keyboard.h\<close> that have an entry in the table of characters.\<close>

definition KEY_RESERVED :: u32 where "KEY_RESERVED = 0"
definition KEY_ESC :: u32 where "KEY_ESC = 1"
definition KEY_1 :: u32 where "KEY_1 = 2"
definition KEY_2 :: u32 where "KEY_2 = 3"
definition KEY_3 :: u32 where "KEY_3 = 4"
definition KEY_4 :: u32 where "KEY_4 = 5"
definition KEY_5 :: u32 where "KEY_5 = 6"
definition KEY_6 :: u32 where "KEY_6 = 7"
definition KEY_7 :: u32 where "KEY_7 = 8"
definition KEY_8 :: u32 where "KEY_8 = 9"
definition KEY_9 :: u32 where "KEY_9 = 10"
definition KEY_0 :: u32 where "KEY_0 = 11"
definition KEY_MINUS :: u32 where "KEY_MINUS = 12"
definition KEY_EQUAL :: u32 where "KEY_EQUAL = 13"
definition KEY_BACKSPACE :: u32 where "KEY_BACKSPACE = 14"
definition KEY_TAB :: u32 where "KEY_TAB = 15"
definition KEY_Q :: u32 where "KEY_Q = 16"
definition KEY_W :: u32 where "KEY_W = 17"
definition KEY_E :: u32 where "KEY_E = 18"
definition KEY_R :: u32 where "KEY_R = 19"
definition KEY_T :: u32 where "KEY_T = 20"
definition KEY_Y :: u32 where "KEY_Y = 21"
definition KEY_U :: u32 where "KEY_U = 22"
definition KEY_I :: u32 where "KEY_I = 23"
definition KEY_O :: u32 where "KEY_O = 24"
definition KEY_P :: u32 where "KEY_P = 25"
definition KEY_LEFTBRACE :: u32 where "KEY_LEFTBRACE = 26"
definition KEY_RIGHTBRACE :: u32 where "KEY_RIGHTBRACE = 27"
definition KEY_ENTER :: u32 where "KEY_ENTER = 28"
definition KEY_LEFTCTRL :: u32 where "KEY_LEFTCTRL = 29"
definition KEY_A :: u32 where "KEY_A = 30"
definition KEY_S :: u32 where "KEY_S = 31"
definition KEY_D :: u32 where "KEY_D = 32"
definition KEY_F :: u32 where "KEY_F = 33"
definition KEY_G :: u32 where "KEY_G = 34"
definition KEY_H :: u32 where "KEY_H = 35"
definition KEY_J :: u32 where "KEY_J = 36"
definition KEY_K :: u32 where "KEY_K = 37"
definition KEY_L :: u32 where "KEY_L = 38"
definition KEY_SEMICOLON :: u32 where "KEY_SEMICOLON = 39"
definition KEY_APOSTROPHE :: u32 where "KEY_APOSTROPHE = 40"
definition KEY_GRAVE :: u32 where "KEY_GRAVE = 41"
definition KEY_LEFTSHIFT :: u32 where "KEY_LEFTSHIFT = 42"
definition KEY_BACKSLASH :: u32 where "KEY_BACKSLASH = 43"
definition KEY_Z :: u32 where "KEY_Z = 44"
definition KEY_X :: u32 where "KEY_X = 45"
definition KEY_C :: u32 where "KEY_C = 46"
definition KEY_V :: u32 where "KEY_V = 47"
definition KEY_B :: u32 where "KEY_B = 48"
definition KEY_N :: u32 where "KEY_N = 49"
definition KEY_M :: u32 where "KEY_M = 50"
definition KEY_COMMA :: u32 where "KEY_COMMA = 51"
definition KEY_DOT :: u32 where "KEY_DOT = 52"
definition KEY_SLASH :: u32 where "KEY_SLASH = 53"
definition KEY_RIGHTSHIFT :: u32 where "KEY_RIGHTSHIFT = 54"
definition KEY_KPASTERISK :: u32 where "KEY_KPASTERISK = 55"
definition KEY_LEFTALT :: u32 where "KEY_LEFTALT = 56"
definition KEY_SPACE :: u32 where "KEY_SPACE = 57"
definition KEY_CAPSLOCK :: u32 where "KEY_CAPSLOCK = 58"
definition KEY_F1 :: u32 where "KEY_F1 = 59"
definition KEY_F2 :: u32 where "KEY_F2 = 60"
definition KEY_F3 :: u32 where "KEY_F3 = 61"
definition KEY_F4 :: u32 where "KEY_F4 = 62"
definition KEY_F5 :: u32 where "KEY_F5 = 63"
definition KEY_F6 :: u32 where "KEY_F6 = 64"
definition KEY_F7 :: u32 where "KEY_F7 = 65"
definition KEY_F8 :: u32 where "KEY_F8 = 66"
definition KEY_F9 :: u32 where "KEY_F9 = 67"
definition KEY_F10 :: u32 where "KEY_F10 = 68"
definition KEY_NUMLOCK :: u32 where "KEY_NUMLOCK = 69"
definition KEY_SCROLLLOCK :: u32 where "KEY_SCROLLLOCK = 70"
definition KEY_KP7 :: u32 where "KEY_KP7 = 71"
definition KEY_KP8 :: u32 where "KEY_KP8 = 72"
definition KEY_KP9 :: u32 where "KEY_KP9 = 73"
definition KEY_KPMINUS :: u32 where "KEY_KPMINUS = 74"
definition KEY_KP4 :: u32 where "KEY_KP4 = 75"
definition KEY_KP5 :: u32 where "KEY_KP5 = 76"
definition KEY_KP6 :: u32 where "KEY_KP6 = 77"
definition KEY_KPPLUS :: u32 where "KEY_KPPLUS = 78"
definition KEY_KP1 :: u32 where "KEY_KP1 = 79"
definition KEY_KP2 :: u32 where "KEY_KP2 = 80"
definition KEY_KP3 :: u32 where "KEY_KP3 = 81"
definition KEY_KP0 :: u32 where "KEY_KP0 = 82"
definition KEY_KPDOT :: u32 where "KEY_KPDOT = 83"
definition KEY_F11 :: u32 where "KEY_F11 = 87"
definition KEY_F12 :: u32 where "KEY_F12 = 88"

definition keycode_to_ascii :: "u8 list" where
  "keycode_to_ascii =
     [0, 0, 49, 50, 51, 52, 53, 54, 55, 56, 57, 48, 45, 43,
      8, 9, 113, 119, 101, 114, 116, 121, 117, 105, 111, 112, 93, 91,
      10, 0, 97, 115, 100, 102, 103, 104, 106, 107, 108, 59, 39, 96,
      0, 92, 122, 120, 99, 118, 98, 110, 109, 44, 46, 47, 0, 42,
      0, 32, 0, 0, 0, 0, 0, 0, 0, 0, 0, 0, 0, 0,
      0, 55, 56, 57, 45, 52, 53, 54, 43, 49, 50, 51, 48, 46]"

section \<open>Decoding\<close>

definition key_pressed :: "u32 \<Rightarrow> 'a kbd_state_scheme \<Rightarrow> 'a kbd_state_scheme res" where
  "key_pressed code s =
     (if code \<le> 83
      then bind_res (kprintf [37, 99] [Int_Arg (ucast (keycode_to_ascii ! unat code))] s) (\<lambda>(_, s). Inr s)
      else Inr s)"

definition key_release :: "u32 \<Rightarrow> 'a kbd_state_scheme \<Rightarrow> 'a kbd_state_scheme res" where
  "key_release code s = Inr s"

text \<open>\<open>enum scancode\<close>: the constants count from 0, the last two have values of their own.\<close>

definition scancode_names :: "string list" where
  "scancode_names = [
     ''IGNORED'', ''SCANCODE_ESC'', ''SCANCODE_1'', ''SCANCODE_2'', ''SCANCODE_3'', ''SCANCODE_4'', ''SCANCODE_5'', ''SCANCODE_6'', ''SCANCODE_7'',
     ''SCANCODE_8'', ''SCANCODE_9'', ''SCANCODE_0'', ''SCANCODE_MINUS'', ''SCANCODE_EQUALS'', ''SCANCODE_BACKSPACE'', ''SCANCODE_TAB'',
     ''SCANCODE_Q'', ''SCANCODE_W'', ''SCANCODE_E'', ''SCANCODE_R'', ''SCANCODE_T'', ''SCANCODE_Y'', ''SCANCODE_U'', ''SCANCODE_I'', ''SCANCODE_O'',
     ''SCANCODE_P'', ''SCANCODE_LBRAKET'', ''SCANCODE_RBRAKET'', ''SCANCODE_RETURN'', ''SCANCODE_LCTRL'', ''SCANCODE_A'', ''SCANCODE_S'',
     ''SCANCODE_D'', ''SCANCODE_F'', ''SCANCODE_G'', ''SCANCODE_H'', ''SCANCODE_J'', ''SCANCODE_K'', ''SCANCODE_L'', ''SCANCODE_SEMI_COLON'',
     ''SCANCODE_QUOTE'', ''SCANCODE_BACKTICK'', ''SCANCODE_LSHIFT'', ''SCANCODE_BACKSLASH'', ''SCANCODE_Z'', ''SCANCODE_X'', ''SCANCODE_C'',
     ''SCANCODE_V'', ''SCANCODE_B'', ''SCANCODE_N'', ''SCANCODE_M'', ''SCANCODE_COMMA'', ''SCANCODE_DOT'', ''SCANCODE_SLASH'', ''SCANCODE_RSHIFT'',
     ''SCANCODE_KEYPAD_MULT'', ''SCANCODE_LALT'', ''SCANCODE_SPACE'', ''SCANCODE_CAPS_LOCK'', ''SCANCODE_F1'', ''SCANCODE_F2'', ''SCANCODE_F3'',
     ''SCANCODE_F4'', ''SCANCODE_F5'', ''SCANCODE_F6'', ''SCANCODE_F7'', ''SCANCODE_F8'', ''SCANCODE_F9'', ''SCANCODE_F10'', ''SCANCODE_NUMLOCK'',
     ''SCANCODE_SCROLL_LOCK'', ''SCANCODE_KEYPAD_7'', ''SCANCODE_KEYPAD_8'', ''SCANCODE_KEYPAD_9'', ''SCANCODE_KEYPAD_MINUS'', ''SCANCODE_KEYPAD_4'',
     ''SCANCODE_KEYPAD_5'', ''SCANCODE_KEYPAD_6'', ''SCANCODE_KEYPAD_PLUS'', ''SCANCODE_KEYPAD_1'', ''SCANCODE_KEYPAD_2'', ''SCANCODE_KEYPAD_3'',
     ''SCANCODE_KEYPAD_0'', ''SCANCODE_KEYPAD_DOT'']"

definition scancodes :: "(string \<times> u32) list" where
  "scancodes = zip scancode_names (map of_nat [0..<length scancode_names]) @ [(''SCANCODE_F11'', 0x57), (''SCANCODE_F12'', 0x58)]"

text \<open>The byte 0xE0 announces an extended key; the byte behind it is ignored.\<close>

definition handle_set1 :: "u8 \<Rightarrow> 'a kbd_state_scheme \<Rightarrow> 'a kbd_state_scheme res" where
  "handle_set1 scancode s =
     bind_res
       (if last_scancode s = 0xE0 then Inr s
        else if scancode = 0xE0 then Inr s
        else if scancode AND NOT 0x80 \<le> 0x58
        then let code = ucast (scancode AND NOT 0x80)
             in if scancode \<ge> 0x80 then key_release code s else key_pressed code s
        else Inr s)
       (\<lambda>s. Inr (s\<lparr>last_scancode := scancode\<rparr>))"

definition keystroke_handler :: "'a kbd_state_scheme \<Rightarrow> 'a kbd_state_scheme res" where
  "keystroke_handler s =
     (let (scancode, s) = inb KEYBOARD_PORT s
      in if scancode_set s = SCANCODE_SET_1 then handle_set1 scancode s else Inr s)"

text \<open>The request for the current scan code set, repeated at most \<open>MAX_RETRY\<close> times while the keyboard asks for it.\<close>

primrec request_set :: "nat \<Rightarrow> 'a kbd_state_scheme \<Rightarrow> 'a kbd_state_scheme" where
  "request_set 0 s = snd (inb KEYBOARD_PORT (outb KEYBOARD_PORT 0 (outb KEYBOARD_PORT 0xF0 s)))"
| "request_set (Suc retries) s =
     (let (sc, s) = inb KEYBOARD_PORT (outb KEYBOARD_PORT 0 (outb KEYBOARD_PORT 0xF0 s))
      in if sc = 0xFE then request_set retries s else s)"

definition init_keyboard :: "'a kbd_state_scheme \<Rightarrow> 'a kbd_state_scheme" where
  "init_keyboard s =
     (if scancode_set s \<noteq> 0 then s
      else let s = request_set MAX_RETRY s;
               (set_number, s) = inb KEYBOARD_PORT s;
               s = s\<lparr>scancode_set := set_number\<rparr>;
               (sc, s) = inb KEYBOARD_PORT (outb CONTROLLER_PORT 0x20 s)
           in if sc AND push_bit 6 1 \<noteq> 0 then s\<lparr>scancode_set := SCANCODE_SET_1\<rparr> else s)"

section \<open>What is typed\<close>

text \<open>Fields of the extension.\<close>

lemma kbd_as_ext:
  "(s :: 'a kbd_state_scheme)\<lparr>port_reads := n, last_scancode := l\<rparr>
     = with_ext (tty_state.more (s\<lparr>port_reads := n, last_scancode := l\<rparr>)) s"
  by (cases s) (simp add: with_ext_def)

lemma write_kbd:
  "terminal_write c ((s :: 'a kbd_state_scheme)\<lparr>port_reads := n, last_scancode := l\<rparr>)
     = bind_res (terminal_write c s) (\<lambda>s. Inr (s\<lparr>port_reads := n, last_scancode := l\<rparr>))"
proof -
  let ?e = "\<lambda>s :: 'a kbd_state_scheme. tty_state.more (s\<lparr>port_reads := n, last_scancode := l\<rparr>)"
  have w: "terminal_write c (s\<lparr>port_reads := n, last_scancode := l\<rparr>) = bind_res (terminal_write c s) (\<lambda>s'. Inr (with_ext (?e s) s'))"
    by (subst kbd_as_ext) (rule write_with_ext)
  show ?thesis
  proof (cases "terminal_write c s")
    case (Inr s')
    have "?e s = ?e s'" using write_keeps_ext [OF Inr] by (cases s; cases s') simp
    then have "with_ext (?e s) s' = s'\<lparr>port_reads := n, last_scancode := l\<rparr>" using kbd_as_ext [where s = s' and n = n and l = l] by metis
    with w Inr show ?thesis by simp
  qed (simp add: w)
qed

lemma writes_kbd:
  "iter_res terminal_write cs ((s :: 'a kbd_state_scheme)\<lparr>port_reads := n, last_scancode := l\<rparr>)
     = bind_res (iter_res terminal_write cs s) (\<lambda>s. Inr (s\<lparr>port_reads := n, last_scancode := l\<rparr>))"
  by (induction cs arbitrary: s) (simp_all add: write_kbd bind_res_assoc)

lemma writes_keep:
  assumes "iter_res terminal_write cs (s :: 'a kbd_state_scheme) = Inr s'"
  shows "port_reads s' = port_reads s" "port_input s' = port_input s" "scancode_set s' = scancode_set s" "last_scancode s' = last_scancode s"
proof -
  have "tty_state.more s' = tty_state.more s"
    using assms by (induction cs arbitrary: s) (auto simp: bind_res_Inr_iff dest: write_keeps_ext)
  then show "port_reads s' = port_reads s" "port_input s' = port_input s" "scancode_set s' = scancode_set s" "last_scancode s' = last_scancode s"
    by (cases s; cases s'; simp)+
qed

text \<open>The characters that a sequence of scan codes sends to the terminal, after the scan code \<open>l\<close>.\<close>

fun typed :: "u8 \<Rightarrow> u8 list \<Rightarrow> u8 list" where
  "typed l [] = []"
| "typed l (b # bs) = (if l \<noteq> 0xE0 \<and> b \<le> 83 then [keycode_to_ascii ! unat b] else []) @ typed b bs"

lemma kprintf_char: "kprintf [37, 99] [Int_Arg (ucast (c :: u8))] s = bind_res (terminal_write c s) (\<lambda>s. Inr (1, s))"
proof -
  have "maxrem 0 \<noteq> 0" by (simp add: maxrem_def INT_MAX_def)
  moreover have "ucast (ucast c :: u32) = c" by (rule bit_word_eqI) (simp add: bit_simps)
  ultimately show ?thesis by (simp add: kprintf_def printf_def format.simps bind_res_assoc)
qed

lemma low_seven_bits:
  assumes "(b :: u8) < 0x80"
  shows "b AND NOT 0x80 = b"
proof (rule bit_word_eqI)
  fix n assume n: "n < LENGTH(8)"
  have "unat b < 2 ^ 7" using assms by (simp add: word_less_nat_alt)
  then have "\<not> bit b 7" by (rule not_bit_if_unat_less) simp
  moreover have "bit (0x80 :: u8) n \<longleftrightarrow> n = 7" using n bit_push_bit_iff [of 7 "1 :: u8" n] by (simp add: bit_1_iff) linarith
  ultimately show "bit (b AND NOT 0x80) n = bit b n" using n by (auto simp: bit_simps)
qed

lemma stroke:
  assumes "scancode_set s = SCANCODE_SET_1" "port_input s (port_reads s) KEYBOARD_PORT = b"
  shows "keystroke_handler s = bind_res (iter_res terminal_write (typed (last_scancode s) [b]) s)
           (\<lambda>s. Inr (s\<lparr>port_reads := port_reads s + 1, last_scancode := b\<rparr>))"
proof -
  define s1 where "s1 = s\<lparr>port_reads := port_reads s + 1\<rparr>"
  have k: "keystroke_handler s = handle_set1 b s1"
    using assms by (simp add: keystroke_handler_def inb_def s1_def Let_def)
  have l: "last_scancode s1 = last_scancode s" by (simp add: s1_def)
  show ?thesis
  proof (cases "last_scancode s \<noteq> 0xE0 \<and> b \<le> 83")
    case True
    then have b: "unat b \<le> 83" by (simp add: word_le_nat_alt)
    then have "b < 0x80" "b \<noteq> 0xE0" by (auto simp: word_less_nat_alt)
    then have "b AND NOT 0x80 = b" by (intro low_seven_bits)
    moreover have "unat (ucast b :: u32) = unat b" by (simp add: unat_ucast_up)
    ultimately have "handle_set1 b s1 = bind_res (terminal_write (keycode_to_ascii ! unat b) s1) (\<lambda>s. Inr (s\<lparr>last_scancode := b\<rparr>))"
      using True b \<open>b < 0x80\<close> \<open>b \<noteq> 0xE0\<close>
      by (simp add: handle_set1_def l key_pressed_def kprintf_char bind_res_assoc word_le_nat_alt word_less_nat_alt Let_def)
    moreover have e: "s\<lparr>port_reads := port_reads s + 1, last_scancode := last_scancode s\<rparr> = s1" by (simp add: s1_def)
    have "terminal_write c s1 = bind_res (terminal_write c s)
        (\<lambda>s'. Inr (s'\<lparr>port_reads := port_reads s + 1, last_scancode := last_scancode s\<rparr>))" for c
      using write_kbd [where c = c and s = s and n = "port_reads s + 1" and l = "last_scancode s"] unfolding e .
    ultimately have "keystroke_handler s = bind_res (terminal_write (keycode_to_ascii ! unat b) s)
        (\<lambda>s'. Inr (s'\<lparr>port_reads := port_reads s + 1, last_scancode := b\<rparr>))"
      using k by (simp add: bind_res_assoc)
    then show ?thesis using True writes_keep(1) [of "[keycode_to_ascii ! unat b]" s]
      by (cases "terminal_write (keycode_to_ascii ! unat b) s") simp_all
  next
    case False
    have "b < 0x80 \<Longrightarrow> b AND NOT 0x80 = b" by (rule low_seven_bits)
    moreover have "unat (ucast b :: u32) = unat b" by (simp add: unat_ucast_up)
    ultimately have "handle_set1 b s1 = Inr (s1\<lparr>last_scancode := b\<rparr>)"
      using False by (auto simp: handle_set1_def l key_pressed_def key_release_def word_le_nat_alt word_less_nat_alt Let_def)
    then show ?thesis using False k by (auto simp: s1_def)
  qed
qed

lemma strokes:
  assumes "scancode_set s = SCANCODE_SET_1" "\<forall>i < length bs. port_input s (port_reads s + i) KEYBOARD_PORT = bs ! i"
  shows "iter_res (\<lambda>_. keystroke_handler) bs s = bind_res (iter_res terminal_write (typed (last_scancode s) bs) s)
           (\<lambda>s. Inr (s\<lparr>port_reads := port_reads s + length bs, last_scancode := last (last_scancode s # bs)\<rparr>))"
  using assms
proof (induction bs arbitrary: s)
  case Nil
  then show ?case by simp
next
  case (Cons b bs)
  have b: "port_input s (port_reads s) KEYBOARD_PORT = b" using Cons.prems(2) by force
  let ?cs = "typed (last_scancode s) [b]"
  have c: "typed (last_scancode s) (b # bs) = ?cs @ typed b bs" by simp
  show ?case
  proof (cases "iter_res terminal_write ?cs s")
    case (Inl e)
    then show ?thesis unfolding c iter_res_append by (simp add: stroke [OF Cons.prems(1) b])
  next
    case (Inr s1)
    define s2 where "s2 = s1\<lparr>port_reads := port_reads s + 1, last_scancode := b\<rparr>"
    note f = writes_keep [OF Inr]
    have k: "keystroke_handler s = Inr s2" using stroke [OF Cons.prems(1) b] Inr f by (simp add: s2_def)
    have "iter_res (\<lambda>_. keystroke_handler) bs s2 = bind_res (iter_res terminal_write (typed (last_scancode s2) bs) s2)
           (\<lambda>s. Inr (s\<lparr>port_reads := port_reads s + length bs, last_scancode := last (last_scancode s # bs)\<rparr>))"
      by (rule Cons.IH) (use Cons.prems f in \<open>auto simp: s2_def\<close>)
    also have "\<dots> = bind_res (iter_res terminal_write (typed b bs) s1)
           (\<lambda>s. Inr (s\<lparr>port_reads := port_reads s + length (b # bs), last_scancode := last (last_scancode s # b # bs)\<rparr>))"
      unfolding s2_def using f writes_keep [of "typed b bs" s1]
      by (cases "iter_res terminal_write (typed b bs) s1") (simp_all add: writes_kbd)
    finally show ?thesis unfolding c iter_res_append using k Inr by simp
  qed
qed

text \<open>
  What a user does, and the bytes a keyboard sends for it in scan code set 1: pressing and releasing a key of the main block, and an
  extended key, which is announced by 0xE0.
\<close>

datatype key_event = Press u8 | Release u8 | Extended u8

fun event_bytes :: "key_event \<Rightarrow> u8 list" where
  "event_bytes (Press k) = [k]"
| "event_bytes (Release k) = [k + 0x80]"
| "event_bytes (Extended b) = [0xE0, b]"

fun wf_event :: "key_event \<Rightarrow> bool" where
  "wf_event (Press k) \<longleftrightarrow> k \<le> 0x58"
| "wf_event (Release k) \<longleftrightarrow> k \<le> 0x58"
| "wf_event (Extended b) \<longleftrightarrow> b \<noteq> 0xE0"

fun event_text :: "key_event \<Rightarrow> u8 list" where
  "event_text (Press k) = (if k \<le> 83 then [keycode_to_ascii ! unat k] else [])"
| "event_text _ = []"

lemma typed_events:
  assumes "\<forall>e \<in> set evs. wf_event e" "l \<noteq> 0xE0"
  shows "typed l (concat (map event_bytes evs)) = concat (map event_text evs)"
  using assms
proof (induction evs arbitrary: l)
  case (Cons e evs)
  have wf: "wf_event e" "\<forall>e \<in> set evs. wf_event e" using Cons.prems(1) by auto
  note IH = Cons.IH [OF wf(2)]
  show ?case
  proof (cases e)
    case (Press k)
    then have "k \<noteq> 0xE0" using wf(1) by (auto simp: word_le_nat_alt)
    then show ?thesis using Press Cons.prems(2) IH [of k] by simp
  next
    case (Release k)
    then have k: "unat k \<le> 0x58" using wf(1) by (simp add: word_le_nat_alt)
    then have "unat (k + 0x80) = unat k + 0x80" by (simp add: unat_word_ariths)
    then have "k + 0x80 \<noteq> 0xE0" "\<not> k + 0x80 \<le> 83" using k by (auto simp: word_le_nat_alt)
    then show ?thesis using Release IH [of "k + 0x80"] by simp
  next
    case (Extended b)
    then show ?thesis using wf(1) IH [of b] by simp
  qed
qed simp

text \<open>
  C39: typing. When the keyboard sends the bytes of any sequence of key presses, releases and extended keys, the interrupt handler, called once for each byte, does
  to the terminal exactly what writing the characters of the pressed keys does, in their order; it fails where and only where the terminal
  fails. Releases and extended keys print nothing.
\<close>

theorem keyboard_types:
  assumes "scancode_set s = SCANCODE_SET_1" "last_scancode s \<noteq> 0xE0" "\<forall>e \<in> set evs. wf_event e"
    and "bs = concat (map event_bytes evs)" "\<forall>i < length bs. port_input s (port_reads s + i) KEYBOARD_PORT = bs ! i"
  shows "iter_res (\<lambda>_. keystroke_handler) bs s = bind_res (terminal_writestring (concat (map event_text evs)) s)
    (\<lambda>s. Inr (s\<lparr>port_reads := port_reads s + length bs, last_scancode := last (last_scancode s # bs)\<rparr>))"
  using strokes [OF assms(1,5)] typed_events [OF assms(3,2)] by (simp add: assms(4) terminal_writestring_def)

theorem keyboard_types_witness:
  "\<forall>s :: kbd_state. iter_res (\<lambda>_. keystroke_handler) [23, 0xE0, 0x48, 0x97 :: u8]
     (s\<lparr>scancode_set := 0x43, last_scancode := 0, port_reads := 0, port_input := (\<lambda>i _. [23, 0xE0, 0x48, 0x97] ! i)\<rparr>)
   = bind_res (terminal_writestring [105]
       (s\<lparr>scancode_set := 0x43, last_scancode := 0, port_reads := 0, port_input := (\<lambda>i _. [23, 0xE0, 0x48, 0x97] ! i)\<rparr>))
    (\<lambda>s. Inr (s\<lparr>port_reads := port_reads s + 4, last_scancode := 0x97\<rparr>))"
proof
  fix s :: kbd_state
  define s0 where "s0 = s\<lparr>scancode_set := 0x43, last_scancode := 0, port_reads := 0, port_input := (\<lambda>i _. [23, 0xE0, 0x48, 0x97] ! i)\<rparr>"
  let ?evs = "[Press 23, Extended 0x48, Release 23]"
  have "scancode_set s0 = SCANCODE_SET_1" "last_scancode s0 \<noteq> 0xE0" "\<forall>e \<in> set ?evs. wf_event e"
      "[23, 0xE0, 0x48, 0x97] = concat (map event_bytes ?evs)"
      "\<forall>i < length [23, 0xE0, 0x48, 0x97 :: u8]. port_input s0 (port_reads s0 + i) KEYBOARD_PORT = [23, 0xE0, 0x48, 0x97] ! i"
    by (simp_all add: s0_def SCANCODE_SET_1_def)
  moreover have "length [23, 0xE0, 0x48, 0x97 :: u8] = 4" by simp
  ultimately show "iter_res (\<lambda>_. keystroke_handler) [23, 0xE0, 0x48, 0x97 :: u8] s0
     = bind_res (terminal_writestring [105] s0) (\<lambda>s. Inr (s\<lparr>port_reads := port_reads s + 4, last_scancode := 0x97\<rparr>))"
    using keyboard_types [of s0 ?evs "[23, 0xE0, 0x48, 0x97]"] by (simp only:) (simp add: keycode_to_ascii_def)
qed

text \<open>The characters of a US keyboard, without the keys \<open>=\<close>, \<open>[\<close> and \<open>]\<close>.\<close>

definition us_layout :: "(u32 \<times> u8) list" where
  "us_layout =
     [(KEY_1, 49), (KEY_2, 50), (KEY_3, 51), (KEY_4, 52),
      (KEY_5, 53), (KEY_6, 54), (KEY_7, 55), (KEY_8, 56),
      (KEY_9, 57), (KEY_0, 48), (KEY_MINUS, 45), (KEY_BACKSPACE, 8),
      (KEY_TAB, 9), (KEY_Q, 113), (KEY_W, 119), (KEY_E, 101),
      (KEY_R, 114), (KEY_T, 116), (KEY_Y, 121), (KEY_U, 117),
      (KEY_I, 105), (KEY_O, 111), (KEY_P, 112), (KEY_ENTER, 10),
      (KEY_A, 97), (KEY_S, 115), (KEY_D, 100), (KEY_F, 102),
      (KEY_G, 103), (KEY_H, 104), (KEY_J, 106), (KEY_K, 107),
      (KEY_L, 108), (KEY_SEMICOLON, 59), (KEY_APOSTROPHE, 39), (KEY_GRAVE, 96),
      (KEY_BACKSLASH, 92), (KEY_Z, 122), (KEY_X, 120), (KEY_C, 99),
      (KEY_V, 118), (KEY_B, 98), (KEY_N, 110), (KEY_M, 109),
      (KEY_COMMA, 44), (KEY_DOT, 46), (KEY_SLASH, 47), (KEY_KPASTERISK, 42),
      (KEY_SPACE, 32), (KEY_KP7, 55), (KEY_KP8, 56), (KEY_KP9, 57),
      (KEY_KPMINUS, 45), (KEY_KP4, 52), (KEY_KP5, 53), (KEY_KP6, 54),
      (KEY_KPPLUS, 43), (KEY_KP1, 49), (KEY_KP2, 50), (KEY_KP3, 51),
      (KEY_KP0, 48), (KEY_KPDOT, 46)]"

lemmas key_defs = KEY_1_def KEY_2_def KEY_3_def KEY_4_def KEY_5_def KEY_6_def KEY_7_def KEY_8_def KEY_9_def KEY_0_def KEY_MINUS_def KEY_BACKSPACE_def KEY_TAB_def KEY_Q_def KEY_W_def KEY_E_def KEY_R_def KEY_T_def KEY_Y_def KEY_U_def KEY_I_def KEY_O_def KEY_P_def KEY_ENTER_def KEY_A_def KEY_S_def KEY_D_def KEY_F_def KEY_G_def KEY_H_def KEY_J_def KEY_K_def KEY_L_def KEY_SEMICOLON_def KEY_APOSTROPHE_def KEY_GRAVE_def KEY_BACKSLASH_def KEY_Z_def KEY_X_def KEY_C_def KEY_V_def KEY_B_def KEY_N_def KEY_M_def KEY_COMMA_def KEY_DOT_def KEY_SLASH_def KEY_KPASTERISK_def KEY_SPACE_def KEY_KP7_def KEY_KP8_def KEY_KP9_def KEY_KPMINUS_def KEY_KP4_def KEY_KP5_def KEY_KP6_def KEY_KPPLUS_def KEY_KP1_def KEY_KP2_def KEY_KP3_def KEY_KP0_def KEY_KPDOT_def KEY_EQUAL_def KEY_LEFTBRACE_def KEY_RIGHTBRACE_def


text \<open>The scan codes of set 1 are the key codes, as \<open>handle_set1\<close> relies on.\<close>

lemma scancodes_are_keycodes:
  "map snd scancodes = [
     KEY_RESERVED, KEY_ESC, KEY_1, KEY_2, KEY_3, KEY_4, KEY_5, KEY_6, KEY_7, KEY_8, KEY_9, KEY_0, KEY_MINUS, KEY_EQUAL, KEY_BACKSPACE, KEY_TAB,
     KEY_Q, KEY_W, KEY_E, KEY_R, KEY_T, KEY_Y, KEY_U, KEY_I, KEY_O, KEY_P, KEY_LEFTBRACE, KEY_RIGHTBRACE, KEY_ENTER, KEY_LEFTCTRL, KEY_A, KEY_S,
     KEY_D, KEY_F, KEY_G, KEY_H, KEY_J, KEY_K, KEY_L, KEY_SEMICOLON, KEY_APOSTROPHE, KEY_GRAVE, KEY_LEFTSHIFT, KEY_BACKSLASH, KEY_Z, KEY_X, KEY_C,
     KEY_V, KEY_B, KEY_N, KEY_M, KEY_COMMA, KEY_DOT, KEY_SLASH, KEY_RIGHTSHIFT, KEY_KPASTERISK, KEY_LEFTALT, KEY_SPACE, KEY_CAPSLOCK, KEY_F1, KEY_F2,
     KEY_F3, KEY_F4, KEY_F5, KEY_F6, KEY_F7, KEY_F8, KEY_F9, KEY_F10, KEY_NUMLOCK, KEY_SCROLLLOCK, KEY_KP7, KEY_KP8, KEY_KP9, KEY_KPMINUS, KEY_KP4,
     KEY_KP5, KEY_KP6, KEY_KPPLUS, KEY_KP1, KEY_KP2, KEY_KP3, KEY_KP0, KEY_KPDOT, KEY_F11, KEY_F12]"
proof -
  have n: "length scancode_names = 84" by (simp add: scancode_names_def)
  have "map snd scancodes = map of_nat [0..<84] @ [0x57, 0x58]" unfolding scancodes_def n by (simp add: n del: upt_rec_numeral)
  also have "[0..<84::nat] = 0 # 1 # [2..<84]" by (simp add: upt_conv_Cons numeral_2_eq_2 del: upt_rec_numeral)
  finally show ?thesis
    by (simp add: key_defs
            KEY_RESERVED_def KEY_ESC_def KEY_LEFTCTRL_def KEY_LEFTSHIFT_def KEY_RIGHTSHIFT_def KEY_LEFTALT_def KEY_CAPSLOCK_def KEY_F1_def
            KEY_F2_def KEY_F3_def KEY_F4_def KEY_F5_def KEY_F6_def KEY_F7_def KEY_F8_def KEY_F9_def KEY_F10_def KEY_NUMLOCK_def
            KEY_SCROLLLOCK_def KEY_F11_def KEY_F12_def)
qed

end
