(* ===== verification/Multiboot.thy ===== *)
theory Multiboot
  imports Byte_Memory
begin

text \<open>
  \<open>kernel/multiboot.c\<close>: the list of tags the boot loader leaves in memory. Every tag starts with its type and size; the next tag
  follows at the next multiple of eight bytes.
\<close>

section \<open>Structures\<close>

definition MULTIBOOT_BOOTLOADER_MAGIC :: u32 where "MULTIBOOT_BOOTLOADER_MAGIC = 0x36d76289"
definition MULTIBOOT_HEADER_TAG_END :: u32 where "MULTIBOOT_HEADER_TAG_END = 0"

definition tag_type :: "mem \<Rightarrow> ptr \<Rightarrow> u32" where "tag_type m h = load32 m h"
definition tag_size :: "mem \<Rightarrow> ptr \<Rightarrow> u32" where "tag_size m h = load32 m (h + 4)"

datatype tag_kind = BOOT_CMD_LINE | BOOTLOADER_NAME | MODULES | BASIC_MEMINFO | BIOS_BOOT_DEVICE | MEMORY_MAP
  | VBE_INFO | FRAMEBUFFER_INFO | ELF_SYMBOLS | APM_TABLE | EFI32_TP | EFI64_TP | SMBIOS | ACPI_OLD | ACPI_NEW
  | NETWORK | EFI_MMAP | EFI_BOOT_SERVICE | EFI32_IMAGE_HANDLE | EFI64_IMAGE_HANDLE | BASE_ADDRESS

primrec tag_number :: "tag_kind \<Rightarrow> u32" where
  "tag_number BOOT_CMD_LINE = 1"
| "tag_number BOOTLOADER_NAME = 2"
| "tag_number MODULES = 3"
| "tag_number BASIC_MEMINFO = 4"
| "tag_number BIOS_BOOT_DEVICE = 5"
| "tag_number MEMORY_MAP = 6"
| "tag_number VBE_INFO = 7"
| "tag_number FRAMEBUFFER_INFO = 8"
| "tag_number ELF_SYMBOLS = 9"
| "tag_number APM_TABLE = 10"
| "tag_number EFI32_TP = 11"
| "tag_number EFI64_TP = 12"
| "tag_number SMBIOS = 13"
| "tag_number ACPI_OLD = 14"
| "tag_number ACPI_NEW = 15"
| "tag_number NETWORK = 16"
| "tag_number EFI_MMAP = 17"
| "tag_number EFI_BOOT_SERVICE = 18"
| "tag_number EFI32_IMAGE_HANDLE = 19"
| "tag_number EFI64_IMAGE_HANDLE = 20"
| "tag_number BASE_ADDRESS = 21"

text \<open>
  The fields of \<open>multiboot_boot_information\<close> are pointers to variables of the caller: \<open>None\<close> for a null pointer, \<open>Some v\<close> for a variable
  that holds \<open>v\<close>. \<open>boot_module\<close> is the caller's array. The field \<open>vbe\<close> can also come to point to a local variable of the callee.
\<close>

datatype vbe_slot = No_Slot | Slot ptr | Dangling

record boot_info =
  boot_module :: "ptr list option"
  boot_module_size :: u64
  basic_meminfo :: "ptr option"
  bios_boot_device :: "ptr option"
  boot_memory_map :: "ptr option"
  boot_vbe :: vbe_slot
  boot_framebuffer :: "ptr option"
  elf_symbols :: "ptr option"
  boot_apm :: "ptr option"
  boot_efi32 :: "ptr option"
  boot_efi64 :: "ptr option"
  boot_smbios :: "ptr option"
  acpi_old :: "ptr option"
  acpi_new :: "ptr option"
  boot_network :: "ptr option"
  efi_mmap :: "ptr option"
  efi32_handle :: "ptr option"
  efi64_handle :: "ptr option"
  load_base_addr :: "ptr option"

section \<open>Reading the tags\<close>

text \<open>\<open>if (slot) *slot = header\<close>\<close>

definition write_slot :: "ptr \<Rightarrow> ptr option \<Rightarrow> ptr option" where
  "write_slot h slot = (case slot of None \<Rightarrow> None | Some _ \<Rightarrow> Some h)"

text \<open>The \<open>switch\<close> on the type of a tag; the index of the next module is threaded through.\<close>

definition load_tag :: "mem \<Rightarrow> ptr \<Rightarrow> boot_info \<times> u32 \<Rightarrow> boot_info \<times> u32" where
  "load_tag m h = (\<lambda>(b, module_index).
     let ty = tag_type m h in
     if ty = tag_number MODULES then
       (case boot_module b of
          None \<Rightarrow> (b, module_index)
        | Some ms \<Rightarrow> if ucast module_index < boot_module_size b
                    then (b\<lparr>boot_module := Some (ms[unat module_index := h])\<rparr>, module_index + 1)
                    else (b, module_index))
     else if ty = tag_number BASIC_MEMINFO then (b\<lparr>basic_meminfo := write_slot h (basic_meminfo b)\<rparr>, module_index)
     else if ty = tag_number BIOS_BOOT_DEVICE then (b\<lparr>bios_boot_device := write_slot h (bios_boot_device b)\<rparr>, module_index)
     else if ty = tag_number MEMORY_MAP then (b\<lparr>boot_memory_map := write_slot h (boot_memory_map b)\<rparr>, module_index)
     else if ty = tag_number VBE_INFO then (b\<lparr>boot_vbe := (if boot_vbe b \<noteq> No_Slot then Dangling else No_Slot)\<rparr>, module_index)
     else if ty = tag_number FRAMEBUFFER_INFO then (b\<lparr>boot_framebuffer := write_slot h (boot_framebuffer b)\<rparr>, module_index)
     else if ty = tag_number ELF_SYMBOLS then (b\<lparr>elf_symbols := write_slot h (elf_symbols b)\<rparr>, module_index)
     else if ty = tag_number APM_TABLE then (b\<lparr>boot_apm := write_slot h (boot_apm b)\<rparr>, module_index)
     else if ty = tag_number EFI32_TP then (b\<lparr>boot_efi32 := write_slot h (boot_efi32 b)\<rparr>, module_index)
     else if ty = tag_number EFI64_TP then (b\<lparr>boot_efi64 := write_slot h (boot_efi64 b)\<rparr>, module_index)
     else if ty = tag_number SMBIOS then (b\<lparr>boot_smbios := write_slot h (boot_smbios b)\<rparr>, module_index)
     else if ty = tag_number ACPI_OLD then (b\<lparr>acpi_old := write_slot h (acpi_old b)\<rparr>, module_index)
     else if ty = tag_number ACPI_NEW then (b\<lparr>acpi_new := write_slot h (acpi_new b)\<rparr>, module_index)
     else if ty = tag_number NETWORK then (b\<lparr>boot_network := write_slot h (boot_network b)\<rparr>, module_index)
     else if ty = tag_number EFI_MMAP then (b\<lparr>efi_mmap := write_slot h (efi_mmap b)\<rparr>, module_index)
     else if ty = tag_number EFI32_IMAGE_HANDLE then (b\<lparr>efi32_handle := write_slot h (efi32_handle b)\<rparr>, module_index)
     else if ty = tag_number EFI64_IMAGE_HANDLE then (b\<lparr>efi64_handle := write_slot h (efi64_handle b)\<rparr>, module_index)
     else if ty = tag_number BASE_ADDRESS then (b\<lparr>load_base_addr := write_slot h (load_base_addr b)\<rparr>, module_index)
     else (b, module_index))"

definition next_tag :: "mem \<Rightarrow> ptr \<Rightarrow> ptr" where
  "next_tag m h = h + ucast ((tag_size m h + 7) AND NOT 7)"

text \<open>The loop visits addresses that are multiples of eight apart; after \<open>2 ^ 64\<close> turns it has come back to an address it has visited.\<close>

definition TAG_BOUND :: nat where "TAG_BOUND = 2 ^ 64"

primrec tag_loop :: "nat \<Rightarrow> mem \<Rightarrow> ptr \<Rightarrow> boot_info \<times> u32 \<Rightarrow> (boot_info \<times> u32) res" where
  "tag_loop 0 m h bi = Inl Diverges"
| "tag_loop (Suc fuel) m h bi =
     (if tag_type m h = MULTIBOOT_HEADER_TAG_END then Inr bi
      else tag_loop fuel m (next_tag m h) (load_tag m h bi))"

definition load_multiboot_info :: "mem \<Rightarrow> u32 \<Rightarrow> u64 \<Rightarrow> boot_info \<Rightarrow> boot_info res" where
  "load_multiboot_info m magic addr b =
     (if magic \<noteq> MULTIBOOT_BOOTLOADER_MAGIC
      then Inl (Panic ''load_multiboot_info: multiboot magic does not correspond'')
      else bind_res (tag_loop TAG_BOUND m (addr + 8) (b, 0)) (\<lambda>(b, module_index).
           Inr (b\<lparr>boot_module_size := ucast module_index\<rparr>)))"

section \<open>What is found\<close>

text \<open>\<open>tag_list m h hs\<close>: from \<open>h\<close> on the tags \<open>hs\<close> follow each other up to the end tag.\<close>

fun tag_list :: "mem \<Rightarrow> ptr \<Rightarrow> ptr list \<Rightarrow> bool" where
  "tag_list m h [] \<longleftrightarrow> tag_type m h = MULTIBOOT_HEADER_TAG_END"
| "tag_list m h (x # hs) \<longleftrightarrow> x = h \<and> tag_type m h \<noteq> MULTIBOOT_HEADER_TAG_END \<and> tag_list m (next_tag m h) hs"

definition of_kind :: "mem \<Rightarrow> tag_kind \<Rightarrow> ptr list \<Rightarrow> ptr list" where
  "of_kind m k hs = filter (\<lambda>h. tag_type m h = tag_number k) hs"

text \<open>The variable behind a slot holds the last tag of its kind.\<close>

definition last_slot :: "ptr list \<Rightarrow> ptr option \<Rightarrow> ptr option" where
  "last_slot hs slot = (case slot of None \<Rightarrow> None | Some v \<Rightarrow> Some (if hs = [] then v else last hs))"

lemma tag_loop_fold:
  assumes "tag_list m h hs" "length hs < fuel"
  shows "tag_loop fuel m h bi = Inr (fold (load_tag m) hs bi)"
  using assms
proof (induction hs arbitrary: h bi fuel)
  case (Cons x hs)
  then show ?case by (cases fuel) auto
qed (auto simp: gr0_conv_Suc)

lemma load_tag_slots:
  "boot_memory_map (fst (load_tag m h bi)) = (if tag_type m h = tag_number MEMORY_MAP then write_slot h (boot_memory_map (fst bi)) else boot_memory_map (fst bi))"
  "boot_framebuffer (fst (load_tag m h bi)) = (if tag_type m h = tag_number FRAMEBUFFER_INFO then write_slot h (boot_framebuffer (fst bi)) else boot_framebuffer (fst bi))"
  "acpi_old (fst (load_tag m h bi)) = (if tag_type m h = tag_number ACPI_OLD then write_slot h (acpi_old (fst bi)) else acpi_old (fst bi))"
  "acpi_new (fst (load_tag m h bi)) = (if tag_type m h = tag_number ACPI_NEW then write_slot h (acpi_new (fst bi)) else acpi_new (fst bi))"
  "boot_module_size (fst (load_tag m h bi)) = boot_module_size (fst bi)"
  by (cases bi; simp add: load_tag_def Let_def split: option.split)+

lemma last_slot_Nil [simp]: "last_slot (of_kind m k []) slot = slot"
  by (simp add: last_slot_def of_kind_def split: option.split)

lemma last_slot_snoc:
  "last_slot (of_kind m k (hs @ [h])) slot = (if tag_type m h = tag_number k then write_slot h (last_slot (of_kind m k hs) slot) else last_slot (of_kind m k hs) slot)"
  by (auto simp: last_slot_def of_kind_def write_slot_def split: option.split)

lemma load_tags_slots:
  "boot_memory_map (fst (fold (load_tag m) hs bi)) = last_slot (of_kind m MEMORY_MAP hs) (boot_memory_map (fst bi))"
  "boot_framebuffer (fst (fold (load_tag m) hs bi)) = last_slot (of_kind m FRAMEBUFFER_INFO hs) (boot_framebuffer (fst bi))"
  "acpi_old (fst (fold (load_tag m) hs bi)) = last_slot (of_kind m ACPI_OLD hs) (acpi_old (fst bi))"
  "acpi_new (fst (fold (load_tag m) hs bi)) = last_slot (of_kind m ACPI_NEW hs) (acpi_new (fst bi))"
  "boot_module_size (fst (fold (load_tag m) hs bi)) = boot_module_size (fst bi)"
  by (rule rev_induct [of _ hs], simp, simp add: load_tag_slots last_slot_snoc)+

text \<open>After the tags \<open>hs\<close> the array holds the first modules and the index counts them.\<close>

definition modules_read :: "mem \<Rightarrow> ptr list \<Rightarrow> u64 \<Rightarrow> ptr list" where
  "modules_read m hs n = take (unat n) (of_kind m MODULES hs)"

lemma load_tag_modules:
  assumes "boot_module (fst bi) = Some (xs @ ys)" "snd bi = of_nat (length xs)" "length xs < 2 ^ 31"
    and "length (xs @ ys) = unat (boot_module_size (fst bi))"
  shows "boot_module (fst (load_tag m h bi)) = Some (if tag_type m h = tag_number MODULES \<and> ys \<noteq> [] then xs @ h # tl ys else xs @ ys)
    \<and> snd (load_tag m h bi) = of_nat (length (if tag_type m h = tag_number MODULES \<and> ys \<noteq> [] then xs @ [h] else xs))"
proof (cases "tag_type m h = tag_number MODULES")
  case True
  have "unat (of_nat (length xs) :: u32) = length xs" using assms(3) by (simp add: unsigned_of_nat take_bit_nat_eq_self)
  then have "(ucast (of_nat (length xs) :: u32) :: u64) < boot_module_size (fst bi) \<longleftrightarrow> ys \<noteq> []"
      "unat (of_nat (length xs) :: u32) = length xs"
    using assms(4) by (cases ys; simp add: word_less_nat_alt unat_ucast_up)+
  then show ?thesis
    using True assms(1,2) by (cases bi; cases ys) (simp_all add: load_tag_def Let_def)
next
  case False
  then show ?thesis using assms(1,2) by (cases bi) (simp add: load_tag_def Let_def)
qed

lemma load_tags_modules:
  assumes "boot_module b = Some ms" "length ms = unat (boot_module_size b)" "length ms < 2 ^ 31"
  shows "boot_module (fst (fold (load_tag m) hs (b, 0))) =
      Some (modules_read m hs (boot_module_size b) @ drop (length (modules_read m hs (boot_module_size b))) ms)
    \<and> snd (fold (load_tag m) hs (b, 0)) = of_nat (length (modules_read m hs (boot_module_size b)))"
proof (induction hs rule: rev_induct)
  case Nil
  then show ?case using assms(1) by (simp add: modules_read_def of_kind_def)
next
  case (snoc h hs)
  let ?n = "boot_module_size b" and ?bi = "fold (load_tag m) hs (b, 0)"
  define xs where "xs = modules_read m hs ?n"
  define ys where "ys = drop (length xs) ms"
  have l: "length xs \<le> length ms" using assms(2) by (simp add: xs_def modules_read_def)
  have ih: "boot_module (fst ?bi) = Some (xs @ ys)" "snd ?bi = of_nat (length xs)" using snoc by (simp_all add: xs_def ys_def)
  have "length (xs @ ys) = unat (boot_module_size (fst ?bi))" using l assms(2) by (simp add: ys_def load_tags_slots)
  note step = load_tag_modules [OF ih _ this, of m h]
  have "modules_read m (hs @ [h]) ?n = (if tag_type m h = tag_number MODULES \<and> ys \<noteq> [] then xs @ [h] else xs)"
    using assms(2) l by (auto simp: modules_read_def of_kind_def xs_def ys_def)
  then show ?case
    using step l assms(3) by (auto simp: ys_def drop_Suc [symmetric] tl_drop drop_tl)
qed


text \<open>A memory-map tag of 16 bytes at \<open>0x1008\<close>, then the end tag.\<close>

definition example_tags :: mem where
  "example_tags = store32 (store32 (\<lambda>_. 0) 0x1008 6) 0x100C 16"

definition example_request :: boot_info where
  "example_request = \<lparr>boot_module = Some [NULL], boot_module_size = 1, basic_meminfo = None, bios_boot_device = None,
     boot_memory_map = Some NULL, boot_vbe = No_Slot, boot_framebuffer = Some NULL, elf_symbols = None, boot_apm = None,
     boot_efi32 = None, boot_efi64 = None, boot_smbios = None, acpi_old = None, acpi_new = None, boot_network = None,
     efi_mmap = None, efi32_handle = None, efi64_handle = None, load_base_addr = None\<rparr>"


end
