(* ===== verification/Kvm_Init.thy ===== *)
theory Kvm_Init
  imports Keyboard Multiboot
begin

text \<open>
  The initialisation of memory, the first part of \<open>kernel/arch/x86-64/memory/vm.c\<close>: the direct mapping of physical memory, the choice of the RAM
  area from the multiboot memory map, the physical allocator and the kernel's address space.
\<close>

section \<open>State\<close>

text \<open>
  \<open>pml4\<close>, \<open>physical_mapping\<close>, \<open>kernel_virtual_offset\<close> and \<open>kernel_virtual_end\<close> are link-time addresses, \<open>cpuid_ext_edx\<close> is what leaf 0x80000001
  reports in \<open>edx\<close>.
\<close>

record kvm_state = kbd_state +
  pml4 :: ptr
  physical_mapping :: ptr
  kernel_virtual_offset :: u64
  kernel_virtual_end :: u64
  cpuid_ext_edx :: u32
  big_page_size_supported :: bool

definition IA32_EFER :: u32 where "IA32_EFER = 0xC0000080"

definition PHYSICAL_ADDRESS :: "u64 \<Rightarrow> 'a kvm_state_scheme \<Rightarrow> u64" where
  "PHYSICAL_ADDRESS symbol s = symbol - kernel_virtual_offset s"

section \<open>Operations\<close>

definition enable_nx_flag :: "'a lapic_state_scheme \<Rightarrow> 'a lapic_state_scheme" where
  "enable_nx_flag s = wrmsr IA32_EFER (msr s IA32_EFER OR push_bit 11 1) s"

text \<open>
  The table that \<open>pd_va(0, 0)\<close> names through the recursive entry is the page directory below entry 0 of the first two levels; without
  them the access faults.
\<close>

definition disable_id_mapping :: "'a paging_state_scheme \<Rightarrow> 'a paging_state_scheme res" where
  "disable_id_mapping s =
     (let e4 = pt_mem s (kernel_pml4 s); e3 = pt_mem s (child_table e4)
      in if \<not> pte_present e4 \<or> \<not> pte_present e3 then Inl Undefined
         else let kernel_p2 = child_table e3
              in Inr (set_entry kernel_p2 (pte_set_present False (pt_mem s kernel_p2)) s))"

text \<open>The fields of the memory map: \<open>size\<close> and \<open>entry_size\<close>, and base, length and type of entry \<open>i\<close>.\<close>

definition mmap_size :: "mem \<Rightarrow> ptr \<Rightarrow> u32" where "mmap_size m p = load32 m (p + 4)"
definition mmap_entry_size :: "mem \<Rightarrow> ptr \<Rightarrow> u32" where "mmap_entry_size m p = load32 m (p + 8)"
definition mmap_base_addr :: "mem \<Rightarrow> ptr \<Rightarrow> nat \<Rightarrow> u64" where "mmap_base_addr m p i = load64 m (p + 16 + 24 * of_nat i)"
definition mmap_length :: "mem \<Rightarrow> ptr \<Rightarrow> nat \<Rightarrow> u64" where "mmap_length m p i = load64 m (p + 16 + 24 * of_nat i + 8)"
definition mmap_type :: "mem \<Rightarrow> ptr \<Rightarrow> nat \<Rightarrow> u32" where "mmap_type m p i = load32 m (p + 16 + 24 * of_nat i + 16)"

text \<open>The loop that keeps the largest area of type 1: its base and size.\<close>

definition max_ram_step :: "mem \<Rightarrow> ptr \<Rightarrow> nat \<Rightarrow> u64 \<times> u64 \<Rightarrow> u64 \<times> u64" where
  "max_ram_step m mmap i = (\<lambda>(max_ram_base_addr, max_ram_size).
     if mmap_type m mmap i = 1 \<and> mmap_length m mmap i > max_ram_size
     then (mmap_base_addr m mmap i, mmap_length m mmap i) else (max_ram_base_addr, max_ram_size))"

definition max_ram :: "mem \<Rightarrow> ptr \<Rightarrow> (u64 \<times> u64) res" where
  "max_ram m mmap =
     (if mmap = NULL then Inl NullDeref
      else if mmap_entry_size m mmap = 0 then Inl DivideError
      else let entry_number = (mmap_size m mmap - 16) div mmap_entry_size m mmap
           in Inr (fold (max_ram_step m mmap) [0..<unat entry_number] (0, 0)))"

text \<open>Entry \<open>i\<close> of the direct mapping, a page of one gigabyte; the table is named by its address in the window it establishes.\<close>

definition direct_entry :: "bool \<Rightarrow> nat \<Rightarrow> pte_t" where
  "direct_entry nx i =
     pte_set_page_size True (pte_set_xd nx (pte_set_writable True (pte_set_present True (BIG_PAGE_SIZE * of_nat i))))"

definition map_physical :: "'a kvm_state_scheme \<Rightarrow> 'a kvm_state_scheme" where
  "map_physical s =
     fold (\<lambda>i s. set_entry (PHYSICAL_ADDRESS (physical_mapping s) s + PHYSICAL_OFFSET + 8 * of_nat i)
             (direct_entry (nx_flag_enabled s) i) s) [0..<512] s"

definition kvminit :: "ptr \<Rightarrow> 'a kvm_state_scheme \<Rightarrow> 'a kvm_state_scheme res" where
  "kvminit mmap s =
     (let s = s\<lparr>kernel_pml4 := pml4 s, nx_flag_enabled := (cpuid_ext_edx s AND push_bit 20 1 \<noteq> 0)\<rparr>;
          s = s\<lparr>big_page_size_supported := (cpuid_ext_edx s AND push_bit 26 1 \<noteq> 0)\<rparr>;
          s = (if nx_flag_enabled s then enable_nx_flag s else s);
          physical_entry = pte_set_xd (nx_flag_enabled s) (pte_set_writable True (pte_set_present True
            (PHYSICAL_ADDRESS (physical_mapping s) s)));
          s = set_entry (kernel_pml4 s + 8 * 509) physical_entry s
      in bind_res (max_ram (kmem s) mmap) (\<lambda>(max_ram_base_addr, max_ram_size).
         if max_ram_size = 0 then Inl (Panic ''kvminit: no ram detected'')
         else let phys_memory_end = max_ram_base_addr + max_ram_size - 1;
                  kernel_physical_end = PHYSICAL_ADDRESS (kernel_virtual_end s) s;
                  start = PAGE_END kernel_physical_end SMALL_PAGE_SIZE + 1;
                  s = map_physical s
              in bind_res (init_phys_allocator start (phys_memory_end - start + 1) s) (\<lambda>s.
                 Inr (vmm_init (kernel_vmm s) (kernel_pml4 s) 0xFFFF800000000000 0xFFFFFE8000000000 False NULL s))))"

end
