(* ===== verification/Boot.thy ===== *)
theory Boot
  imports Kvm_Init
begin

text \<open>
  The top of the kernel: interrupt dispatch (\<open>interrupt/interrupt_handler.c\<close>), the boot sequence of the first and of the other CPUs
  (\<open>core_startup.c\<close>) and \<open>main\<close> (\<open>kernel.c\<close>). A run of \<open>main\<close> that reaches \<open>idle\<close>, which loops for ever, is an \<open>Inr\<close>.
\<close>

section \<open>State\<close>

text \<open>\<open>initd_name\<close>, \<open>empty_name\<close> and \<open>ap_trampoline\<close> are addresses of strings and code; \<open>vector_handler_0x21\<close> is an interrupt stub.\<close>

record kernel_state = kvm_state +
  ap_trampoline :: ptr
  vector_handler_0x21 :: u64
  core_running_lock :: ptr
  initd_name :: ptr
  empty_name :: ptr

section \<open>Interrupts\<close>

definition GENERAL_PROTECTION :: u64 where "GENERAL_PROTECTION = 13"
definition PAGE_FAULT :: u64 where "PAGE_FAULT = 14"
definition IRQ_KEYBOARD :: u8 where "IRQ_KEYBOARD = 0x1"
definition IRQ_VECTOR_KEYBOARD :: u64 where "IRQ_VECTOR_KEYBOARD = 0x21"
definition IRQ_HPET_TIMER :: "u64 \<Rightarrow> u64" where "IRQ_HPET_TIMER n = 0x30 + n"
definition APIC_TIMER_INTERRUPT :: u64 where "APIC_TIMER_INTERRUPT = 0x40"

text \<open>
  The bits of the error code of a page fault that make it unresolvable: present (bit 0), reserved (3), instruction fetch (4), protection key (5), shadow
  stack (6), HLAT (7) and SGX (15).
\<close>

definition unresolvable :: "u32 \<Rightarrow> bool" where
  "unresolvable error \<longleftrightarrow> bit error 0 \<or> bit error 3 \<or> bit error 4 \<or> bit error 5 \<or> bit error 6 \<or> bit error 7 \<or> bit error 15"

definition interrupt_dispatch :: "int_frame \<Rightarrow> 'a kernel_state_scheme \<Rightarrow> (int_frame \<times> 'a kernel_state_scheme) res" where
  "interrupt_dispatch context s =
     bind_res
       (let v = vector_number context
        in if v = GENERAL_PROTECTION then Inl (Panic ''#GP'')
        else if v = PAGE_FAULT
        then if unresolvable (ucast (error_code context)) then Inl (Panic ''Unresolvable #PF'')
             else bind_res (on_demand_allocation (cr2 (frame_registers context)) s) (\<lambda>(r, s).
                  if r \<noteq> 0 then Inl (Panic ''Error for on demand allocation, memory not allocated'') else Inr (context, s))
        else if v = IRQ_VECTOR_KEYBOARD then bind_res (keystroke_handler s) (\<lambda>s. Inr (context, s))
        else if v = IRQ_HPET_TIMER 0 then bind_res (klog DEBUG (ascii ''PING (hpet)'') s) (\<lambda>s. Inr (context, s))
        else if v = APIC_TIMER_INTERRUPT then bind_res (klog DEBUG (ascii ''PING (apic)'') s) (schedule context)
        else Inr (context, s))
       (\<lambda>(context, s). bind_res (send_eoi s) (\<lambda>s. Inr (context, s)))"

section \<open>Start\<close>

definition main :: "ptr \<Rightarrow> 'a kernel_state_scheme \<Rightarrow> 'a kernel_state_scheme res" where
  "main initd s =
     bind_res (change_current_vmm (kernel_vmm s) s) (\<lambda>s.
     let (cpu, s) = get_cpu s
     in bind_res
          (if cpu_status_id (cpu_status_of s cpu) = bsp_id s \<and> initd \<noteq> NULL
           then bind_res (create_process (initd_name s) initd True (empty_name s) s) (\<lambda>(init_p, s).
                if init_p \<noteq> NULL then run_proc init_p s else Inr s)
           else Inr s)
          (arm_timer 100000000 False True))"

definition LAPIC_REG_ERROR_STATUS :: u32 where "LAPIC_REG_ERROR_STATUS = 0x280"
definition DELIVERY_INIT :: u32 where "DELIVERY_INIT = 5"
definition DELIVERY_START_UP :: u32 where "DELIVERY_START_UP = 6"

text \<open>
  The fields of \<open>ipi_command_t\<close>: vector (bits 0..7), delivery mode (8..10), level (14) and trigger mode (15).
\<close>

definition ipi_command :: "u32 \<Rightarrow> u32 \<Rightarrow> u32 \<Rightarrow> u32 \<Rightarrow> u32" where
  "ipi_command vector deliv_mode level trigger_mode =
     put_field 15 1 trigger_mode (put_field 14 1 level (put_field 8 3 deliv_mode (put_field 0 8 vector 0)))"

text \<open>The start of one CPU: INIT, its deassertion, and the start-up request twice.\<close>

definition send_startup :: "u32 \<Rightarrow> 'a kernel_state_scheme \<Rightarrow> 'a kernel_state_scheme res" where
  "send_startup i s =
     bind_res (write_lapic_register LAPIC_REG_ERROR_STATUS 0 s) (\<lambda>s.
     bind_res (send_ipi i (ipi_command 8 DELIVERY_START_UP 0 0) s) (nanodelay 200000))"

definition start_cpu :: "u32 \<Rightarrow> 'a kernel_state_scheme \<Rightarrow> 'a kernel_state_scheme res" where
  "start_cpu i s =
     (if i = bsp_id s then Inr s
      else bind_res (write_lapic_register LAPIC_REG_ERROR_STATUS 0 s) (\<lambda>s.
      bind_res (send_ipi i (ipi_command 0 DELIVERY_INIT 1 1) s) (\<lambda>s.
      bind_res (send_ipi i (ipi_command 0 DELIVERY_INIT 0 1) s) (\<lambda>s.
      bind_res (millidelay 10 s) (\<lambda>s.
      bind_res (send_startup i s) (send_startup i))))))"

text \<open>The other CPUs run \<open>ap_startup\<close> meanwhile; their steps are not part of this function.\<close>

definition init_ap :: "'a kernel_state_scheme \<Rightarrow> 'a kernel_state_scheme res" where
  "init_ap s =
     (let s = s\<lparr>kmem := memcpy (kmem s) (0x8000 + PHYSICAL_OFFSET) (ap_trampoline s) 4096\<rparr>
      in bind_res (acquire (core_running_lock s) s) (\<lambda>s.
         let s = s\<lparr>core_running := core_running s + 1\<rparr>
         in bind_res (iter_res (\<lambda>i. start_cpu (of_nat i)) [0..<unat (core_available s)] s) (\<lambda>s.
            bind_res (release (core_running_lock s) s) (millidelay 20))))"

definition ap_startup :: "u32 \<Rightarrow> 'a kernel_state_scheme \<Rightarrow> 'a kernel_state_scheme res" where
  "ap_startup apicid s =
     (let s = push_off s; nx_flag_supported = (cpuid_ext_edx s AND push_bit 20 1 \<noteq> 0)
      in bind_res
           (if nx_flag_enabled s
            then if \<not> nx_flag_supported
                 then Inl (Panic ''Error while setting up CPU %d, it does not suppord nx_flag but nx_flag is enabled on BSP'')
                 else Inr (enable_nx_flag s)
            else Inr s) (\<lambda>s.
         bind_res (enable_lapic apicid (load_idt s)) (\<lambda>(_, s).
         bind_res (acquire (core_running_lock s) s) (\<lambda>s.
         bind_res (release (core_running_lock s) (s\<lparr>core_running := core_running s + 1\<rparr>)) (\<lambda>s.
         bind_res (pop_off s) (main NULL))))))"

section \<open>The first CPU\<close>

text \<open>The slots that \<open>bsp_startup\<close> asks the multiboot reader to fill; all are null pointers at first.\<close>

definition boot_request :: boot_info where
  "boot_request = \<lparr>boot_module = Some (replicate 64 NULL), boot_module_size = 64, basic_meminfo = None, bios_boot_device = None,
     boot_memory_map = Some NULL, boot_vbe = No_Slot, boot_framebuffer = Some NULL, elf_symbols = None, boot_apm = None,
     boot_efi32 = None, boot_efi64 = None, boot_smbios = None, acpi_old = Some NULL, acpi_new = Some NULL, boot_network = None,
     efi_mmap = None, efi32_handle = None, efi64_handle = None, load_base_addr = None\<rparr>"

text \<open>The search for the module named \<open>initd\<close>; the name is at offset 16 of a module tag, the start of the module at offset 8.\<close>

primrec find_initd :: "ptr list \<Rightarrow> ptr \<Rightarrow> mem \<Rightarrow> ptr res" where
  "find_initd [] name m = Inr NULL"
| "find_initd (p # ps) name m =
     (if p = NULL then Inl NullDeref
      else if strncmp m name (p + 16) 6 = 0 then Inr (ucast (load32 m (p + 8)) + PHYSICAL_OFFSET)
      else find_initd ps name m)"

text \<open>From the ACPI tables to the keyboard.\<close>

definition start_devices :: "ptr \<Rightarrow> ptr \<Rightarrow> 'a kernel_state_scheme \<Rightarrow> 'a kernel_state_scheme res" where
  "start_devices old new s =
     bind_res (if old \<noteq> NULL then bind_res (load_rsdp (old + 8 + PHYSICAL_OFFSET) s) (\<lambda>(_, s). Inr s) else Inr s) (\<lambda>s.
     bind_res (if new \<noteq> NULL then bind_res (load_xsdp CHAIN_BOUND (new + 8 + PHYSICAL_OFFSET) s) (\<lambda>(_, s). Inr s) else Inr s) (\<lambda>s.
     bind_res (enable_lapic (bsp_id s) (load_idt s)) (\<lambda>(_, s).
     bind_res (read_madt s) (\<lambda>(_, s).
     bind_res (setup_hpet s) (\<lambda>(_, s).
     bind_res (init_ap s) (\<lambda>s.
     bind_res (disable_id_mapping s) (\<lambda>s.
     let s = init_keyboard s;
         s = set_idt_entry (ucast IRQ_VECTOR_KEYBOARD) (vector_handler_0x21 s) GDT_ENTRY_KERNEL_CODE (FLAGS_DPL 0 OR FLAGS_GATE_TYPE 0xE) s
     in bind_res (set_irq IRQ_KEYBOARD (ucast IRQ_VECTOR_KEYBOARD) DEST_PHYSICAL 0 False s) (\<lambda>(_, s). Inr s))))))))"

text \<open>The kernel heap, the task state segment and the terminal.\<close>

definition start_heap :: "ptr \<Rightarrow> 'a kernel_state_scheme \<Rightarrow> 'a kernel_state_scheme res" where
  "start_heap framebuffer s =
     bind_res (vmm_alloc (kernel_vmm s) (2 * PAGE_SIZE) MEMORY_FLAG_WRITE s) (\<lambda>(area, s).
     if area = NULL then Inl (Panic ''Could not allocate memory for kernel heap'')
     else bind_res (init_heap (area_start (areas s area)) (area_size (areas s area)) (s\<lparr>kernel_heap := area_start (areas s area)\<rparr>)) (\<lambda>s.
          bind_res (setup_tss s) (\<lambda>s.
          bind_res (terminal_initialize (framebuffer + 8 + PHYSICAL_OFFSET) s) (\<lambda>(_, s). Inr s))))"

definition bsp_startup :: "u64 \<Rightarrow> u64 \<Rightarrow> u32 \<Rightarrow> 'a kernel_state_scheme \<Rightarrow> 'a kernel_state_scheme res" where
  "bsp_startup magic addr apicid s =
     (let s = push_off s; (_, s) = init_qemu_serial s; s = s\<lparr>bsp_id := apicid\<rparr>
      in bind_res (load_multiboot_info (kmem s) (ucast magic) addr boot_request) (\<lambda>info.
         let modules = (case boot_module info of Some ms \<Rightarrow> take (unat (boot_module_size info)) ms | None \<Rightarrow> []);
             slot = (\<lambda>x. case x of Some p \<Rightarrow> p | None \<Rightarrow> NULL)
         in bind_res (find_initd modules (initd_name s) (kmem s)) (\<lambda>initd.
            bind_res (kvminit (slot (boot_memory_map info)) s) (\<lambda>s.
            bind_res (start_devices (slot (acpi_old info)) (slot (acpi_new info)) s) (\<lambda>s.
            bind_res (start_heap (slot (boot_framebuffer info)) s) (\<lambda>s.
            bind_res (pop_off s) (main initd)))))))"

end
