(* ===== verification/Vmm_Areas.thy ===== *)
theory Vmm_Areas
  imports Vmm
begin

text \<open>
  What the virtual memory manager guarantees: the list of areas of an address space stays sorted and free of overlaps, an address is found in the area that
  contains it, and an allocation appends a fresh area.
\<close>

section \<open>The list of areas\<close>

text \<open>
  \<open>aseg s pr p as q r\<close>: from \<open>p\<close>, whose predecessor is \<open>pr\<close>, the areas \<open>as\<close> follow each other; the last one is \<open>q\<close>
  (\<open>pr\<close> if there is none) and is followed by \<open>r\<close>.
\<close>

fun aseg :: "(ptr \<Rightarrow> memory_area) \<Rightarrow> ptr \<Rightarrow> ptr \<Rightarrow> ptr list \<Rightarrow> ptr \<Rightarrow> ptr \<Rightarrow> bool" where
  "aseg h pr p [] q r \<longleftrightarrow> pr = q \<and> p = r"
| "aseg h pr p (a # as) q r \<longleftrightarrow> p = a \<and> a \<noteq> NULL \<and> area_prev (h a) = pr \<and> aseg h a (area_next (h a)) as q r"

lemma aseg_append:
  "aseg h pr p (xs @ ys) q r \<longleftrightarrow> (\<exists>q' r'. aseg h pr p xs q' r' \<and> aseg h q' r' ys q r)"
  by (induction xs arbitrary: pr p) auto

lemma aseg_cong:
  "(\<And>a. a \<in> set as \<Longrightarrow> area_prev (h' a) = area_prev (h a) \<and> area_next (h' a) = area_next (h a)) \<Longrightarrow>
   aseg h' pr p as q r = aseg h pr p as q r"
  by (induction as arbitrary: pr p) auto

lemma aseg_end: "aseg h pr p as q r \<Longrightarrow> q = (if as = [] then pr else last as)"
  by (induction as arbitrary: pr p) auto

lemma aseg_nonnull: "aseg h pr p as q r \<Longrightarrow> NULL \<notin> set as"
  by (induction as arbitrary: pr p) auto

lemma aseg_push_back:
  assumes "aseg h NULL p as q NULL" "distinct as" "n \<noteq> NULL" "n \<notin> set as"
    and h': "\<And>a. a \<noteq> n \<Longrightarrow> a \<noteq> q \<Longrightarrow> h' a = h a"
      "q \<noteq> NULL \<Longrightarrow> area_next (h' q) = n \<and> area_prev (h' q) = area_prev (h q)"
      "area_prev (h' n) = q" "area_next (h' n) = NULL"
  shows "aseg h' NULL (if q = NULL then n else p) (as @ [n]) n NULL"
proof (cases as rule: rev_cases)
  case Nil
  with assms(1,3) h'(3,4) show ?thesis by auto
next
  case (snoc bs b)
  obtain q' r' where 1: "aseg h NULL p bs q' r'" and 2: "aseg h q' r' [b] q NULL"
    using assms(1) unfolding snoc aseg_append by blast
  from 2 have e: "r' = b" "q = b" "b \<noteq> NULL" "area_prev (h b) = q'" by auto
  from 1 e have b: "aseg h NULL p bs q' b" "q = b" "b \<noteq> NULL" "area_prev (h b) = q'" by blast+
  have "h' x = h x" if "x \<in> set bs" for x
    by (rule h'(1)) (use that assms(2,4) snoc b(2) in auto)
  then have "aseg h' NULL p bs q' b"
    using b(1) by (subst aseg_cong [of bs h' h]) simp_all
  moreover have "aseg h' q' b [b, n] n NULL"
    using b(2-4) h'(2-4) assms(3) by simp
  ultimately have "aseg h' NULL p (bs @ [b, n]) n NULL"
    unfolding aseg_append by blast
  with b(2,3) snoc show ?thesis by simp
qed

lemma aseg_unlink:
  assumes "aseg h NULL p (xs @ a # ys) q NULL" "distinct (xs @ a # ys)"
    and h1: "h1 = (if area_prev (h a) \<noteq> NULL
        then h(area_prev (h a) := (h (area_prev (h a)))\<lparr>area_next := area_next (h a)\<rparr>) else h)"
    and h2: "h2 = (if area_next (h a) \<noteq> NULL
        then h1(area_next (h a) := (h1 (area_next (h a)))\<lparr>area_prev := area_prev (h a)\<rparr>) else h1)"
  shows "aseg h2 NULL (if area_prev (h a) \<noteq> NULL then p else area_next (h a)) (xs @ ys)
    (if area_next (h a) \<noteq> NULL then q else area_prev (h a)) NULL"
proof -
  obtain pa ra where x: "aseg h NULL p xs pa ra" and ra: "aseg h pa ra (a # ys) q NULL"
    using assms(1) unfolding aseg_append by blast
  define na where "na = area_next (h a)"
  have "ra = a" using ra by simp
  with x ra have x: "aseg h NULL p xs pa a" and a: "a \<noteq> NULL" "area_prev (h a) = pa" "area_next (h a) = na"
      and y: "aseg h a na ys q NULL" by (simp_all add: na_def)
  have pa: "pa = (if xs = [] then NULL else last xs)" using aseg_end [OF x] by simp
  have na: "na = (if ys = [] then NULL else hd ys)" using y by (cases ys) auto
  have nz: "NULL \<notin> set (xs @ a # ys)" using assms(1) by (rule aseg_nonnull)
  have L: "xs = [] \<and> pa = NULL \<or> pa \<in> set xs \<and> pa \<noteq> NULL" using pa nz by (cases xs rule: rev_cases) auto
  have H: "ys = [] \<and> na = NULL \<or> na \<in> set ys \<and> na \<noteq> NULL" using na nz by (cases ys) auto
  have pa': "pa \<noteq> NULL \<longleftrightarrow> xs \<noteq> []" "na \<noteq> NULL \<longleftrightarrow> ys \<noteq> []"
    using L H by auto
  have ne: "pa \<noteq> na" if "pa \<noteq> NULL" "na \<noteq> NULL"
    using that L H assms(2) by auto
  have h2': "\<And>b. b \<noteq> pa \<Longrightarrow> b \<noteq> na \<Longrightarrow> h2 b = h b"
      "pa \<noteq> NULL \<Longrightarrow> area_next (h2 pa) = na \<and> area_prev (h2 pa) = area_prev (h pa)"
      "na \<noteq> NULL \<Longrightarrow> area_prev (h2 na) = pa \<and> area_next (h2 na) = area_next (h na)"
    using ne unfolding h2 h1 a(2,3) by (auto split: if_splits)
  have X: "aseg h2 NULL (if xs \<noteq> [] then p else na) xs pa na"
  proof (cases xs rule: rev_cases)
    case (snoc us u)
    obtain w r where w: "aseg h NULL p us w r" "aseg h w r [u] pa a"
      using x unfolding snoc aseg_append by blast
    have e: "r = u" "area_prev (h u) = w" "pa = u" "u \<noteq> NULL" using w(2) by auto
    have u: "aseg h NULL p us w u" "area_prev (h u) = w" "pa = u" "u \<noteq> NULL" using w(1) e by blast+
    have "na \<notin> set us" "u \<notin> set us"
      using H assms(2) snoc nz by auto
    then have "h2 x = h x" if "x \<in> set us" for x
      by (intro h2'(1)) (use that u(3) in auto)
    then have "aseg h2 NULL p us w u" using u(1) by (subst aseg_cong [of us h2 h]) simp_all
    moreover have "aseg h2 w u [u] u na" using u h2'(2) by simp
    ultimately show ?thesis unfolding snoc u(3) aseg_append by auto
  qed (simp add: pa)
  have Y: "aseg h2 pa na ys (if ys \<noteq> [] then q else pa) NULL"
  proof (cases ys)
    case (Cons v vs)
    then have v: "na = v" "v \<noteq> NULL" "aseg h v (area_next (h v)) vs q NULL" using y by auto
    have "pa \<notin> set vs" "v \<notin> set vs"
      using L assms(2) Cons nz by auto
    then have "h2 x = h x" if "x \<in> set vs" for x
      by (intro h2'(1)) (use that v(1) in auto)
    then have "aseg h2 v (area_next (h v)) vs q NULL"
      using v(3) by (subst aseg_cong [of vs h2 h]) simp_all
    with v h2'(3) Cons show ?thesis by simp
  qed (simp add: na)
  show ?thesis
    unfolding aseg_append a(2,3) pa' by (intro exI [of _ pa] exI [of _ na] conjI X Y)
qed

section \<open>The invariant\<close>

text \<open>
  The addresses an area covers are \<open>area_lo\<close> up to, but not including, \<open>area_hi\<close>. \<open>area_list s vmm as\<close>: the areas of the address space are \<open>as\<close>, in the order
  of their addresses; they are whole pages, do not overlap and lie between \<open>vmm_data_start\<close> and \<open>current_addr\<close>.
\<close>

definition area_lo :: "(ptr \<Rightarrow> memory_area) \<Rightarrow> ptr \<Rightarrow> nat" where "area_lo h a = unat (area_start (h a))"
definition area_hi :: "(ptr \<Rightarrow> memory_area) \<Rightarrow> ptr \<Rightarrow> nat" where "area_hi h a = area_lo h a + unat (area_size (h a))"

definition area_ok :: "vmm_info \<Rightarrow> (ptr \<Rightarrow> memory_area) \<Rightarrow> ptr \<Rightarrow> bool" where
  "area_ok v h a \<longleftrightarrow> unat (vmm_data_start v) \<le> area_lo h a \<and> area_lo h a < area_hi h a
     \<and> area_lo h a mod 4096 = 0 \<and> area_hi h a mod 4096 = 0 \<and> area_hi h a \<le> unat (current_addr v) + 1"

definition area_list :: "'a vmm_state_scheme \<Rightarrow> ptr \<Rightarrow> ptr list \<Rightarrow> bool" where
  "area_list s vmm as \<longleftrightarrow>
     (let v = vmms s vmm; h = areas s
      in vmm \<noteq> NULL \<and> aseg h NULL (first_area v) as (current_area v) NULL \<and> distinct as
         \<and> (\<forall>a \<in> set as. area_ok v h a) \<and> sorted_wrt (\<lambda>a b. area_hi h a \<le> area_lo h b) as
         \<and> (as \<noteq> [] \<longrightarrow> (unat (current_addr v) + 1) mod 4096 = 0 \<and> unat (current_addr v) + 1 < 2 ^ 64)
         \<and> unat (vmm_data_start v) mod 4096 = 0 \<and> vmm_data_start v \<noteq> 0)"

text \<open>
  \<open>containers s vmm cs as F\<close>: the containers of the address space are \<open>cs\<close>, pages that are not free; every area is an item that was handed out.
\<close>

definition items :: "vmm_info \<Rightarrow> ptr list \<Rightarrow> ptr set" where
  "items v cs = {container_item c (of_nat i) | c i. c \<in> set cs \<and> i < 102 \<and> (c = current_container v \<longrightarrow> i < unat (current_index v))}"

definition containers :: "'a vmm_state_scheme \<Rightarrow> ptr \<Rightarrow> ptr list \<Rightarrow> ptr list \<Rightarrow> u64 set \<Rightarrow> bool" where
  "containers s vmm cs as F \<longleftrightarrow>
     (let v = vmms s vmm
      in (\<forall>c \<in> set cs. page_aligned c \<and> c \<noteq> NULL \<and> (\<forall>p \<in> F. c \<noteq> p + PHYSICAL_OFFSET))
         \<and> (root_container v = NULL \<longleftrightarrow> cs = []) \<and> current_container v = (if cs = [] then NULL else last cs)
         \<and> unat (current_index v) \<le> 102 \<and> set as \<subseteq> items v cs)"

section \<open>Looking an address up\<close>

lemma find_area_aseg:
  assumes "aseg (areas s) pr p as q NULL" "length as < fuel" "\<forall>a \<in> set as. area_hi (areas s) a < 2 ^ 64"
  shows "find_area fuel p va s = Inr (case find (\<lambda>a. area_lo (areas s) a \<le> unat va \<and> unat va < area_hi (areas s) a) as of
    None \<Rightarrow> NULL | Some a \<Rightarrow> a)"
  using assms
proof (induction as arbitrary: pr p fuel)
  case Nil
  then show ?case by (cases fuel) auto
next
  case (Cons a as)
  obtain f where f: "fuel = Suc f" using Cons.prems(2) by (cases fuel) auto
  have a: "p = a" "a \<noteq> NULL" "aseg (areas s) a (area_next (areas s a)) as q NULL" using Cons.prems(1) by auto
  have "unat (area_start (areas s a) + area_size (areas s a)) = area_hi (areas s) a"
    using Cons.prems(3) by (simp add: area_hi_def area_lo_def unat_word_ariths)
  then show ?case
    using a f Cons.IH [OF a(3), of f] Cons.prems(2,3)
    by (simp add: Let_def word_le_nat_alt word_less_nat_alt area_lo_def)
qed

lemma area_list_bound:
  assumes "area_list s vmm as"
  shows "length as < CHAIN_BOUND" "\<forall>a \<in> set as. area_hi (areas s) a < 2 ^ 64"
proof -
  have "distinct as" "NULL \<notin> set as" using assms aseg_nonnull by (auto simp: area_list_def Let_def)
  then have "card (set as) < card (UNIV :: ptr set)"
    by (intro psubset_card_mono) auto
  then show "length as < CHAIN_BOUND"
    using \<open>distinct as\<close> by (simp add: distinct_card card_word CHAIN_BOUND_def)
  show "\<forall>a \<in> set as. area_hi (areas s) a < 2 ^ 64"
    using assms by (fastforce simp: area_list_def area_ok_def Let_def)
qed

lemma get_memory_area_spec:
  assumes "area_list s vmm as"
  shows "\<exists>a. get_memory_area vmm va s = Inr a
    \<and> (a \<noteq> NULL \<longrightarrow> a \<in> set as \<and> area_lo (areas s) a \<le> unat va \<and> unat va < area_hi (areas s) a)
    \<and> (a = NULL \<longrightarrow> (\<forall>b \<in> set as. \<not> (area_lo (areas s) b \<le> unat va \<and> unat va < area_hi (areas s) b)))"
proof (cases "va > current_addr (vmms s vmm)")
  case True
  have "area_hi (areas s) b \<le> unat va" if "b \<in> set as" for b
    using assms that True by (fastforce simp: area_list_def area_ok_def Let_def word_less_nat_alt)
  with True assms show ?thesis
    by (intro exI [of _ NULL]) (force simp: get_memory_area_def area_list_def Let_def)
next
  case False
  let ?P = "\<lambda>a. area_lo (areas s) a \<le> unat va \<and> unat va < area_hi (areas s) a"
  have v: "vmm \<noteq> NULL" "aseg (areas s) NULL (first_area (vmms s vmm)) as (current_area (vmms s vmm)) NULL"
    using assms by (simp_all add: area_list_def Let_def)
  have g: "get_memory_area vmm va s = Inr (case find ?P as of None \<Rightarrow> NULL | Some a \<Rightarrow> a)"
    using False v(1) find_area_aseg [OF v(2) area_list_bound [OF assms]] by (simp add: get_memory_area_def)
  have nz: "NULL \<notin> set as" by (rule aseg_nonnull [OF v(2)])
  show ?thesis
  proof (cases "find ?P as")
    case None
    then have "get_memory_area vmm va s = Inr NULL" using g by simp
    moreover have "\<forall>b \<in> set as. \<not> ?P b" using None by (auto simp: find_None_iff)
    ultimately show ?thesis by blast
  next
    case (Some a)
    then have "a \<in> set as" "?P a" by (auto simp: find_Some_iff)
    then show ?thesis using g Some nz by auto
  qed
qed


section \<open>Adding an area\<close>

lemma gap_loop_returns:
  assumes "aseg (areas s) pr p as q NULL" "length as < fuel"
  shows "\<exists>r. gap_loop fuel vmm base len prev p s = Inr r"
  using assms
proof (induction as arbitrary: pr p fuel prev)
  case Nil
  then show ?case by (cases fuel) auto
next
  case (Cons a as)
  obtain f where f: "fuel = Suc f" using Cons.prems(2) by (cases fuel) auto
  have a: "p = a" "a \<noteq> NULL" "aseg (areas s) a (area_next (areas s a)) as q NULL" using Cons.prems(1) by auto
  show ?case using Cons.IH [OF a(3), of f] Cons.prems(2) a(1,2) f by (auto simp: Let_def)
qed

lemma aligned_room:
  assumes "unat (b :: u64) mod 4096 = 0"
  shows "unat b + 4096 \<le> 18446744073709551616"
proof -
  obtain k where k: "unat b = 4096 * k" using assms by (metis dvdE dvd_eq_mod_eq_0)
  then have "4096 * k < 4096 * 4503599627370496" using unat_u64_less [of b] by simp
  then have "k + 1 \<le> 4503599627370496" by linarith
  then show ?thesis unfolding k by linarith
qed

lemma container_item_inj:
  assumes "page_aligned c" "page_aligned d" "i < 102" "j < 102" "container_item c (of_nat i) = container_item d (of_nat j)"
  shows "c = d \<and> i = j"
proof -
  have *: "unat (container_item b (of_nat k)) = unat b + 40 * k \<and> unat b mod 4096 = 0" if "page_aligned b" "k < 102" for b k
  proof -
    have b: "unat b mod 4096 = 0" using that(1) by (simp add: page_aligned_def)
    then have "unat b + 4096 \<le> 18446744073709551616" by (rule aligned_room)
    moreover have "unat (40 * of_nat k :: u64) = 40 * k" using that(2) by (simp add: unat_word_ariths)
    ultimately show ?thesis using that(2) b unfolding container_item_def
      by (subst unat_le_add_iff) auto
  qed
  have e: "unat c + 40 * i = unat d + 40 * j" "unat c mod 4096 = 0" "unat d mod 4096 = 0"
    using * [OF assms(1,3)] * [OF assms(2,4)] assms(5) by auto
  obtain x y where xy: "unat c = 4096 * x" "unat d = 4096 * y" using e(2,3) by (metis dvdE dvd_eq_mod_eq_0)
  have "x = y"
    using e(1) assms(3,4) unfolding xy by (cases x y rule: linorder_cases) linarith+
  then show ?thesis using e(1) xy by (simp add: word_unat_eq_iff)
qed

text \<open>The last part of \<open>vmm_alloc_at\<close> when the new area goes behind the last one.\<close>

lemma vmm_insert_area_back:
  fixes s :: "'a vmm_state_scheme"
  assumes v: "v = vmms s vmm"
    and L: "area_list s vmm as" and new: "new = container_item (current_container v) (current_index v)" "new \<noteq> NULL" "new \<notin> set as"
    and found: "unat found mod 4096 = 0" "unat (vmm_data_start v) \<le> unat found"
      "\<forall>a \<in> set as. area_hi (areas s) a \<le> unat found"
    and len: "unat found + unat len + 1 < 2 ^ 64" "(unat len + 1) mod 4096 = 0"
  shows "\<exists>h w. vmm_insert_area vmm found len flags (current_area v) NULL s = (new, s\<lparr>areas := h, vmms := w\<rparr>)
    \<and> area_list (s\<lparr>areas := h, vmms := w\<rparr>) vmm (as @ [new])
    \<and> area_start (h new) = found \<and> area_size (h new) = len + 1
    \<and> area_flags (h new) = (if user_vmm v then flags OR MEMORY_FLAG_USER else flags)
    \<and> (\<forall>a \<in> set as. area_lo h a = area_lo (areas s) a \<and> area_hi h a = area_hi (areas s) a)
    \<and> w = (vmms s)(vmm := v\<lparr>current_index := current_index v + 1, first_area := (if as = [] then new else first_area v),
         current_area := new, current_addr := found + len\<rparr>)"
proof -
  define q where "q = current_area v"
  define a0 where "a0 = (areas s new)\<lparr>area_start := found, area_size := len + 1,
     area_flags := (if user_vmm v then flags OR MEMORY_FLAG_USER else flags), area_next := NULL, area_prev := q\<rparr>"
  define h where "h = (if q \<noteq> NULL then (areas s)(new := a0, q := (areas s q)\<lparr>area_next := new\<rparr>) else (areas s)(new := a0))"
  define w where "w = (vmms s)(vmm := v\<lparr>current_index := current_index v + 1, first_area := (if as = [] then new else first_area v),
         current_area := new, current_addr := found + len\<rparr>)"
  have A: "vmm \<noteq> NULL" "aseg (areas s) NULL (first_area v) as q NULL" "distinct as" "\<forall>a \<in> set as. area_ok v (areas s) a"
      "sorted_wrt (\<lambda>a b. area_hi (areas s) a \<le> area_lo (areas s) b) as" "unat (vmm_data_start v) mod 4096 = 0" "vmm_data_start v \<noteq> 0"
    using L by (simp_all add: area_list_def Let_def v q_def)
  have q: "q = NULL \<longleftrightarrow> as = []" "q \<noteq> NULL \<Longrightarrow> q \<in> set as" "q \<noteq> new"
    using aseg_end [OF A(2)] aseg_nonnull [OF A(2)] new(2,3) by (cases as rule: rev_cases; auto)+
  have ins: "vmm_insert_area vmm found len flags q NULL s = (new, s\<lparr>areas := h, vmms := w\<rparr>)"
    using q new(1) by (auto simp: vmm_insert_area_def set_vmm_def set_area_def Let_def h_def w_def a0_def v [symmetric] q_def [symmetric])
  have hn: "h new = a0" using q(3) by (simp add: h_def)
  have ho: "area_start (h a) = area_start (areas s a) \<and> area_size (h a) = area_size (areas s a)" if "a \<noteq> new" for a
    using that q(3) by (simp add: h_def)
  then have lh: "area_lo h a = area_lo (areas s) a" "area_hi h a = area_hi (areas s) a" if "a \<in> set as" for a
    using that new(3) by (metis area_lo_def area_hi_def)+
  have sz: "unat (len + 1) = unat len + 1" "unat (found + len) = unat found + unat len"
    using len(1) by (simp_all add: unat_word_ariths)
  have ln: "area_lo h new = unat found" "area_hi h new = unat found + unat len + 1"
    by (simp_all add: area_lo_def area_hi_def hn a0_def sz(1))
  have seg: "aseg h NULL (first_area (w vmm)) (as @ [new]) new NULL"
  proof -
    have "aseg h NULL (if q = NULL then new else first_area v) (as @ [new]) new NULL"
      using A(2,3) new(2,3) by (rule aseg_push_back) (auto simp: h_def a0_def q(3) q(3) [symmetric])
    then show ?thesis using q(1) by (simp add: w_def)
  qed
  have ok: "area_ok (w vmm) h a" if "a \<in> set (as @ [new])" for a
  proof (cases "a = new")
    case True
    then show ?thesis using found len ln by (auto simp: area_ok_def w_def sz(2) mod_add_eq [symmetric] add.assoc)
  next
    case False
    with that have a: "a \<in> set as" by simp
    then show ?thesis using A(4) lh [OF a] found(3) by (fastforce simp: area_ok_def w_def sz(2))
  qed
  have "sorted_wrt (\<lambda>a b. area_hi h a \<le> area_lo h b) (as @ [new])"
  proof -
    have "sorted_wrt (\<lambda>a b. area_hi h a \<le> area_lo h b) as"
      by (rule sorted_wrt_mono_rel [OF _ A(5)]) (simp add: lh)
    then show ?thesis using found(3) lh(2) ln(1) by (simp add: sorted_wrt_append)
  qed
  moreover have "(unat (found + len) + 1) mod 4096 = 0" using found(1) len(2) mod_add_eq [of "unat found" 4096 "unat len + 1"] by (simp add: sz(2))
  ultimately have "area_list (s\<lparr>areas := h, vmms := w\<rparr>) vmm (as @ [new])"
    using A seg ok new(3) len(1) by (simp add: area_list_def Let_def w_def sz(2))
  then show ?thesis using ins hn lh by (intro exI [of _ h] exI [of _ w]) (simp add: q_def a0_def w_def)
qed


section \<open>Allocation\<close>

text \<open>Locking and the fields of later components do not concern the page allocator.\<close>

lemma phys_pages_cong:
  assumes "lst_prev s' = lst_prev s" "lst_next s' = lst_next s" "free_lst s' = free_lst s" "phys_alloc_lock s' = phys_alloc_lock s"
    "pa_base s' = pa_base s" "pa_alloc s' = pa_alloc s" "pa_alloc_size s' = pa_alloc_size s" "phys_mem s' = phys_mem s"
    "spinlocks s' (phys_alloc_lock s) = spinlocks s (phys_alloc_lock s)"
  shows "phys_pages s' M F = phys_pages s M F"
proof -
  have "lst_rel s' h xs = lst_rel s h xs" for h xs by (rule lst_rel_cong) (use assms in simp_all)
  moreover have p: "page_pa s' = page_pa s" by (simp add: fun_eq_iff page_pa_def assms)
  moreover have "page_va s' = page_va s" by (simp add: fun_eq_iff page_va_def p)
  ultimately have "phys_inv s' n is = phys_inv s n is" for n "is"
    by (simp add: phys_inv_def phys_wf_def bit_isset_def assms)
  then show ?thesis by (simp add: phys_pages_def p)
qed

text \<open>An allocation leaves interrupts off when the caller has turned them off.\<close>

lemma lst_pop_sync:
  "lst_pop l (s :: 'a phys_state_scheme) = Inr (n, s') \<Longrightarrow>
     cpu_status_of s' = cpu_status_of s \<and> apic_id s' = apic_id s \<and> phys_alloc_lock s' = phys_alloc_lock s"
  by (auto simp: lst_ops bind_res_Inr_iff Let_def split: if_splits)

lemma kalloc_int_off:
  assumes "kalloc s = Inr (p, s')" "phys_pages s M F" "int_on (this_cpu s) = 0" "push_off_count (this_cpu s) \<noteq> 0"
  shows "int_on (this_cpu s') = 0"
proof -
  let ?l = "phys_alloc_lock s"
  have l: "?l \<noteq> NULL" "held (spinlocks s ?l) = 0" using assms(2) by (auto simp: phys_pages_def phys_inv_def phys_wf_def)
  have "\<exists>s2. release ?l s2 = Inr s' \<and> this_cpu s2 = this_cpu (locked ?l s)"
  proof -
    define s1 where "s1 = locked ?l s"
    have s1: "acquire ?l s = Inr s1" "phys_alloc_lock s1 = ?l" "apic_id s1 = apic_id s"
      using acquire_free [OF l] by (simp_all add: s1_def locked_def)
    obtain e where e: "lst_empty (free_lst s1) s1 = Inr e"
        "(if e then bind_res (release (phys_alloc_lock s1) s1) (\<lambda>s. Inr (0, s))
          else bind_res (lst_pop (free_lst s1) s1) (\<lambda>(n, s).
            let page = n - PHYSICAL_OFFSET; s = bit_set (page_index s page) s
            in bind_res (release (phys_alloc_lock s) s) (\<lambda>s. Inr (page, s)))) = Inr (p, s')"
      using assms(1) s1 by (auto simp: kalloc_def bind_res_Inr_iff)
    show ?thesis
    proof (cases e)
      case True
      then show ?thesis using e(2) s1 by (intro exI [of _ s1]) (simp add: bind_res_Inr_iff s1_def [symmetric])
    next
      case False
      then obtain n s3 where s3: "lst_pop (free_lst s1) s1 = Inr (n, s3)"
          "release (phys_alloc_lock s3) (bit_set (page_index s3 (n - PHYSICAL_OFFSET)) s3) = Inr s'"
        using e(2) by (auto simp: bind_res_Inr_iff Let_def)
      moreover have "this_cpu s3 = this_cpu s1" using lst_pop_sync [OF s3(1)] by (simp add: this_cpu_def)
      ultimately show ?thesis using lst_pop_sync [OF s3(1)] s1(2)
        by (intro exI [of _ "bit_set (page_index s3 (n - PHYSICAL_OFFSET)) s3"]) (simp add: s1_def [symmetric])
    qed
  qed
  then obtain s2 where s2: "release ?l s2 = Inr s'" "this_cpu s2 = this_cpu (locked ?l s)" by blast
  then have "s' = unlocked ?l s2" using release_locked [OF l(1), of s2] by simp
  moreover have "push_off_count (this_cpu s2) = push_off_count (this_cpu s) + 1" by (simp add: s2(2)) (simp add: locked_def this_cpu_def)
  ultimately show ?thesis using assms(4) by (simp add: unlocked_def this_cpu_def Let_def)
qed

text \<open>What \<open>vmm_alloc_at\<close> relies on besides the list: room for the new area, and interrupts off inside the lock.\<close>

definition room :: "'a vmm_state_scheme \<Rightarrow> ptr \<Rightarrow> ptr list \<Rightarrow> u64 set \<Rightarrow> bool" where
  "room s vmm cs F \<longleftrightarrow> F \<noteq> {} \<or> cs \<noteq> [] \<and> current_index (vmms s vmm) \<noteq> 102"

definition vmm_frame :: "'a vmm_state_scheme \<Rightarrow> 'a vmm_state_scheme \<Rightarrow> bool" where
  "vmm_frame s s' \<longleftrightarrow> areas s' = areas s \<and> kernel_vmm s' = kernel_vmm s \<and> phys_alloc_lock s' = phys_alloc_lock s \<and> apic_id s' = apic_id s
     \<and> (\<forall>l. l \<noteq> phys_alloc_lock s \<longrightarrow> spinlocks s' l = spinlocks s l)"

lemma vmm_container_spec:
  fixes s :: "'a vmm_state_scheme"
  assumes C: "containers s vmm cs as F" and P: "phys_pages s M F" and R: "room s vmm cs F"
    and I: "int_on (this_cpu s) = 0" "push_off_count (this_cpu s) \<noteq> 0"
  shows "\<exists>s' cs' F' rc cc ci. vmm_container vmm s = Inr s' \<and> containers s' vmm cs' as F' \<and> phys_pages s' M F' \<and> F' \<subseteq> F
    \<and> cs' \<noteq> [] \<and> unat ci < 102 \<and> vmm_frame s s' \<and> int_on (this_cpu s') = 0
    \<and> vmms s' = (vmms s)(vmm := (vmms s vmm)\<lparr>root_container := rc, current_container := cc, current_index := ci\<rparr>)"
proof (cases "current_index (vmms s vmm) = ITEM_PER_CONTAINER \<or> root_container (vmms s vmm) = NULL")
  case False
  let ?v = "vmms s vmm"
  have "unat (current_index ?v) \<le> 102" "cs \<noteq> []" using C False by (auto simp: containers_def Let_def)
  moreover have "unat (current_index ?v) \<noteq> 102" using False by (auto simp: word_unat_eq_iff)
  ultimately show ?thesis using False C P I(1)
    by (intro exI [of _ s] exI [of _ cs] exI [of _ F] exI [of _ "root_container ?v"] exI [of _ "current_container ?v"]
        exI [of _ "current_index ?v"]) (simp add: vmm_container_def vmm_frame_def)
next
  case True
  define v where "v = vmms s vmm"
  have F: "F \<noteq> {}" using R True C by (auto simp: room_def containers_def Let_def)
  obtain p s1 where s1: "kalloc s = Inr (p, s1)" "p \<in> F" "phys_pages s1 M (F - {p})" "phys_static s s1"
    using phys.alloc_some [OF P F] by blast
  define c where "c = p + PHYSICAL_OFFSET"
  have p: "page_aligned p" "p \<noteq> 0" "p < 0x8000000000" using phys.managed [OF P] phys.free_managed [OF P] s1(2) by blast+
  have c: "page_aligned c" "c \<noteq> NULL" "c \<notin> set cs"
    using win_facts [OF p(1,3)] C s1(2) by (auto simp: c_def win_def containers_def Let_def)
  have st: "vmms s1 = vmms s" "areas s1 = areas s" "kernel_vmm s1 = kernel_vmm s" "container_next s1 = container_next s"
    using s1(4) by (cases s; cases s1; simp add: phys_static_def)+
  define rc where "rc = (if current_container v \<noteq> NULL then root_container v else c)"
  define s2 where "s2 = (if current_container v \<noteq> NULL then s1\<lparr>container_next := (container_next s1)(current_container v := c)\<rparr> else s1)"
  define w where "w = (vmms s)(vmm := v\<lparr>root_container := rc, current_container := c, current_index := 0\<rparr>)"
  have run: "vmm_container vmm s = Inr (s2\<lparr>vmms := w\<rparr>)"
    using True s1(1) by (auto simp: vmm_container_def set_vmm_def Let_def s2_def w_def rc_def c_def st v_def)
  have cs: "root_container v = NULL \<longleftrightarrow> cs = []" "current_container v = (if cs = [] then NULL else last cs)" "set as \<subseteq> items v cs"
      "\<forall>c \<in> set cs. page_aligned c \<and> c \<noteq> NULL \<and> (\<forall>p \<in> F. c \<noteq> p + PHYSICAL_OFFSET)"
    using C by (simp_all add: containers_def v_def Let_def)
  have "containers (s2\<lparr>vmms := w\<rparr>) vmm (cs @ [c]) as (F - {p})"
  proof -
    have "items v cs \<subseteq> items (w vmm) (cs @ [c])" using c(3) by (auto simp: items_def w_def)
    moreover have "\<forall>q \<in> F - {p}. c \<noteq> q + PHYSICAL_OFFSET" by (auto simp: c_def)
    moreover have "rc \<noteq> NULL" using cs(1,2) c(2) by (auto simp: rc_def)
    ultimately show ?thesis using cs c by (auto simp: containers_def Let_def w_def)
  qed
  moreover have "phys_pages (s2\<lparr>vmms := w\<rparr>) M (F - {p})"
    using s1(3) by (subst phys_pages_cong [of _ s1]) (simp_all add: s2_def)
  moreover have "vmm_frame s (s2\<lparr>vmms := w\<rparr>)" using st s1(4) by (simp add: vmm_frame_def s2_def phys_static_def)
  moreover have "int_on (this_cpu (s2\<lparr>vmms := w\<rparr>)) = 0"
    using kalloc_int_off [OF s1(1) P I] by (simp add: s2_def this_cpu_def)
  ultimately show ?thesis using run
    by (intro exI [of _ "s2\<lparr>vmms := w\<rparr>"] exI [of _ "cs @ [c]"] exI [of _ "F - {p}"] exI [of _ rc] exI [of _ c] exI [of _ 0])
      (auto simp: w_def v_def)
qed

lemma vmm_lock_fields [simp]:
  "areas (locked l s) = areas s" "vmms (locked l s) = vmms s" "areas (unlocked l s) = areas s" "vmms (unlocked l s) = vmms s"
  by (simp_all add: locked_def unlocked_def Let_def)

lemma vmm_inv_cong:
  assumes "areas s' = areas s" "vmms s' = vmms s"
  shows "area_list s' vmm as = area_list s vmm as" "containers s' vmm cs as F = containers s vmm cs as F"
  using assms by (simp_all add: area_list_def containers_def)

lemma unat_round_up: "sz \<noteq> 0 \<Longrightarrow> unat (PAGE_END (sz - 1) 0x1000) + 1 = (unat sz + 4095) div 4096 * 4096"
proof -
  assume "sz \<noteq> 0"
  then have "0 < unat sz" by (simp add: unat_gt_0)
  moreover from this have "unat (sz - 1) = unat sz - 1" by (simp add: unat_sub_if' word_le_nat_alt Suc_le_eq)
  ultimately show ?thesis by (simp add: unat_PAGE_END_4K) (simp add: div_if [of "unat sz + 4095"])
qed

text \<open>A fresh item for the new area.\<close>

lemma fresh_item:
  assumes "containers s vmm cs as F" "cs \<noteq> []" "unat (current_index (vmms s vmm)) < 102"
    and "new = container_item (current_container (vmms s vmm)) (current_index (vmms s vmm))"
  shows "new \<noteq> NULL" "new \<notin> set as"
    and "items (vmms s vmm) cs \<union> {new} \<subseteq> items ((vmms s vmm)\<lparr>current_index := current_index (vmms s vmm) + 1,
      first_area := x, current_area := y, current_addr := z\<rparr>) cs"
proof -
  define v where "v = vmms s vmm"
  define c i where "c = current_container v" and "i = unat (current_index v)"
  have c: "c \<in> set cs" "\<forall>d \<in> set cs. page_aligned d \<and> d \<noteq> NULL" "set as \<subseteq> items v cs"
    using assms(1,2) by (auto simp: containers_def Let_def v_def c_def)
  have i: "i < 102" "of_nat i = current_index v" using assms(3) by (simp_all add: i_def v_def)
  have n: "new = container_item c (of_nat i)" using assms(4) i(2) by (simp add: v_def c_def)
  have "unat c mod 4096 = 0" "unat c \<noteq> 0" using c(1,2) by (auto simp: page_aligned_def unat_eq_0)
  moreover have "unat c + 4096 \<le> 18446744073709551616" using calculation(1) by (rule aligned_room)
  moreover have "unat (40 * of_nat i :: u64) = 40 * i" using i(1) by (simp add: unat_word_ariths)
  ultimately have "unat new \<noteq> 0" using i(1) unfolding n container_item_def by (subst unat_le_add_iff) auto
  then show "new \<noteq> NULL" by auto
  show "new \<notin> set as"
  proof
    assume "new \<in> set as"
    then obtain d j where d: "new = container_item d (of_nat j)" "d \<in> set cs" "j < 102" "d = c \<longrightarrow> j < i"
      using c(3) by (auto simp: items_def c_def i_def)
    then show False using container_item_inj [of c d i j] c(1,2) i(1) n by auto
  qed
  have "unat (current_index v + 1) = i + 1" using i(1) by (simp add: i_def unat_word_ariths)
  then have "new \<in> items (v\<lparr>current_index := current_index v + 1, first_area := x, current_area := y, current_addr := z\<rparr>) cs"
    using n c(1) i(1) by (auto simp: items_def c_def intro!: exI [of _ c] exI [of _ i])
  moreover have "items v cs \<subseteq> items (v\<lparr>current_index := current_index v + 1, first_area := x, current_area := y, current_addr := z\<rparr>) cs"
    using \<open>unat (current_index v + 1) = i + 1\<close> by (fastforce simp: items_def i_def)
  ultimately show "items (vmms s vmm) cs \<union> {new} \<subseteq> items ((vmms s vmm)\<lparr>current_index := current_index (vmms s vmm) + 1,
      first_area := x, current_area := y, current_addr := z\<rparr>) cs"
    by (simp add: v_def)
qed

text \<open>Where the search starts: behind the last area, but not below the requested address.\<close>

definition next_start :: "'a vmm_state_scheme \<Rightarrow> ptr \<Rightarrow> ptr list \<Rightarrow> u64 \<Rightarrow> nat" where
  "next_start s vmm as base =
     max (if as = [] then unat (vmm_data_start (vmms s vmm)) else unat (current_addr (vmms s vmm)) + 1) (unat base div 4096 * 4096)"

lemma next_start_facts:
  assumes "area_list s vmm as" "next_start s vmm as base < 2 ^ 64"
  defines "v \<equiv> vmms s vmm"
  defines "low \<equiv> (if current_area v = NULL then vmm_data_start v else PAGE_END (current_addr v) PAGE_SIZE + 1)"
    and "b \<equiv> PAGE_START base PAGE_SIZE"
  shows "unat (if low < b then b else low) = next_start s vmm as base" "next_start s vmm as base mod 4096 = 0"
    "0 < next_start s vmm as base" "unat (vmm_data_start v) \<le> next_start s vmm as base"
    "\<forall>a \<in> set as. area_hi (areas s) a \<le> next_start s vmm as base"
proof -
  have seg: "aseg (areas s) NULL (first_area v) as (current_area v) NULL" using assms(1) by (simp add: area_list_def Let_def v_def)
  have "current_area v = NULL \<longleftrightarrow> as = []"
    using aseg_end [OF seg] aseg_nonnull [OF seg] by (cases as rule: rev_cases) auto
  moreover have "\<forall>a \<in> set as. area_ok v (areas s) a" "unat (vmm_data_start v) mod 4096 = 0"
      "vmm_data_start v \<noteq> 0" "as \<noteq> [] \<Longrightarrow> (unat (current_addr v) + 1) mod 4096 = 0 \<and> unat (current_addr v) + 1 < 2 ^ 64"
    using assms(1) by (simp_all add: area_list_def Let_def v_def)
  ultimately have A: "current_area v = NULL \<longleftrightarrow> as = []" "\<forall>a \<in> set as. area_ok v (areas s) a" "unat (vmm_data_start v) mod 4096 = 0"
      "vmm_data_start v \<noteq> 0" "as \<noteq> [] \<Longrightarrow> (unat (current_addr v) + 1) mod 4096 = 0 \<and> unat (current_addr v) + 1 < 2 ^ 64"
    by simp_all
  have low: "unat low = (if as = [] then unat (vmm_data_start v) else unat (current_addr v) + 1)" "unat low mod 4096 = 0"
  proof -
    have "unat (PAGE_END (current_addr v) 0x1000 + 1) = unat (current_addr v) + 1" if "as \<noteq> []"
    proof -
      have "unat (current_addr v) mod 4096 = 4095" using A(5) [OF that] mod_Suc [of "unat (current_addr v)" 4096] by (auto split: if_splits)
      then have "unat (PAGE_END (current_addr v) 0x1000) = unat (current_addr v)"
        using div_mult_mod_eq [of "unat (current_addr v)" 4096] by (simp add: unat_PAGE_END_4K)
      then show ?thesis using A(5) [OF that] by (simp add: unat_word_ariths)
    qed
    then show "unat low = (if as = [] then unat (vmm_data_start v) else unat (current_addr v) + 1)" "unat low mod 4096 = 0"
      using A by (auto simp: low_def)
  qed
  have b: "unat b = unat base div 4096 * 4096" by (simp add: b_def unat_PAGE_START_4K)
  have n: "next_start s vmm as base = max (unat low) (unat b)" by (simp add: next_start_def low(1) b v_def)
  show "unat (if low < b then b else low) = next_start s vmm as base" by (auto simp: n word_less_nat_alt max_def)
  show "next_start s vmm as base mod 4096 = 0" using low(2) b by (auto simp: n max_def)
  have "unat (vmm_data_start v) \<le> unat low"
    using A(2) low(1) by (cases as) (auto simp: area_ok_def)
  moreover have "0 < unat (vmm_data_start v)" using A(4) by (simp add: unat_gt_0)
  ultimately show "0 < next_start s vmm as base" "unat (vmm_data_start v) \<le> next_start s vmm as base" by (auto simp: n)
  show "\<forall>a \<in> set as. area_hi (areas s) a \<le> next_start s vmm as base"
    using A(2) low(1) by (force simp: n area_ok_def)
qed

text \<open>The end of a successful allocation: a slot is taken from the containers and the new area is put behind the others.\<close>

lemma vmm_append_area:
  fixes s :: "'a vmm_state_scheme"
  assumes L: "area_list s vmm as" and C: "containers s vmm cs as F" and P: "phys_pages s M F" and R: "room s vmm cs F"
    and I: "int_on (this_cpu s) = 0" "push_off_count (this_cpu s) \<noteq> 0"
    and found: "unat found mod 4096 = 0" "unat (vmm_data_start (vmms s vmm)) \<le> unat found" "\<forall>a \<in> set as. area_hi (areas s) a \<le> unat found"
    and len: "unat found + unat len + 1 < 2 ^ 64" "(unat len + 1) mod 4096 = 0"
  shows "\<exists>s2 new s3 cs' F'. vmm_container vmm s = Inr s2 \<and> vmm_insert_area vmm found len flags (current_area (vmms s vmm)) NULL s2 = (new, s3)
    \<and> area_list s3 vmm (as @ [new]) \<and> containers s3 vmm cs' (as @ [new]) F' \<and> phys_pages s3 M F'
    \<and> area_lo (areas s3) new = unat found \<and> area_hi (areas s3) new = unat found + unat len + 1
    \<and> area_flags (areas s3 new) = (if user_vmm (vmms s vmm) then flags OR MEMORY_FLAG_USER else flags)
    \<and> (\<forall>a \<in> set as. area_lo (areas s3) a = area_lo (areas s) a \<and> area_hi (areas s3) a = area_hi (areas s) a)
    \<and> vmm_lock (vmms s3 vmm) = vmm_lock (vmms s vmm) \<and> int_on (this_cpu s3) = 0 \<and> phys_alloc_lock s3 = phys_alloc_lock s"
proof -
  obtain s2 cs' F' rc cc ci where s2: "vmm_container vmm s = Inr s2" "containers s2 vmm cs' as F'" "phys_pages s2 M F'"
      "cs' \<noteq> []" "unat ci < 102" "vmm_frame s s2" "int_on (this_cpu s2) = 0"
      "vmms s2 = (vmms s)(vmm := (vmms s vmm)\<lparr>root_container := rc, current_container := cc, current_index := ci\<rparr>)"
    using vmm_container_spec [OF C P R I] by auto
  define v2 where "v2 = vmms s2 vmm"
  define new where "new = container_item (current_container v2) (current_index v2)"
  have v2: "v2 = (vmms s vmm)\<lparr>root_container := rc, current_container := cc, current_index := ci\<rparr>" by (simp add: v2_def s2(8))
  have a2: "areas s2 = areas s" "phys_alloc_lock s2 = phys_alloc_lock s" using s2(6) by (simp_all add: vmm_frame_def)
  have L2: "area_list s2 vmm as" using L by (simp add: area_list_def Let_def a2 s2(8) area_ok_def)
  have i2: "unat (current_index (vmms s2 vmm)) < 102" using s2(5) by (simp add: s2(8))
  note fresh = fresh_item [OF s2(2,4) i2 new_def [unfolded v2_def]]
  obtain h w where ins: "vmm_insert_area vmm found len flags (current_area v2) NULL s2 = (new, s2\<lparr>areas := h, vmms := w\<rparr>)"
      "area_list (s2\<lparr>areas := h, vmms := w\<rparr>) vmm (as @ [new])" "area_start (h new) = found" "area_size (h new) = len + 1"
      "area_flags (h new) = (if user_vmm v2 then flags OR MEMORY_FLAG_USER else flags)"
      "\<forall>a \<in> set as. area_lo h a = area_lo (areas s) a \<and> area_hi h a = area_hi (areas s) a"
      "w = (vmms s2)(vmm := v2\<lparr>current_index := current_index v2 + 1, first_area := (if as = [] then new else first_area v2),
       current_area := new, current_addr := found + len\<rparr>)"
    using vmm_insert_area_back [OF v2_def L2 new_def fresh(1,2) found(1) _ _ len, of flags] found(2,3) v2 by (auto simp: a2)
  define s3 where "s3 = s2\<lparr>areas := h, vmms := w\<rparr>"
  have wv: "w vmm = v2\<lparr>current_index := current_index v2 + 1, first_area := (if as = [] then new else first_area v2),
     current_area := new, current_addr := found + len\<rparr>" by (simp add: ins(7))
  have "containers s3 vmm cs' (as @ [new]) F'"
  proof -
    have "set as \<subseteq> items v2 cs'" using s2(2) by (simp add: containers_def Let_def v2_def)
    moreover have "items v2 cs' \<union> {new} \<subseteq> items (w vmm) cs'" unfolding wv v2_def by (rule fresh(3))
    ultimately have "set (as @ [new]) \<subseteq> items (w vmm) cs'" by auto
    moreover have "unat (current_index (w vmm)) \<le> 102" using i2 by (simp add: wv v2_def unat_word_ariths)
    ultimately show ?thesis using s2(2) by (simp add: s3_def containers_def Let_def) (simp add: wv v2_def)
  qed
  moreover have "phys_pages s3 M F'" using s2(3) by (subst phys_pages_cong [of _ s2]) (simp_all add: s3_def)
  moreover have "area_lo h new = unat found" "area_hi h new = unat found + unat len + 1"
    using ins(3,4) len(1) by (auto simp: area_lo_def area_hi_def unat_word_ariths)
  moreover have "areas s3 = h" "user_vmm v2 = user_vmm (vmms s vmm)" "vmm_lock (vmms s3 vmm) = vmm_lock (vmms s vmm)"
      "current_area v2 = current_area (vmms s vmm)" "int_on (this_cpu s3) = 0" "phys_alloc_lock s3 = phys_alloc_lock s"
    using s2(7) by (simp_all add: s3_def wv v2 a2 this_cpu_def)
  moreover have "vmm_insert_area vmm found len flags (current_area v2) NULL s2 = (new, s3)" "area_list s3 vmm (as @ [new])"
    using ins(1,2) by (simp_all add: s3_def)
  ultimately show ?thesis using s2(1) ins(5,6) by (intro exI [of _ s2] exI [of _ new] exI [of _ s3] exI [of _ cs'] exI [of _ F']) simp
qed

text \<open>The start of an allocation: the lock is taken; the invariants do not depend on it.\<close>

lemma vmm_locked:
  fixes s :: "'a vmm_state_scheme"
  assumes "area_list s vmm as" "containers s vmm cs as F" "phys_pages s M F" "room s vmm cs F" "l \<noteq> phys_alloc_lock s"
    and "push_off_count (this_cpu s) + 1 \<noteq> 0"
  shows "area_list (locked l s) vmm as" "containers (locked l s) vmm cs as F" "phys_pages (locked l s) M F" "room (locked l s) vmm cs F"
    "int_on (this_cpu (locked l s)) = 0" "push_off_count (this_cpu (locked l s)) \<noteq> 0" "phys_alloc_lock (locked l s) = phys_alloc_lock s"
proof -
  show "phys_pages (locked l s) M F" using assms(3,5) by (subst phys_pages_cong [of _ s]) (simp_all add: locked_def)
  show "push_off_count (this_cpu (locked l s)) \<noteq> 0" using assms(6) by (simp add: locked_def this_cpu_def)
  show "room (locked l s) vmm cs F" using assms(4) by (simp add: room_def)
  show "phys_alloc_lock (locked l s) = phys_alloc_lock s" by (simp add: locked_def)
qed (use assms(1,2) in \<open>simp_all add: vmm_inv_cong [of "locked l s" s]\<close>)

text \<open>What is left of \<open>vmm_alloc_at\<close> when the lock is free: the search for a gap has no effect on the result.\<close>

lemma vmm_alloc_at_run:
  assumes "vmm \<noteq> NULL" "vmm_lock (vmms s vmm) = l" "acquire l s = Inr s1" "vmms s1 = vmms s" "v = vmms s vmm"
    and "len = PAGE_END (sz - 1) SMALL_PAGE_SIZE" "b = PAGE_START base PAGE_SIZE"
    and "low = (if current_area v = NULL then vmm_data_start v else PAGE_END (current_addr v) PAGE_SIZE + 1)" "found = (if low < b then b else low)"
  shows "vmm_alloc_at base vmm sz flags s = bind_res
       (if vmm_data_end v < found + len
        then bind_res (gap_loop CHAIN_BOUND vmm b len NULL (first_area v) s1) (\<lambda>_. Inr (0, NULL, NULL))
        else Inr (found, current_area v, NULL)) (\<lambda>(found, prev, cur).
         if found = 0 then bind_res (release (vmm_lock (vmms s1 vmm)) s1) (\<lambda>s. Inr (NULL, s))
         else bind_res (vmm_container vmm s1) (\<lambda>s.
              let (new, s) = vmm_insert_area vmm found len flags prev cur s
              in bind_res (release (vmm_lock (vmms s vmm)) s) (\<lambda>s. Inr (new, s))))"
proof -
  have "acquire (vmm_lock (vmms s vmm)) s = Inr s1" "(vmm = NULL) = False" using assms(1-3) by simp_all
  then show ?thesis unfolding assms(5-9) by (simp only: vmm_alloc_at_def Let_def bind_res_simps assms(4) if_False)
qed

text \<open>
  C10: allocation of address space. Let the areas be sorted and disjoint, the containers consistent, the lock free, and let the range that starts at the requested
  address or behind the last area, whichever is higher, not wrap around. If that range ends beyond the address space \<open>vmm_alloc_at\<close> returns
  \<open>NULL\<close> and changes no area. Otherwise it returns a new area that starts there, has the requested size rounded up to pages and the requested flags;
  it is appended to the list, which is again sorted and disjoint, and no other area moves.
\<close>

theorem vmm_alloc_at_correct:
  fixes s :: "'a vmm_state_scheme"
  assumes L: "area_list s vmm as" and C: "containers s vmm cs as F" and P: "phys_pages s M F" and R: "room s vmm cs F"
    and lock: "l = vmm_lock (vmms s vmm)" "l \<noteq> NULL" "l \<noteq> phys_alloc_lock s" "held (spinlocks s l) = 0"
      "push_off_count (this_cpu s) + 1 \<noteq> 0"
    and sz: "sz \<noteq> 0" "n = (unat sz + 4095) div 4096 * 4096" "next_start s vmm as base + n < 2 ^ 64"
  shows "\<exists>new s'. vmm_alloc_at base vmm sz flags s = Inr (new, s')
    \<and> (next_start s vmm as base + n > unat (vmm_data_end (vmms s vmm)) + 1 \<longrightarrow> new = NULL \<and> area_list s' vmm as \<and> areas s' = areas s)
    \<and> (next_start s vmm as base + n \<le> unat (vmm_data_end (vmms s vmm)) + 1 \<longrightarrow> area_list s' vmm (as @ [new])
        \<and> area_lo (areas s') new = next_start s vmm as base \<and> area_hi (areas s') new = next_start s vmm as base + n
        \<and> area_flags (areas s' new) = (if user_vmm (vmms s vmm) then flags OR MEMORY_FLAG_USER else flags)
        \<and> (\<forall>a \<in> set as. area_lo (areas s') a = area_lo (areas s) a \<and> area_hi (areas s') a = area_hi (areas s) a)
        \<and> (\<exists>cs' F'. containers s' vmm cs' (as @ [new]) F' \<and> phys_pages s' M F'))"
proof -
  define v where "v = vmms s vmm"
  define s1 where "s1 = locked l s"
  define len where "len = PAGE_END (sz - 1) SMALL_PAGE_SIZE"
  define low where "low = (if current_area v = NULL then vmm_data_start v else PAGE_END (current_addr v) PAGE_SIZE + 1)"
  define b where "b = PAGE_START base PAGE_SIZE"
  define found where "found = (if low < b then b else low)"
  have vmm: "vmm \<noteq> NULL" using L by (simp add: area_list_def Let_def)
  have ns: "next_start s vmm as base < 2 ^ 64" using sz(3) by simp
  have fn: "unat found = next_start s vmm as base" unfolding found_def low_def b_def v_def by (rule next_start_facts(1) [OF L ns])
  note fd = next_start_facts(2-) [OF L ns, folded fn v_def]
  have ln: "unat len + 1 = n" using unat_round_up [OF sz(1)] by (simp add: len_def sz(2))
  have sum: "unat (found + len) = unat found + unat len" using sz(3) fn ln by (simp add: unat_word_ariths)
  have acq: "acquire l s = Inr s1" using acquire_free [OF lock(2,4)] by (simp add: s1_def)
  note s1 = vmm_locked [OF L C P R lock(3,5), folded s1_def]
  have same: "vmms s1 = vmms s" "areas s1 = areas s" by (simp_all add: s1_def)
  note run = vmm_alloc_at_run [OF vmm lock(1) [symmetric] acq same(1) v_def len_def b_def low_def found_def, of flags]
  show ?thesis
  proof (cases "vmm_data_end v < found + len")
    case True
    have "aseg (areas s1) NULL (first_area v) as (current_area v) NULL" using L by (simp add: area_list_def Let_def same(2) v_def)
    from gap_loop_returns [OF this area_list_bound(1) [OF L]]
    obtain r where "gap_loop CHAIN_BOUND vmm b len NULL (first_area v) s1 = Inr r" by blast
    then have "vmm_alloc_at base vmm sz flags s = Inr (NULL, unlocked l s1)"
      using True run release_locked [OF lock(2) s1(5)] by (simp add: same(1) lock(1) [symmetric])
    moreover have "area_list (unlocked l s1) vmm as" using s1(1) by (simp add: vmm_inv_cong [of "unlocked l s1" s1])
    moreover have "next_start s vmm as base + n > unat (vmm_data_end v) + 1"
      using True fn ln by (simp add: word_less_nat_alt sum)
    ultimately show ?thesis
      by (intro exI [of _ NULL] exI [of _ "unlocked l s1"]) (simp add: v_def [symmetric] same(2))
  next
    case False
    have len: "unat found + unat len + 1 < 2 ^ 64" "(unat len + 1) mod 4096 = 0" using sz(2,3) fn ln by simp_all
    obtain s2 new s3 cs' F' where a: "vmm_container vmm s1 = Inr s2" "vmm_insert_area vmm found len flags (current_area v) NULL s2 = (new, s3)"
        "area_list s3 vmm (as @ [new])" "containers s3 vmm cs' (as @ [new]) F'" "phys_pages s3 M F'"
        "area_lo (areas s3) new = unat found" "area_hi (areas s3) new = unat found + unat len + 1"
        "area_flags (areas s3 new) = (if user_vmm v then flags OR MEMORY_FLAG_USER else flags)"
        "\<forall>a \<in> set as. area_lo (areas s3) a = area_lo (areas s) a \<and> area_hi (areas s3) a = area_hi (areas s) a"
        "vmm_lock (vmms s3 vmm) = l" "int_on (this_cpu s3) = 0" "phys_alloc_lock s3 = phys_alloc_lock s"
      using vmm_append_area [OF s1(1-6) fd(1) _ _ len, of flags] fd(3,4) by (auto simp: same s1(7) v_def lock(1))
    have "found \<noteq> 0" using fd(2) by auto
    then have "vmm_alloc_at base vmm sz flags s = Inr (new, unlocked l s3)"
      using False run a(1,2,10) release_locked [OF lock(2) a(11)] by simp
    moreover have "phys_pages (unlocked l s3) M F'"
      using a(5,12) lock(3) by (subst phys_pages_cong [of _ s3]) (simp_all add: unlocked_def Let_def)
    moreover have "area_list (unlocked l s3) vmm (as @ [new])" "containers (unlocked l s3) vmm cs' (as @ [new]) F'"
      using a(3,4) by (simp_all add: vmm_inv_cong [of "unlocked l s3" s3])
    moreover have "\<not> next_start s vmm as base + n > unat (vmm_data_end v) + 1"
      using False fn ln by (simp add: word_less_nat_alt sum)
    ultimately show ?thesis unfolding v_def [symmetric] using a(6-9) fn ln
      by (intro exI [of _ new] exI [of _ "unlocked l s3"] conjI impI) (simp_all, blast)
  qed
qed

text \<open>An address space without areas, and an allocator with 255 free pages.\<close>

definition example_vmm :: "ptr \<Rightarrow> vmm_info" where
  "example_vmm l = \<lparr>root_pagetable = 0xFFFFFFFF80200000, user_vmm = True, vmm_start = 0x1000, vmm_data_start = 0x1000, vmm_data_end = 0x800000000000,
     current_index = 0, root_container = NULL, current_container = NULL, current_addr = 0, first_area = NULL, current_area = NULL, vmm_lock = l\<rparr>"

lemma vmm_example:
  "\<exists>(s :: vmm_state) M F l. area_list s 0x5000 [] \<and> containers s 0x5000 [] [] F \<and> phys_pages s M F \<and> room s 0x5000 [] F
    \<and> vmms s 0x5000 = example_vmm l \<and> l \<noteq> NULL \<and> l \<noteq> phys_alloc_lock s \<and> held (spinlocks s l) = 0 \<and> push_off_count (this_cpu s) = 0"
proof -
  define x where "x = \<lparr>pt_mem = (\<lambda>_. 0), nx_flag_enabled = True, kernel_pml4 = 0xFFFFFFFF80200000, areas = (\<lambda>_. undefined),
    container_next = (\<lambda>_. NULL), vmms = (\<lambda>_. undefined), kernel_vmm = 0x5000, kernel_vmm_lock = 0xFFFFFFFF80105030, cr3 = 0\<rparr>"
  obtain s0 :: vmm_state where s0: "phys_inv s0 256 [1..<256]" using phys_inv_example [where x = x] by (elim exE conjE)
  define k where "k = phys_alloc_lock s0"
  define l :: ptr where "l = (if k = 0xFFFFFFFF80105030 then 0xFFFFFFFF80105010 else 0xFFFFFFFF80105030)"
  define s where "s = s0\<lparr>spinlocks := (\<lambda>p. if p = k then spinlocks s0 k else \<lparr>held = 0, lock_cpu_id = 0, lock_name = 0\<rparr>),
     cpu_status_of := (\<lambda>_. \<lparr>cpu_status_id = 0, push_off_count = 0, int_on = 0, cpu_thread = 0, cpu_vmm = 0\<rparr>), vmms := (\<lambda>_. example_vmm l)\<rparr>"
  define M F where "M = page_pa s0 ` {..<256}" and "F = page_pa s0 ` set [1..<256]"
  have "phys_pages s0 M F" unfolding phys_pages_def using s0(1) M_def F_def by blast
  then have P: "phys_pages s M F" by (subst phys_pages_cong [of s s0]) (simp_all add: s_def k_def)
  have "page_pa s0 1 \<in> F" unfolding F_def by (rule imageI) simp
  then have F: "F \<noteq> {}" by blast
  have v: "vmms s 0x5000 = example_vmm l" by (simp add: s_def)
  have A: "area_list s 0x5000 []" "containers s 0x5000 [] [] F" "room s 0x5000 [] F"
    using F by (simp_all add: area_list_def containers_def room_def v example_vmm_def items_def)
  have "l \<noteq> NULL" "l \<noteq> k" by (simp_all add: l_def)
  moreover have "phys_alloc_lock s = k" "held (spinlocks s l) = 0" "push_off_count (this_cpu s) = 0"
    using \<open>l \<noteq> k\<close> by (simp_all add: s_def k_def this_cpu_def)
  ultimately show ?thesis using P v A
    by (intro exI [of _ s] exI [of _ M] exI [of _ F] exI [of _ l]) simp
qed

theorem vmm_alloc_at_correct_witness:
  "\<exists>(s :: vmm_state) new s'. vmm_alloc_at 0x400800 0x5000 0x1234 1 s = Inr (new, s')
    \<and> area_lo (areas s') new = 0x400000 \<and> area_hi (areas s') new = 0x402000"
proof -
  obtain s :: vmm_state and M F l where s: "area_list s 0x5000 []" "containers s 0x5000 [] [] F" "phys_pages s M F" "room s 0x5000 [] F"
      "vmms s 0x5000 = example_vmm l" "l \<noteq> NULL" "l \<noteq> phys_alloc_lock s" "held (spinlocks s l) = 0" "push_off_count (this_cpu s) = 0"
    using vmm_example by blast
  have n: "next_start s 0x5000 [] 0x400800 = 0x400000" by (simp add: next_start_def s(5) example_vmm_def)
  have "l = vmm_lock (vmms s 0x5000)" "push_off_count (this_cpu s) + 1 \<noteq> 0" "unat (vmm_data_end (vmms s 0x5000)) = 0x800000000000"
    by (simp_all add: s(5,9) example_vmm_def)
  from vmm_alloc_at_correct [OF s(1-4) this(1) s(6-8) this(2), where sz = "0x1234" and base = "0x400800" and flags = 1, OF _ refl] this(3) n
  show ?thesis by simp blast
qed

text \<open>
  C11: looking an address up. In an address space whose areas are sorted and disjoint, \<open>get_memory_area\<close> returns: the null pointer if no area contains the
  address, otherwise the area that contains it.
\<close>

theorem get_memory_area_correct:
  assumes "area_list s vmm as"
  shows "\<exists>a. get_memory_area vmm va s = Inr a
    \<and> (a \<noteq> NULL \<longrightarrow> a \<in> set as \<and> area_lo (areas s) a \<le> unat va \<and> unat va < area_hi (areas s) a)
    \<and> (a = NULL \<longrightarrow> (\<forall>b \<in> set as. \<not> (area_lo (areas s) b \<le> unat va \<and> unat va < area_hi (areas s) b)))"
  by (rule get_memory_area_spec [OF assms])

definition example_area :: memory_area where
  "example_area = \<lparr>area_start = 0x1000, area_size = 0x2000, area_flags = 1, area_is_mmio = 0, area_next = NULL, area_prev = NULL\<rparr>"

theorem get_memory_area_correct_witness:
  "\<forall>s :: vmm_state. get_memory_area 0x5000 0x1800 (s\<lparr>areas := \<lambda>_. example_area,
     vmms := \<lambda>_. (example_vmm 0)\<lparr>first_area := 0x6000, current_area := 0x6000, current_addr := 0x2FFF\<rparr>\<rparr>) = Inr 0x6000"
proof
  fix s :: vmm_state
  let ?s = "s\<lparr>areas := \<lambda>_. example_area, vmms := \<lambda>_. (example_vmm 0)\<lparr>first_area := 0x6000, current_area := 0x6000, current_addr := 0x2FFF\<rparr>\<rparr>"
  have "area_list ?s 0x5000 [0x6000]"
    by (simp add: area_list_def area_ok_def area_lo_def area_hi_def example_vmm_def example_area_def)
  from get_memory_area_correct [OF this, of "0x1800"] show "get_memory_area 0x5000 0x1800 ?s = Inr 0x6000"
    by (auto simp: area_lo_def area_hi_def example_area_def)
qed

end
