(* ===== verification/Page_Fault.thy ===== *)
theory Page_Fault
  imports Boot Vmm_Areas
begin

text \<open>
  Page faults, from the interrupt (\<open>interrupt/interrupt_handler.c\<close>) through the lookup of the area and the allocation of a page
  (\<open>kernel/memory/vmm.c\<close>) to the page table (\<open>memory/vm.c\<close>).
\<close>


section \<open>Allocation on demand\<close>

lemma vm_static_areas:
  fixes s :: "'a vmm_state_scheme"
  assumes "vm_static s s'"
  shows "areas s' = areas s" "vmms s' = vmms s" "kernel_vmm s' = kernel_vmm s" "vmm_state.more s' = vmm_state.more s"
  using assms by (cases s; cases s'; simp add: vm_static_def)+

lemma pt_ok_cong:
  assumes "phys_pages s' M F = phys_pages s M F" "pt_mem s' = pt_mem s"
  shows "pt_ok s' M F root = pt_ok s M F root"
  using assms by (simp add: pt_ok_def)

text \<open>Asking for the current address space may record the number of the CPU and changes nothing else.\<close>

lemma get_relevant_vmm_frame:
  obtains c where "snd (get_relevant_vmm va s) = s\<lparr>cpu_status_of := c\<rparr>"
proof (cases "va \<ge> 0xFFFF800000000000 \<or> cpu_status_id (cpu_status_of s (apic_id s)) = apic_id s")
  case True
  then have "snd (get_relevant_vmm va s) = s\<lparr>cpu_status_of := cpu_status_of s\<rparr>"
    by (auto simp: get_relevant_vmm_def get_current_vmm_def get_cpu_def)
  then show thesis by (rule that)
next
  case False
  then show thesis
    by (intro that) (simp add: get_relevant_vmm_def get_current_vmm_def get_cpu_def Let_def)
qed

lemma area_page_span:
  assumes "area_list s vmm as" "a \<in> set as" "area_lo (areas s) a \<le> unat va" "unat va < area_hi (areas s) a"
  shows "span (PAGE_START va 0x1000) 1"
proof -
  let ?lo = "area_lo (areas s) a" and ?hi = "area_hi (areas s) a"
  have ok: "area_ok (vmms s vmm) (areas s) a" "vmm_data_start (vmms s vmm) \<noteq> 0" "unat (vmm_data_start (vmms s vmm)) mod 4096 = 0"
    using assms(1,2) by (auto simp: area_list_def Let_def)
  have "0 < unat (vmm_data_start (vmms s vmm))" using ok(2) by (simp add: unat_gt_0)
  then have lo: "0 < ?lo" "?lo mod 4096 = 0" "?hi mod 4096 = 0" using ok(1) by (simp_all add: area_ok_def)
  have hi: "?hi < 2 ^ 64" using area_list_bound(2) [OF assms(1)] assms(2) by blast
  obtain x y where xy: "?lo = 4096 * x" "?hi = 4096 * y" using lo(2,3) by (metis dvdE dvd_eq_mod_eq_0)
  have "x \<le> unat va div 4096" using assms(3) xy(1) by (simp add: less_eq_div_iff_mult_less_eq mult.commute)
  moreover have "unat va div 4096 < y" using assms(4) xy(2) by (simp add: div_less_iff_less_mult mult.commute)
  moreover have "0 < x" using lo(1) xy(1) by simp
  ultimately have "0 < unat va div 4096" "unat va div 4096 * 4096 + 4096 \<le> ?hi" using xy(2) by linarith+
  then show ?thesis using hi by (simp add: span_def page_aligned_def unat_PAGE_START_4K)
qed

lemma page_span_one: "page_aligned p \<Longrightarrow> page_span p 0x1000 = 1"
proof -
  assume "page_aligned p"
  then obtain k where "unat p = 4096 * k" by (rule page_alignedE)
  then show ?thesis by (simp add: page_span_def div_mult_self1 [of 4096 4095 k, simplified add.commute mult.commute])
qed

lemma area_list_unique:
  assumes "area_list s vmm as" "a \<in> set as" "b \<in> set as"
    and "area_lo (areas s) a \<le> v" "v < area_hi (areas s) a" "area_lo (areas s) b \<le> v" "v < area_hi (areas s) b"
  shows "a = b"
proof -
  have so: "sorted_wrt (\<lambda>a b. area_hi (areas s) a \<le> area_lo (areas s) b) as" using assms(1) by (simp add: area_list_def Let_def)
  obtain i j where ij: "i < length as" "j < length as" "a = as ! i" "b = as ! j" using assms(2,3) by (metis in_set_conv_nth)
  consider "i < j" | "j < i" | "i = j" by linarith
  then show ?thesis
  proof cases
    case 1
    then show ?thesis using sorted_wrt_nth_less [OF so 1 ij(2)] assms(5,6) ij by simp
  next
    case 2
    then show ?thesis using sorted_wrt_nth_less [OF so 2 ij(1)] assms(4,7) ij by simp
  qed (use ij in simp)
qed

lemma on_demand_spec:
  fixes s :: "'a vmm_state_scheme" and va :: u64
  defines "vmm \<equiv> fst (get_relevant_vmm va s)"
  defines "root \<equiv> root_pagetable (vmms s vmm)" and "page \<equiv> PAGE_START va 0x1000"
  assumes L: "area_list s vmm as" and P: "pt_ok s M F root"
    and a: "a \<in> set as" "area_lo (areas s) a \<le> unat va" "unat va < area_hi (areas s) a"
  shows "\<exists>p s' F'. (if F = {} then p = 0 else p \<in> F - F') \<and> F' \<subseteq> F \<and> pt_ok s' M F' root \<and> areas s' = areas s \<and> vmms s' = vmms s
    \<and> apic_id s' = apic_id s \<and> vmm_state.more s' = vmm_state.more s
    \<and> (on_demand_allocation va s = Inr (0, s') \<and> look 3 (pt_mem s) root page = None
        \<and> look 3 (pt_mem s') root page = Some (new_pte p (vmflag_to_x86flag (nx_flag_enabled s) (ucast (area_flags (areas s a)))) 0)
        \<and> (\<forall>b. \<not> in_pages page 0 1 b \<longrightarrow> look 3 (pt_mem s') root b = look 3 (pt_mem s) root b)
      \<or> on_demand_allocation va s = Inr (- 1, s') \<and> look 3 (pt_mem s') root = look 3 (pt_mem s) root
        \<and> (card F \<le> 4 \<or> look 3 (pt_mem s) root page \<noteq> None))"
proof -
  obtain c where c: "snd (get_relevant_vmm va s) = s\<lparr>cpu_status_of := c\<rparr>" by (rule get_relevant_vmm_frame)
  define s1 where "s1 = s\<lparr>cpu_status_of := c\<rparr>"
  have g: "get_relevant_vmm va s = (vmm, s1)" using c by (simp add: vmm_def s1_def prod_eq_iff)
  have s1: "areas s1 = areas s" "vmms s1 = vmms s" "pt_mem s1 = pt_mem s" "nx_flag_enabled s1 = nx_flag_enabled s"
      "apic_id s1 = apic_id s" "vmm_state.more s1 = vmm_state.more s" "phys_pages s1 M F"
    using P phys_pages_cong [of s1 s M F] by (simp_all add: s1_def pt_ok_def)
  have L1: "area_list s1 vmm as" using L by (simp add: vmm_inv_cong [of s1 s] s1)
  obtain a' where a': "get_memory_area vmm va s1 = Inr a'" "a' \<noteq> NULL \<longrightarrow> a' \<in> set as \<and> area_lo (areas s) a' \<le> unat va \<and> unat va < area_hi (areas s) a'"
      "a' = NULL \<longrightarrow> (\<forall>b \<in> set as. \<not> (area_lo (areas s) b \<le> unat va \<and> unat va < area_hi (areas s) b))"
    using get_memory_area_spec [OF L1, of va] by (auto simp: s1)
  have "a' = a" using a' a area_list_unique [OF L] by metis
  obtain p s2 where k: "kalloc s1 = Inr (p, s2)" "phys_pages s2 M (F - {p})" "phys_static s1 s2" "p = 0 \<longleftrightarrow> F = {}" "p \<noteq> 0 \<longrightarrow> p \<in> F"
    using phys.alloc_total [OF s1(7)] by blast
  have st2: "vm_static s1 s2" "pt_mem s2 = pt_mem s" using phys_static_vm [OF k(3)] s1(3) by simp_all
  note s2 = vm_static_areas [OF st2(1)]
  have nx: "nx_flag_enabled s2 = nx_flag_enabled s" "apic_id s2 = apic_id s" using st2(1) s1(4,5) by (simp_all add: vm_static_def)
  have P2: "pt_ok s2 M (F - {p}) root" using P k(2) st2(2) by (auto simp: pt_ok_def)
  have sp: "span page 1" unfolding page_def by (rule area_page_span [OF L a])
  then have al: "page_aligned page" "0 < unat page" "unat page + 0x1000 < 2 ^ 64" by (simp_all add: span_def)
  have n: "PAGE_START page 0x1000 = page" "page_span page 0x1000 = 1"
    using PAGE_START_aligned [OF al(1)] page_span_one [OF al(1)] by simp_all
  have p: "PAGE_START p 0x1000 = p"
  proof (cases "p = 0")
    case False
    then show ?thesis using k(5) phys.managed [OF s1(7)] phys.free_managed [OF s1(7)] PAGE_START_aligned by blast
  qed (simp add: PAGE_START_def)
  obtain s' F' where m: "vm_static s2 s'" "pt_ok s' M F' root" "F' \<subseteq> F - {p}" "card (F - {p}) \<le> card F' + 3"
      "mappages root page 0x1000 p (area_flags (areas s a)) s2 = Inr (0, s') \<and> look 3 (pt_mem s) root page = None
        \<and> look 3 (pt_mem s') root page = Some (new_pte p (vmflag_to_x86flag (nx_flag_enabled s) (ucast (area_flags (areas s a)))) 0)
        \<and> (\<forall>b. \<not> in_pages page 0 1 b \<longrightarrow> look 3 (pt_mem s') root b = look 3 (pt_mem s) root b)
      \<or> mappages root page 0x1000 p (area_flags (areas s a)) s2 = Inr (- 1, s') \<and> look 3 (pt_mem s') root = look 3 (pt_mem s) root
        \<and> (F' = {} \<or> look 3 (pt_mem s) root page \<noteq> None)"
    using mappages_spec [OF P2, of "0x1000" page p "area_flags (areas s a)"] al sp by (auto simp: n p nx st2(2))
  have run: "on_demand_allocation va s = bind_res (mappages root page 0x1000 p (area_flags (areas s a)) s2) (\<lambda>(r, s). Inr (if r \<noteq> 0 then - 1 else 0, s))"
  proof -
    have "a \<noteq> NULL" using aseg_nonnull L a(1) by (auto simp: area_list_def Let_def)
    then show ?thesis using a'(1) \<open>a' = a\<close> k(1) by (simp add: on_demand_allocation_def g s2 s1 root_def page_def)
  qed
  have fin: "finite F" using phys.free_managed [OF s1(7)] by blast
  have cF: "card F \<le> 4" if "F' = {}" using m(4) that fin card_Diff1_le [of F p] card_Suc_Diff1 [of F p] by (cases "p \<in> F") auto
  note s' = vm_static_areas [OF m(1)]
  have "(if F = {} then p = 0 else p \<in> F - F')" "F' \<subseteq> F" "areas s' = areas s" "vmms s' = vmms s" "apic_id s' = apic_id s"
      "vmm_state.more s' = vmm_state.more s"
    using k(4,5) m(1,3) s' s2 s1 nx by (auto simp: vm_static_def)
  then show ?thesis using run m(2,5) cF by (intro exI [of _ p] exI [of _ s'] exI [of _ F'] conjI) auto
qed

lemma on_demand_no_area:
  fixes va :: u64
  assumes "area_list s (fst (get_relevant_vmm va s)) as"
    and "\<forall>a \<in> set as. \<not> (area_lo (areas s) a \<le> unat va \<and> unat va < area_hi (areas s) a)"
  shows "\<exists>s'. on_demand_allocation va s = Inr (- 1, s')"
proof -
  obtain c where c: "snd (get_relevant_vmm va s) = s\<lparr>cpu_status_of := c\<rparr>" by (rule get_relevant_vmm_frame)
  define vmm s1 where "vmm = fst (get_relevant_vmm va s)" and "s1 = s\<lparr>cpu_status_of := c\<rparr>"
  have g: "get_relevant_vmm va s = (vmm, s1)" using c by (simp add: vmm_def s1_def prod_eq_iff)
  have L1: "area_list s1 vmm as" using assms(1) vmm_inv_cong(1) [of s1 s] by (simp add: s1_def vmm_def)
  then have "get_memory_area vmm va s1 = Inr NULL"
    using get_memory_area_spec [OF L1, of va] assms(2) by (auto simp: s1_def)
  then show ?thesis by (simp add: on_demand_allocation_def g)
qed

section \<open>The interrupt\<close>

lemma lapic_more:
  fixes s s' :: "'a lapic_state_scheme"
  assumes "vmm_state.more s' = vmm_state.more s"
  shows "support_xapic2 s' = support_xapic2 s" "lapic_base_address s' = lapic_base_address s"
  using assms by (cases s; cases s'; simp)+

text \<open>The end of interrupt is written to the local APIC; no table or area is affected.\<close>

lemma send_eoi_frame:
  fixes s :: "'a lapic_state_scheme"
  assumes "support_xapic2 s (apic_id s) \<or> lapic_base_address s (apic_id s) \<noteq> NULL"
  shows "\<exists>s'. send_eoi s = Inr s' \<and> pt_mem s' = pt_mem s \<and> areas s' = areas s \<and> vmms s' = vmms s
    \<and> phys_pages s' M F = phys_pages s M F"
proof -
  have "phys_pages (s\<lparr>msr := x\<rparr>) M F = phys_pages s M F" "phys_pages (s\<lparr>mmio32 := y\<rparr>) M F = phys_pages s M F" for x y
    by (rule phys_pages_cong; simp)+
  then show ?thesis using assms by (auto simp: send_eoi_def write_lapic_register_def wrmsr_def Let_def)
qed



end
