(* ===== verification/Memory_Init.thy ===== *)
theory Memory_Init
  imports Kvm_Init Vmm_Areas
begin

text \<open>
  What \<open>kvminit\<close> (\<open>kernel/arch/x86-64/memory/vm.c\<close>) establishes: the largest RAM area is chosen, physical memory is visible in the window, the
  physical allocator and the kernel's address space are initialised.
\<close>

section \<open>The RAM area\<close>

text \<open>\<open>ram_choice\<close>: the area \<open>(base, size)\<close> is the largest one of type 1 among the first \<open>n\<close> entries; its size is 0 if there is none.\<close>

definition ram_choice :: "mem \<Rightarrow> ptr \<Rightarrow> nat \<Rightarrow> u64 \<times> u64 \<Rightarrow> bool" where
  "ram_choice m mmap n r \<longleftrightarrow> (\<forall>i < n. mmap_type m mmap i = 1 \<longrightarrow> mmap_length m mmap i \<le> snd r)
     \<and> (snd r \<noteq> 0 \<longrightarrow> (\<exists>i < n. mmap_type m mmap i = 1 \<and> r = (mmap_base_addr m mmap i, mmap_length m mmap i)))"

lemma max_ram_fold: "ram_choice m mmap n (fold (max_ram_step m mmap) [0..<n] (0, 0))"
proof (induction n)
  case 0
  then show ?case by (simp add: ram_choice_def)
next
  case (Suc n)
  obtain b l where r: "fold (max_ram_step m mmap) [0..<n] (0, 0) = (b, l)" by fastforce
  have "fold (max_ram_step m mmap) [0..<Suc n] (0, 0) = max_ram_step m mmap n (b, l)" by (simp add: r)
  also have "\<dots> = (if mmap_type m mmap n = 1 \<and> mmap_length m mmap n > l then (mmap_base_addr m mmap n, mmap_length m mmap n) else (b, l))"
    by (simp add: max_ram_step_def)
  finally have *: "fold (max_ram_step m mmap) [0..<Suc n] (0, 0) = \<dots>" .
  have "ram_choice m mmap n (b, l)" using Suc r by simp
  then show ?case unfolding * by (auto simp: ram_choice_def less_Suc_eq not_less)
qed

section \<open>The direct mapping\<close>

lemma direct_entry_facts:
  assumes "i < 512"
  shows "pte_present (direct_entry nx i)" "pte_page_size (direct_entry nx i)" "pte_writable (direct_entry nx i)"
    "pte_xd (direct_entry nx i) = nx" "push_bit 12 (pte_addr (direct_entry nx i)) = 0x40000000 * of_nat i"
proof -
  define a :: u64 where "a = push_bit 30 (of_nat i)"
  have e: "direct_entry nx i = put_bit 7 True (put_bit 63 nx (put_bit 1 True (put_bit 0 True a)))"
    by (simp add: direct_entry_def pte_set_defs a_def push_bit_eq_mult mult.commute)
  show "pte_present (direct_entry nx i)" "pte_page_size (direct_entry nx i)" "pte_writable (direct_entry nx i)" "pte_xd (direct_entry nx i) = nx"
    by (simp_all add: e pte_get_defs)
  have i: "\<not> bit (of_nat i :: u64) k" if "9 \<le> k" for k
  proof -
    have "unat (of_nat i :: u64) < 2 ^ 9" using assms by simp
    then show ?thesis using that by (rule not_bit_if_unat_less)
  qed
  have "push_bit 12 (take_bit 39 (drop_bit 12 (direct_entry nx i))) = a"
  proof (rule bit_word_eqI)
    fix n
    assume "n < LENGTH(64)"
    then show "bit (push_bit 12 (take_bit 39 (drop_bit 12 (direct_entry nx i)))) n = bit a n"
      using i [of "n - 30"] by (cases "39 \<le> n") (auto simp: e bit_simps a_def)
  qed
  then show "push_bit 12 (pte_addr (direct_entry nx i)) = 0x40000000 * of_nat i"
    by (simp add: pte_addr_def a_def push_bit_eq_mult mult.commute)
qed

lemma map_physical_fold:
  fixes s :: "'a kvm_state_scheme"
  assumes "page_aligned t" "k \<le> 512"
  shows "\<exists>m. fold (\<lambda>i s. set_entry (PHYSICAL_ADDRESS (physical_mapping s) s + PHYSICAL_OFFSET + 8 * of_nat i) (direct_entry (nx_flag_enabled s) i) s) [0..<k] s
      = s\<lparr>pt_mem := m\<rparr> \<and> (t = PHYSICAL_ADDRESS (physical_mapping s) s + PHYSICAL_OFFSET \<longrightarrow>
        (\<forall>j < k. m (slot t j) = direct_entry (nx_flag_enabled s) j) \<and> (\<forall>a. (\<forall>j < 512. a \<noteq> slot t j) \<longrightarrow> m a = pt_mem s a))"
  using assms(2)
proof (induction k)
  case 0
  then show ?case by (intro exI [of _ "pt_mem s"]) simp
next
  case (Suc k)
  then obtain m where m: "fold (\<lambda>i s. set_entry (PHYSICAL_ADDRESS (physical_mapping s) s + PHYSICAL_OFFSET + 8 * of_nat i) (direct_entry (nx_flag_enabled s) i) s) [0..<k] s
      = s\<lparr>pt_mem := m\<rparr>" "t = PHYSICAL_ADDRESS (physical_mapping s) s + PHYSICAL_OFFSET \<longrightarrow>
        (\<forall>j < k. m (slot t j) = direct_entry (nx_flag_enabled s) j) \<and> (\<forall>a. (\<forall>j < 512. a \<noteq> slot t j) \<longrightarrow> m a = pt_mem s a)"
    by auto
  define m' where "m' = m(PHYSICAL_ADDRESS (physical_mapping s) s + PHYSICAL_OFFSET + 8 * of_nat k := direct_entry (nx_flag_enabled s) k)"
  have "(\<forall>j < Suc k. m' (slot t j) = direct_entry (nx_flag_enabled s) j) \<and> (\<forall>a. (\<forall>j < 512. a \<noteq> slot t j) \<longrightarrow> m' a = pt_mem s a)"
    if t: "t = PHYSICAL_ADDRESS (physical_mapping s) s + PHYSICAL_OFFSET"
  proof -
    have "m' (slot t j) = direct_entry (nx_flag_enabled s) j" if "j < Suc k" for j
    proof (cases "j = k")
      case False
      then have "slot t j \<noteq> slot t k" using slot_inj [OF assms(1), of j k] that Suc.prems by auto
      then have "m' (slot t j) = m (slot t j)" unfolding m'_def t by (rule fun_upd_other)
      then show ?thesis using m(2) t that False by simp
    qed (simp add: m'_def t)
    moreover have "m' a = pt_mem s a" if "\<forall>j < 512. a \<noteq> slot t j" for a
    proof -
      have "a \<noteq> slot t k" using that Suc.prems by simp
      then have "m' a = m a" unfolding m'_def t by (rule fun_upd_other)
      then show ?thesis using m(2) t that by simp
    qed
    ultimately show ?thesis by blast
  qed
  moreover have "fold (\<lambda>i s. set_entry (PHYSICAL_ADDRESS (physical_mapping s) s + PHYSICAL_OFFSET + 8 * of_nat i) (direct_entry (nx_flag_enabled s) i) s) [0..<Suc k] s
      = s\<lparr>pt_mem := m'\<rparr>"
    using m(1) by (simp add: set_entry_def m'_def PHYSICAL_ADDRESS_def)
  ultimately show ?case by blast
qed


text \<open>
  The window: entry 509 of the root refers to the table of the direct mapping, the pages of one gigabyte in it cover the first 512 GiB.
\<close>

lemma window_index:
  assumes "unat q < 2 ^ 39"
  shows "va_index (q + PHYSICAL_OFFSET) 3 = 509" "va_index (q + PHYSICAL_OFFSET) 2 = unat q div 2 ^ 30"
proof -
  have u: "unat (q + PHYSICAL_OFFSET) = unat q + 0xFFFFFE8000000000" using assms by (simp add: unat_word_ariths)
  have "va_index v l = unat v div 2 ^ (12 + l * 9) mod 512" for v l
    by (simp add: va_index_def VA2INDEX_take_bit unsigned_take_bit_eq unsigned_drop_bit_eq) (simp add: take_bit_eq_mod drop_bit_eq_div mod_less [OF unat_u64_less])
  then have i: "va_index (q + PHYSICAL_OFFSET) l = (unat q + 0xFFFFFE8000000000) div 2 ^ (12 + l * 9) mod 512" for l by (simp only: u)
  have "(unat q + 0xFFFFFE8000000000) div 2 ^ 39 = 0x1FFFFFD" using assms by simp
  then show "va_index (q + PHYSICAL_OFFSET) 3 = 509" unfolding i by simp
  have "(unat q + 0xFFFFFE8000000000) div 2 ^ 30 = unat q div 2 ^ 30 + 0x3FFFFFA00" by simp
  moreover have "unat q div 2 ^ 30 < 512" using assms by simp
  moreover have "(x + 0x3FFFFFA00) mod 512 = x" if "x < 512" for x :: nat
    using mod_add_right_eq [of x "0x3FFFFFA00" 512] that by simp
  ultimately show "va_index (q + PHYSICAL_OFFSET) 2 = unat q div 2 ^ 30" unfolding i by simp
qed

definition window_entry :: "bool \<Rightarrow> u64 \<Rightarrow> pte_t" where
  "window_entry nx p = pte_set_xd nx (pte_set_writable True (pte_set_present True p))"

lemma window_entry_facts:
  assumes "page_aligned p" "p < 0x8000000000"
  shows "link (window_entry nx p)" "child_table (window_entry nx p) = p + PHYSICAL_OFFSET"
proof -
  have lt: "unat p < 2 ^ 39" using assms(2) by (simp add: word_less_nat_alt)
  show "link (window_entry nx p)"
    using not_bit_page_aligned [OF assms(1), of 7] by (simp add: window_entry_def link_def pte_get_defs pte_set_defs)
  have "push_bit 12 (take_bit 39 (drop_bit 12 p)) = p"
  proof (rule bit_word_eqI)
    fix n
    assume "n < LENGTH(64)"
    then show "bit (push_bit 12 (take_bit 39 (drop_bit 12 p))) n = bit p n"
      using not_bit_page_aligned [OF assms(1), of n] not_bit_if_unat_less [OF lt, of n]
      by (cases "n < 12"; cases "n < 39") (auto simp: bit_simps)
  qed
  then show "child_table (window_entry nx p) = p + PHYSICAL_OFFSET"
    by (simp add: child_table_def window_entry_def pte_get_defs pte_set_defs take_drop_put_bit)
qed

lemma look_link:
  "link (m (slot t (va_index va (Suc l)))) \<Longrightarrow> look (Suc l) m t va = look l m (child_table (m (slot t (va_index va (Suc l))))) va"
  by (simp add: entry_at_slot link_def Let_def)

lemma look_huge:
  "pte_present (m (slot t (va_index va (Suc l)))) \<Longrightarrow> pte_page_size (m (slot t (va_index va (Suc l)))) \<Longrightarrow>
   look (Suc l) m t va = Some (m (slot t (va_index va (Suc l))))"
  by (simp add: entry_at_slot Let_def)

lemma look_window:
  assumes "m (slot root 509) = window_entry nx p" "page_aligned p" "p < 0x8000000000"
    and "\<And>j. j < 512 \<Longrightarrow> m (slot (p + PHYSICAL_OFFSET) j) = direct_entry nx j" "unat q < 2 ^ 39"
  shows "look 3 m root (q + PHYSICAL_OFFSET) = Some (direct_entry nx (unat q div 2 ^ 30))"
proof -
  have j: "unat q div 2 ^ 30 < 512" using assms(5) by simp
  define va where "va = q + PHYSICAL_OFFSET"
  have n: "Suc 2 = 3" "Suc 1 = 2" by simp_all
  have i: "va_index va (Suc 2) = 509" "va_index va (Suc 1) = unat q div 2 ^ 30"
    unfolding va_def n by (rule window_index [OF assms(5)])+
  have "look (Suc 2) m root va = look 2 m (p + PHYSICAL_OFFSET) va"
    using look_link [of m root va 2] window_entry_facts [OF assms(2,3), of nx] assms(1) by (simp only: i)
  moreover have "look (Suc 1) m (p + PHYSICAL_OFFSET) va = Some (direct_entry nx (unat q div 2 ^ 30))"
    using look_huge [of m "p + PHYSICAL_OFFSET" va 1] direct_entry_facts(1,2) [OF j, of nx] assms(4) [OF j] by (simp only: i)
  ultimately show ?thesis by (simp only: va_def n)
qed


text \<open>Every physical address below 512 GiB is visible at its address in the window.\<close>

definition window_mapped :: "(ptr \<Rightarrow> pte_t) \<Rightarrow> ptr \<Rightarrow> bool \<Rightarrow> bool" where
  "window_mapped m root nx \<longleftrightarrow> (\<forall>q. unat q < 2 ^ 39 \<longrightarrow>
     (\<exists>e. look 3 m root (q + PHYSICAL_OFFSET) = Some e \<and> pte_page_size e \<and> pte_writable e \<and> pte_xd e = nx
        \<and> unat (push_bit 12 (pte_addr e)) + unat q mod 2 ^ 30 = unat q))"

lemma window_mappedI:
  assumes "m (slot root 509) = window_entry nx p" "page_aligned p" "p < 0x8000000000"
    and "\<And>j. j < 512 \<Longrightarrow> m (slot (p + PHYSICAL_OFFSET) j) = direct_entry nx j"
  shows "window_mapped m root nx"
  unfolding window_mapped_def
proof (intro allI impI)
  fix q :: u64
  assume q: "unat q < 2 ^ 39"
  define j where "j = unat q div 2 ^ 30"
  have j: "j < 512" using q by (simp add: j_def)
  have "unat (0x40000000 * of_nat j :: u64) = 0x40000000 * j" using j by (simp add: unat_word_ariths)
  then have "unat (push_bit 12 (pte_addr (direct_entry nx j))) + unat q mod 2 ^ 30 = unat q"
    using direct_entry_facts(5) [OF j, of nx] mult_div_mod_eq [of "2 ^ 30" "unat q"] by (simp add: j_def)
  with look_window [OF assms q] direct_entry_facts(2-4) [OF j, of nx]
  show "\<exists>e. look 3 m root (q + PHYSICAL_OFFSET) = Some e \<and> pte_page_size e \<and> pte_writable e \<and> pte_xd e = nx
      \<and> unat (push_bit 12 (pte_addr e)) + unat q mod 2 ^ 30 = unat q"
    unfolding j_def by blast
qed

section \<open>The whole initialisation\<close>

lemma kvminit_run:
  fixes s :: "'a kvm_state_scheme"
  defines "nx \<equiv> cpuid_ext_edx s AND push_bit 20 1 \<noteq> 0"
    and "p \<equiv> PHYSICAL_ADDRESS (physical_mapping s) s" and "start \<equiv> PAGE_END (PHYSICAL_ADDRESS (kernel_virtual_end s) s) PAGE_SIZE + 1"
  assumes "max_ram (kmem s) mmap = Inr (b, l)"
  shows "\<exists>s1. pt_mem s1 = (pt_mem s)(slot (pml4 s) 509 := window_entry nx p)
    \<and> kernel_pml4 s1 = pml4 s \<and> nx_flag_enabled s1 = nx \<and> kernel_vmm s1 = kernel_vmm s
    \<and> PHYSICAL_ADDRESS (physical_mapping s1) s1 = p
    \<and> free_lst s1 = free_lst s \<and> phys_alloc_lock s1 = phys_alloc_lock s \<and> spinlocks s1 = spinlocks s
    \<and> kvminit mmap s = (if l = 0 then Inl (Panic ''kvminit: no ram detected'')
        else bind_res (init_phys_allocator start (b + l - start) (map_physical s1)) (\<lambda>s.
          Inr (vmm_init (kernel_vmm s) (kernel_pml4 s) 0xFFFF800000000000 0xFFFFFE8000000000 False NULL s)))"
proof -
  define s0 where "s0 = s\<lparr>kernel_pml4 := pml4 s, nx_flag_enabled := nx, big_page_size_supported := (cpuid_ext_edx s AND push_bit 26 1 \<noteq> 0)\<rparr>"
  define s1 where "s1 = set_entry (slot (pml4 s) 509) (window_entry nx p) (if nx then enable_nx_flag s0 else s0)"
  have "kvminit mmap s = (if l = 0 then Inl (Panic ''kvminit: no ram detected'')
        else bind_res (init_phys_allocator start (b + l - start) (map_physical s1)) (\<lambda>s.
          Inr (vmm_init (kernel_vmm s) (kernel_pml4 s) 0xFFFF800000000000 0xFFFFFE8000000000 False NULL s)))"
    using assms(4)
    by (simp add: kvminit_def s1_def s0_def nx_def p_def start_def enable_nx_flag_def wrmsr_def set_entry_def window_entry_def PHYSICAL_ADDRESS_def Let_def
        algebra_simps)
  moreover have "pt_mem s1 = (pt_mem s)(slot (pml4 s) 509 := window_entry nx p)" "kernel_pml4 s1 = pml4 s" "nx_flag_enabled s1 = nx"
      "kernel_vmm s1 = kernel_vmm s" "PHYSICAL_ADDRESS (physical_mapping s1) s1 = p"
      "free_lst s1 = free_lst s" "phys_alloc_lock s1 = phys_alloc_lock s" "spinlocks s1 = spinlocks s"
    by (simp_all add: s1_def s0_def set_entry_def enable_nx_flag_def wrmsr_def PHYSICAL_ADDRESS_def p_def)
  ultimately show ?thesis by blast
qed

lemma phys_more_vmm:
  fixes s :: "'a vmm_state_scheme"
  assumes "phys_state.more s' = phys_state.more s"
  shows "pt_mem s' = pt_mem s" "kernel_pml4 s' = kernel_pml4 s" "nx_flag_enabled s' = nx_flag_enabled s" "kernel_vmm s' = kernel_vmm s"
  using assms by (cases s; cases s'; simp)+

lemma phys_inv_vmms [simp]: "phys_inv (s\<lparr>vmms := v\<rparr>) n is = phys_inv s n is"
proof -
  have "lst_rel (s\<lparr>vmms := v\<rparr>) h xs = lst_rel s h xs" for h xs
    by (rule lst_rel_cong) simp
  moreover have "page_va (s\<lparr>vmms := v\<rparr>) = page_va s"
    by (simp add: fun_eq_iff page_va_def page_pa_def)
  ultimately show ?thesis
    by (simp add: phys_inv_def phys_wf_def bit_isset_def)
qed

lemma kernel_vmm_init:
  assumes "v \<noteq> NULL" "s' = vmm_init v root 0xFFFF800000000000 0xFFFFFE8000000000 False NULL s"
  shows "area_list s' v []" "root_pagetable (vmms s' v) = root" "phys_inv s' n is = phys_inv s n is" "pa_base s' = pa_base s"
    "pt_mem s' = pt_mem s" "kernel_pml4 s' = kernel_pml4 s" "nx_flag_enabled s' = nx_flag_enabled s"
  unfolding assms(2) by (simp_all add: vmm_init_def set_vmm_def area_list_def Let_def assms(1) PAGE_START_def)


text \<open>A memory map at 0x1000 with one entry, 256 MiB of RAM from address 0 on.\<close>

definition example_mmap :: mem where
  "example_mmap a = (if a = 0x1004 then 40 else if a = 0x1008 then 24 else if a = 0x101B then 0x10 else if a = 0x1020 then 1 else 0)"

lemma load_le_numeral:
  "load_le (numeral k) m a = (ucast (m a) OR push_bit 8 (load_le (pred_numeral k) m (a + 1)) :: 'w::len word)"
  by (simp add: numeral_eq_Suc)

lemma example_mmap_fields:
  "mmap_size example_mmap 0x1000 = 40" "mmap_entry_size example_mmap 0x1000 = 24" "mmap_base_addr example_mmap 0x1000 0 = 0"
  "mmap_length example_mmap 0x1000 0 = 0x10000000" "mmap_type example_mmap 0x1000 0 = 1"
  by (simp_all add: mmap_size_def mmap_entry_size_def mmap_base_addr_def mmap_length_def mmap_type_def load_le_numeral example_mmap_def)


end
