(* ===== verification/Rb_Remove.thy ===== *)
theory Rb_Remove
  imports Rb_Insert
begin

text \<open>
  Removal from the red-black tree (\<open>balance_tree_remove\<close> and \<open>rb_remove\<close> of \<open>kernel/scheduler/rb_tree.c\<close>): the tree stays a red-black tree, and
  the queue it stands for loses the entity.
\<close>

section \<open>The repair of the context\<close>

text \<open>
  \<open>balance_tree_remove\<close> runs before the leaf is unlinked and leaves the subtree at \<open>n\<close> alone: it turns the context of \<open>n\<close> into one for a subtree
  that has one black node less on every path. \<open>sub e t\<close> is the child of \<open>t\<close> in direction \<open>e\<close>; \<open>rem_black\<close> is the repair for a black sibling
  \<open>S\<close>, where \<open>r\<close> is the repair of the outer context.
\<close>

fun sub :: "dir_t \<Rightarrow> rbt \<Rightarrow> rbt" where
  "sub e Leaf = Leaf"
| "sub LEFT (Node c l a r) = l"
| "sub RIGHT (Node c l a r) = r"

definition rem_black :: "dir_t \<Rightarrow> rb_col \<Rightarrow> ptr \<Rightarrow> rbt \<Rightarrow> frame list \<Rightarrow> frame list \<Rightarrow> frame list" where
  "rem_black e cp p S ks r =
     (let C = sub e S; D = sub (opp e) S
      in if root_col C = BLACK \<and> root_col D = BLACK then (e, BLACK, p, paint RED S) # (if cp = BLACK then r else ks)
         else if root_col D = BLACK
         then (e, BLACK, p, sub e C) # (e, cp, root_ptr C, node e BLACK (sub (opp e) C) (root_ptr S) D) # ks
         else (e, BLACK, p, C) # (e, cp, root_ptr S, paint BLACK D) # ks)"

fun rem_fix :: "frame list \<Rightarrow> frame list" where
  "rem_fix [] = []"
| "rem_fix ((e, cp, p, S) # ks) =
     (if root_col S = RED then rem_black e RED p (sub e S) ((e, BLACK, root_ptr S, sub (opp e) S) # ks) []
      else rem_black e cp p S ks (rem_fix ks))"

lemma sub_node [simp]: "sub e (node e c x a y) = x" "sub (opp e) (node e c x a y) = y"
  by (cases e; simp add: node_def)+

lemma node_sub: "t \<noteq> Leaf \<Longrightarrow> t = node e (root_col t) (sub e t) (root_ptr t) (sub (opp e) t)"
  by (cases t; cases e) (simp_all add: node_def)

lemma bh_pos_node:
  assumes "0 < bh t"
  obtains c x a y where "t = node e c x a y"
proof -
  have "t \<noteq> Leaf" using assms by auto
  then show thesis using node_sub [of t e] that by blast
qed

lemma red_node:
  assumes "root_col t = RED"
  obtains x a y where "t = node e RED x a y"
proof -
  have "t \<noteq> Leaf" using assms by auto
  then show thesis using node_sub [of t e] that assms by metis
qed

text \<open>The repaired context is a red-black context for a subtree of smaller black height.\<close>

lemma rem_black_inv:
  assumes "kinvh (Suc b) ((e, cp, p, node e BLACK C s D) # ks)" "kinvc ((e, cp, p, node e BLACK C s D) # ks)"
    and r: "cp = BLACK \<Longrightarrow> kinvh (Suc b) r \<and> kinvc r"
  shows "kinvh b (rem_black e cp p (node e BLACK C s D) ks r) \<and> kinvc (rem_black e cp p (node e BLACK C s D) ks r)"
proof -
  let ?S = "node e BLACK C s D"
  have i: "bh C = bh D" "invh C" "invh D" "invc C" "invc D" "kinvh (Suc b + (if cp = BLACK then 1 else 0)) ks" "kinvc ks"
      "cp = RED \<Longrightarrow> kcol ks = BLACK"
    using assms(1,2) by (auto simp: kcol_def split: list.splits)
  have b: "bh C = b" using assms(1) bh_node [of C D e BLACK s] i(1) by simp
  have kc: "case ks of [] \<Rightarrow> True | (_, c', _, _) # _ \<Rightarrow> c' = BLACK" if "cp = RED"
    using i(8) [OF that] by (auto simp: kcol_def split: list.splits)
  show ?thesis
  proof (cases "root_col C = BLACK \<and> root_col D = BLACK")
    case True
    have "bh (node e RED C s D) = b" using bh_node [of C D e RED s] i(1) b by simp
    then show ?thesis using True i r by (cases cp) (simp_all add: rem_black_def)
  next
    case nb: False
    show ?thesis
    proof (cases "root_col D = BLACK")
      case True
      then have "root_col C = RED" using nb by simp
      then obtain C1 c C2 where C: "C = node e RED C1 c C2" by (rule red_node)
      have c: "bh C1 = bh C2" "bh C1 = b" "invh C1" "invh C2" "invc C1" "invc C2" "root_col C1 = BLACK" "root_col C2 = BLACK"
        using i(2,4) b bh_node [of C1 C2 e RED c] by (auto simp: C)
      then have "bh (node e BLACK C2 s D) = Suc b" using bh_node [of C2 D e BLACK s] i(1) b by simp
      then show ?thesis using True nb i c b kc by (cases cp) (simp_all add: rem_black_def C)
    next
      case False
      then have "root_col D = RED" by simp
      then obtain D1 d D2 where D: "D = node e RED D1 d D2" by (rule red_node)
      have d: "bh D1 = bh D2" "bh D1 = b" "invh D1" "invh D2" "invc D1" "invc D2"
        using i(1,3,5) b bh_node [of D1 D2 e RED d] by (auto simp: D)
      then have "bh (node e BLACK D1 d D2) = Suc b" using bh_node [of D1 D2 e BLACK d] by simp
      then show ?thesis using nb i d b kc by (cases cp) (simp_all add: rem_black_def D)
    qed
  qed
qed

lemma rem_fix_inv:
  "kinvh (Suc b) ks \<Longrightarrow> kinvc ks \<Longrightarrow> kinvh b (rem_fix ks) \<and> kinvc (rem_fix ks)"
proof (induction ks arbitrary: b rule: rem_fix.induct)
  case (2 e cp p S ks)
  have "0 < bh S" using 2(2) by simp
  then obtain cs C s D where S: "S = node e cs C s D" by (rule bh_pos_node)
  show ?case
  proof (cases cs)
    case RED
    have i: "bh C = bh D" "invh C" "invh D" "invc C" "invc D" "root_col C = BLACK" "root_col D = BLACK" "bh C = Suc b" "cp = BLACK"
      using 2(2,3) bh_node [of C D e RED s] by (auto simp: S RED)
    then have "0 < bh C" by simp
    then obtain cc C1 c C2 where C: "C = node e cc C1 c C2" by (rule bh_pos_node)
    have cc: "cc = BLACK" using i(6) by (simp add: C)
    have "kinvh (Suc b) ((e, RED, p, C) # (e, BLACK, s, D) # ks)" "kinvc ((e, RED, p, C) # (e, BLACK, s, D) # ks)"
      using 2(2,3) i by (simp_all add: S RED)
    then show ?thesis using rem_black_inv [of b e RED p C1 c C2 "(e, BLACK, s, D) # ks" "[]"] by (simp add: S RED C cc)
  next
    case BLACK
    have "kinvh (Suc b) (rem_fix ks) \<and> kinvc (rem_fix ks)" if "cp = BLACK"
      using 2(1) [of "Suc b"] 2(2,3) that by (simp add: S BLACK)
    then show ?thesis using rem_black_inv [of b e cp p C s D ks "rem_fix ks"] 2(2,3) by (simp add: S BLACK)
  qed
qed simp

text \<open>The nodes keep their order.\<close>

lemma rem_black_order:
  assumes "S \<noteq> Leaf" "cp = BLACK \<Longrightarrow> lctx r = lctx ks \<and> rctx r = rctx ks"
  shows "lctx (rem_black e cp p S ks r) = lctx ((e, cp, p, S) # ks) \<and> rctx (rem_black e cp p S ks r) = rctx ((e, cp, p, S) # ks)"
proof -
  obtain cs C s D where S: "S = node e cs C s D" using node_sub [OF assms(1)] by blast
  have "ptrs C = ptrs (node e RED (sub e C) (root_ptr C) (sub (opp e) C))" if "root_col C = RED"
    using red_node [OF that, of e] by (metis inv_node(2) paint_facts(1) root_ptr_node sub_node)
  then show ?thesis using assms(2) by (cases e; cases cp) (auto simp: rem_black_def S Let_def node_def)
qed

lemma rem_fix_order:
  "kinvh (Suc b) ks \<Longrightarrow> kinvc ks \<Longrightarrow> lctx (rem_fix ks) = lctx ks \<and> rctx (rem_fix ks) = rctx ks"
proof (induction ks arbitrary: b rule: rem_fix.induct)
  case (2 e cp p S ks)
  have "0 < bh S" using 2(2) by simp
  then obtain cs C s D where S: "S = node e cs C s D" by (rule bh_pos_node)
  show ?case
  proof (cases cs)
    case RED
    have "bh C = Suc b" using 2(2) bh_node [of C D e RED s] by (auto simp: S RED)
    then have "C \<noteq> Leaf" by auto
    moreover have "root_col C = BLACK" using 2(3) by (simp add: S RED)
    ultimately have "lctx (rem_fix ((e, cp, p, S) # ks)) = lctx ((e, RED, p, C) # (e, BLACK, s, D) # ks)"
        "rctx (rem_fix ((e, cp, p, S) # ks)) = rctx ((e, RED, p, C) # (e, BLACK, s, D) # ks)"
      using rem_black_order [of C RED "[]" "(e, BLACK, s, D) # ks" e p] by (simp_all add: S RED)
    then show ?thesis by (cases e) (simp_all add: S RED node_def)
  next
    case BLACK
    have "lctx (rem_fix ks) = lctx ks \<and> rctx (rem_fix ks) = rctx ks"
      using 2(1) [of "if cp = BLACK then Suc b else b"] 2(2,3) by (cases cp) (simp_all add: S BLACK)
    then show ?thesis using rem_black_order [of S cp "rem_fix ks" ks e p] by (simp add: S BLACK)
  qed
qed simp

section \<open>The code computes it\<close>

text \<open>The last step of the repair: a rotation at \<open>p\<close> that gives \<open>s\<close> the colour of \<open>p\<close>.\<close>

lemma far_rotation:
  assumes "tree_rep h (plug ks (node e cp t p (node e cs C s D)))" (is "tree_rep h ?T") and "D \<noteq> Leaf"
  shows "\<exists>h'. rb_rotate p e h = Inr h'
    \<and> tree_rep (set_color (root_ptr D) BLACK (set_color p BLACK (set_color s (rb_color (rb_nodes h' p)) h')))
        (plug ks (node e cp (node e BLACK t p C) s (paint BLACK D)))
    \<and> same_data (set (ptrs ?T)) h (set_color (root_ptr D) BLACK (set_color p BLACK (set_color s (rb_color (rb_nodes h' p)) h')))"
proof -
  obtain h' where h': "rb_rotate p e h = Inr h'" "tree_rep h' (plug ks (node e cs (node e cp t p C) s D))" "same_data (set (ptrs ?T)) h h'"
    using rb_rotate_rep [OF assms(1)] by blast
  obtain cd x y where D: "D = node e cd x (root_ptr D) y" using node_sub [OF assms(2)] by metis
  have "tree_rep h' (plug ((e, cs, s, D) # ks) (node e cp t p C))" using h'(2) by simp
  then have cp: "rb_color (rb_nodes h' p) = cp" by (rule tree_node(2))
  have "tree_rep (set_color s cp h') (plug ks (node e cp (node e cp t p C) s D))" by (rule set_color_rep [OF h'(2)])
  then have "tree_rep (set_color s cp h') (plug ((e, cp, s, D) # ks) (node e cp t p C))" by simp
  from set_color_rep [OF this, of BLACK]
  have "tree_rep (set_color p BLACK (set_color s cp h')) (plug ((opp e, cp, s, node e BLACK t p C) # ks) (node e cd x (root_ptr D) y))"
    using D by (simp add: node_opp)
  from set_color_rep [OF this, of BLACK]
  have "tree_rep (set_color (root_ptr D) BLACK (set_color p BLACK (set_color s cp h'))) (plug ks (node e cp (node e BLACK t p C) s (paint BLACK D)))"
    using D by (metis inv_node(2) plug.simps(2) node_opp)
  moreover have "same_data (set (ptrs ?T)) h (set_color (root_ptr D) BLACK (set_color p BLACK (set_color s cp h')))"
    using h'(3) assms(2) by (intro same_data_set_colorI) (cases D; simp add: ptrs_plug)+
  ultimately show ?thesis using h'(1) cp by blast
qed

text \<open>The step before it when only the near nephew is red.\<close>

lemma near_rotation:
  assumes "tree_rep h (plug ks (node e cp t p (node e BLACK (node e RED C1 c C2) s D)))" (is "tree_rep h ?T")
  shows "\<exists>h'. rb_rotate s (opp e) h = Inr h'
    \<and> tree_rep (set_color s RED (set_color c BLACK h')) (plug ks (node e cp t p (node e BLACK C1 c (node e RED C2 s D))))
    \<and> same_data (set (ptrs ?T)) h (set_color s RED (set_color c BLACK h'))"
proof -
  let ?k = "(opp e, cp, p, t) # ks"
  have "tree_rep h (plug ?k (node (opp e) BLACK D s (node (opp e) RED C2 c C1)))" using assms by (simp add: node_opp)
  from rb_rotate_rep [OF this] obtain h' where h': "rb_rotate s (opp e) h = Inr h'"
      "tree_rep h' (plug ?k (node e RED C1 c (node e BLACK C2 s D)))" "same_data (set (ptrs ?T)) h h'"
    by (auto simp: node_opp)
  from set_color_rep [OF h'(2), of BLACK]
  have "tree_rep (set_color c BLACK h') (plug ((opp e, BLACK, c, C1) # ?k) (node e BLACK C2 s D))" by (simp add: node_opp)
  from set_color_rep [OF this, of RED]
  have "tree_rep (set_color s RED (set_color c BLACK h')) (plug ks (node e cp t p (node e BLACK C1 c (node e RED C2 s D))))"
    by (simp add: node_opp)
  moreover have "same_data (set (ptrs ?T)) h (set_color s RED (set_color c BLACK h'))"
    using h'(3) by (intro same_data_set_colorI) (simp_all add: ptrs_plug)
  ultimately show ?thesis using h'(1) by blast
qed

text \<open>The part of the loop body behind the test for a red sibling.\<close>

definition remove_black :: "nat \<Rightarrow> dir_t \<Rightarrow> ptr \<Rightarrow> ptr \<Rightarrow> ptr \<Rightarrow> ptr \<Rightarrow> ptr \<Rightarrow> rb_heap \<Rightarrow> rb_heap res" where
  "remove_black fuel dir n p s c d h =
     (if is_black d h \<and> is_black c h
      then let h = set_color s RED h
           in if rb_color (rb_nodes h p) = BLACK
              then let n = rb_parent (rb_nodes h n)
                   in if n \<noteq> NULL \<and> rb_parent (rb_nodes h n) \<noteq> NULL then balance_remove_loop fuel n h
                      else Inr (h\<lparr>tree_root := n\<rparr>)
              else Inr (set_color p BLACK h)
      else bind_res
             (if is_black d h
              then bind_res (rb_rotate s (opp dir) h) (\<lambda>h. Inr (c, s, set_color s RED (set_color c BLACK h)))
              else Inr (s, d, h)) (\<lambda>(s, d, h).
           bind_res (rb_rotate p dir h) (\<lambda>h.
           Inr (set_color d BLACK (set_color p BLACK (set_color s (rb_color (rb_nodes h p)) h))))))"

lemma balance_remove_loop_step:
  assumes "rb_parent (rb_nodes h n) = p" "p \<noteq> NULL" "DIR n h = e" "rb_child (rb_nodes h p) (opp e) = s" "s \<noteq> NULL"
    and "rb_child (rb_nodes h s) e = c" "rb_child (rb_nodes h s) (opp e) = d"
  shows "balance_remove_loop (Suc fuel) n h =
     (if rb_color (rb_nodes h s) = RED
      then bind_res (rb_rotate p e h) (\<lambda>h.
           let h = set_color s BLACK (set_color p RED h)
           in if c = NULL then Inl NullDeref
              else remove_black fuel e n p c (rb_child (rb_nodes h c) e) (rb_child (rb_nodes h c) (opp e)) h)
      else remove_black fuel e n p s c d h)"
  using assms by (cases "rb_rotate p e h") (auto simp: remove_black_def Let_def cong: if_cong)

lemma remove_black_rep:
  assumes T: "tree_rep h (plug ((e, cp, p, node e BLACK C s D) # ks) t)" (is "tree_rep h ?T") and "t \<noteq> Leaf"
    and loop: "\<And>h t. cp = BLACK \<Longrightarrow> ks \<noteq> [] \<Longrightarrow> tree_rep h (plug ks t) \<Longrightarrow> t \<noteq> Leaf \<Longrightarrow>
      \<exists>h'. balance_remove_loop fuel (root_ptr t) h = Inr h' \<and> tree_rep h' (plug r t) \<and> same_data (set (ptrs (plug ks t))) h h'"
    and r: "ks = [] \<Longrightarrow> r = []"
  shows "\<exists>h'. remove_black fuel e (root_ptr t) p s (root_ptr C) (root_ptr D) h = Inr h'
    \<and> tree_rep h' (plug (rem_black e cp p (node e BLACK C s D) ks r) t) \<and> same_data (set (ptrs ?T)) h h'"
proof -
  have T1: "tree_rep h (plug ks (node e cp t p (node e BLACK C s D)))" using T by simp
  have T2: "tree_rep h (plug ((opp e, cp, p, t) # ks) (node e BLACK C s D))" using T by (simp add: node_opp)
  have c: "is_black (root_ptr C) h \<longleftrightarrow> root_col C = BLACK"
    using tree_black [of h "(e, BLACK, s, D) # (opp e, cp, p, t) # ks" C] T2 by simp
  have d: "is_black (root_ptr D) h \<longleftrightarrow> root_col D = BLACK"
    using tree_black [of h "(opp e, BLACK, s, C) # (opp e, cp, p, t) # ks" D] T2 by (simp add: node_opp)
  show ?thesis
  proof (cases "root_col C = BLACK \<and> root_col D = BLACK")
    case True
    let ?h = "set_color s RED h" and ?S = "node e RED C s D"
    have h: "tree_rep ?h (plug ks (node e cp t p ?S))" using set_color_rep [OF T2, of RED] by (simp add: node_opp)
    have sd: "same_data (set (ptrs ?T)) h ?h" by (rule same_data_set_color) (simp add: ptrs_plug)
    have col: "rb_color (rb_nodes ?h p) = cp" "p \<noteq> NULL" "rb_parent (rb_nodes ?h p) = par_of ks" using tree_node [OF h] by simp_all
    show ?thesis
    proof (cases cp)
      case RED
      have "tree_rep (set_color p BLACK ?h) (plug ks (node e BLACK t p ?S))" by (rule set_color_rep [OF h])
      moreover have "same_data (set (ptrs ?T)) h (set_color p BLACK ?h)"
        by (rule same_data_set_colorI [OF sd]) (simp add: ptrs_plug)
      ultimately show ?thesis using True RED col c d by (simp add: remove_black_def rem_black_def Let_def)
    next
      case BLACK
      obtain ct x y where t: "t = node e ct x (root_ptr t) y" using node_sub [OF assms(2)] by metis
      have par: "rb_parent (rb_nodes ?h (root_ptr t)) = p"
        using tree_node(5) [of ?h "(e, cp, p, ?S) # ks" e ct x "root_ptr t" y] h t by simp
      show ?thesis
      proof (cases "ks = []")
        case Nil: True
        have "tree_root ?h = p" using h Nil by (auto simp: tree_rep_def rep_node)
        then have "?h\<lparr>tree_root := p\<rparr> = ?h" by simp
        then show ?thesis using True BLACK col c d par Nil h sd r by (simp add: remove_black_def rem_black_def Let_def)
      next
        case False
        have "par_of ks \<noteq> NULL" using h False unfolding tree_rep_def rep_plug by (cases ks) auto
        moreover from loop [OF BLACK False h] obtain h' where h': "balance_remove_loop fuel p ?h = Inr h'"
            "tree_rep h' (plug r (node e cp t p ?S))" "same_data (set (ptrs (plug ks (node e cp t p ?S)))) ?h h'" by auto
        moreover have "set (ptrs (plug ks (node e cp t p ?S))) = set (ptrs ?T)" by (simp add: ptrs_plug)
        ultimately show ?thesis
          using True BLACK col c d par same_data_trans [OF sd] by (auto simp: remove_black_def rem_black_def Let_def)
      qed
    qed
  next
    case nb: False
    show ?thesis
    proof (cases "root_col D = BLACK")
      case True
      then have "root_col C = RED" using nb by simp
      then obtain C1 c' C2 where C: "C = node e RED C1 c' C2" by (rule red_node)
      obtain h1 where h1: "rb_rotate s (opp e) h = Inr h1"
          "tree_rep (set_color s RED (set_color c' BLACK h1)) (plug ks (node e cp t p (node e BLACK C1 c' (node e RED C2 s D))))"
          "same_data (set (ptrs ?T)) h (set_color s RED (set_color c' BLACK h1))"
        using near_rotation [of h ks e cp t p C1 c' C2 s D] T1 by (auto simp: C)
      let ?h1 = "set_color s RED (set_color c' BLACK h1)" and ?D = "node e RED C2 s D"
      obtain h2 where h2: "rb_rotate p e ?h1 = Inr h2"
          "tree_rep (set_color s BLACK (set_color p BLACK (set_color c' (rb_color (rb_nodes h2 p)) h2)))
            (plug ks (node e cp (node e BLACK t p C1) c' (node e BLACK C2 s D)))"
          "same_data (set (ptrs (plug ks (node e cp t p (node e BLACK C1 c' ?D))))) ?h1
            (set_color s BLACK (set_color p BLACK (set_color c' (rb_color (rb_nodes h2 p)) h2)))"
        using far_rotation [OF h1(2)] by auto
      have "set (ptrs (plug ks (node e cp t p (node e BLACK C1 c' ?D)))) = set (ptrs ?T)" by (auto simp: ptrs_plug C)
      then show ?thesis using True nb c d h1 h2 same_data_trans [OF h1(3)] by (auto simp: remove_black_def rem_black_def Let_def C)
    next
      case False
      then have D: "D \<noteq> Leaf" by auto
      from far_rotation [OF T1 D] False nb c d show ?thesis by (auto simp: remove_black_def rem_black_def Let_def)
    qed
  qed
qed

lemma balance_remove_loop_rep:
  assumes "tree_rep h (plug ks t)" "t \<noteq> Leaf" "ks \<noteq> []" "length ks \<le> fuel" "kinvh (Suc b) ks" "kinvc ks"
  shows "\<exists>h'. balance_remove_loop fuel (root_ptr t) h = Inr h' \<and> tree_rep h' (plug (rem_fix ks) t) \<and> same_data (set (ptrs (plug ks t))) h h'"
  using assms
proof (induction ks arbitrary: h t fuel b rule: rem_fix.induct)
  case (2 e cp p S ks)
  obtain f where f: "fuel = Suc f" "length ks \<le> f" using 2(5) by (cases fuel) auto
  have "0 < bh S" using 2(6) by simp
  then obtain cs C s D where S: "S = node e cs C s D" by (rule bh_pos_node)
  let ?T = "plug ((e, cp, p, S) # ks) t"
  have T: "tree_rep h (plug ks (node e cp t p (node e cs C s D)))" using 2(2) by (simp add: S)
  have P: "p \<noteq> NULL" "rb_child (rb_nodes h p) (opp e) = s" using tree_node [OF T] by simp_all
  have s: "s \<noteq> NULL" "rb_color (rb_nodes h s) = cs" "rb_child (rb_nodes h s) e = root_ptr C" "rb_child (rb_nodes h s) (opp e) = root_ptr D"
    using tree_node [of h "(opp e, cp, p, t) # ks" e cs C s D] T by (simp_all add: node_opp)
  obtain ct x y where t: "t = node e ct x (root_ptr t) y" using node_sub [OF 2(3)] by metis
  have n: "rb_parent (rb_nodes h (root_ptr t)) = p" using tree_node(5) [of h "(e, cp, p, S) # ks" e ct x "root_ptr t" y] 2(2) t by simp
  have dir: "DIR (root_ptr t) h = e" using tree_dir [OF 2(2,3)] .
  note step = balance_remove_loop_step [OF n P(1) dir P(2) s(1,3,4), of f]
  show ?case
  proof (cases cs)
    case RED
    have i: "root_col C = BLACK" "bh C = Suc b" using 2(6,7) bh_node [of C D e RED s] by (auto simp: S RED)
    then have "0 < bh C" by simp
    then obtain cc C1 c C2 where C: "C = node e cc C1 c C2" by (rule bh_pos_node)
    have cc: "cc = BLACK" using i(1) by (simp add: C)
    obtain h1 where h1: "rb_rotate p e h = Inr h1" "tree_rep h1 (plug ks (node e RED (node e cp t p C) s D))" "same_data (set (ptrs ?T)) h h1"
      using rb_rotate_rep [of h ks e cp t p RED C s D] T by (auto simp: RED S)
    let ?h = "set_color s BLACK (set_color p RED h1)"
    have "tree_rep (set_color p RED h1) (plug ((e, RED, s, D) # ks) (node e RED t p C))"
      by (rule set_color_rep) (use h1(2) in simp)
    from set_color_rep [of "set_color p RED h1" ks e RED "node e RED t p C" s D BLACK] this
    have h: "tree_rep ?h (plug ((e, RED, p, node e BLACK C1 c C2) # (e, BLACK, s, D) # ks) t)" by (simp add: C cc)
    have sd: "same_data (set (ptrs ?T)) h ?h"
      using h1(3) by (intro same_data_set_colorI) (simp_all add: ptrs_plug S)
    have cn: "c \<noteq> NULL" "rb_child (rb_nodes ?h c) e = root_ptr C1" "rb_child (rb_nodes ?h c) (opp e) = root_ptr C2"
      using tree_node [of ?h "(opp e, RED, p, t) # (e, BLACK, s, D) # ks" e BLACK C1 c C2] h by (simp_all add: node_opp)
    from remove_black_rep [OF h 2(3), of f "[]"]
    obtain h' where h': "remove_black f e (root_ptr t) p c (root_ptr C1) (root_ptr C2) ?h = Inr h'"
        "tree_rep h' (plug (rem_black e RED p (node e BLACK C1 c C2) ((e, BLACK, s, D) # ks) []) t)"
        "same_data (set (ptrs (plug ((e, RED, p, node e BLACK C1 c C2) # (e, BLACK, s, D) # ks) t))) ?h h'" by auto
    have "set (ptrs (plug ((e, RED, p, node e BLACK C1 c C2) # (e, BLACK, s, D) # ks) t)) = set (ptrs ?T)"
      by (auto simp: ptrs_plug S C)
    moreover have "balance_remove_loop fuel (root_ptr t) h = Inr h'" using step s(2) RED h1(1) h'(1) cn by (simp add: f(1) C Let_def)
    moreover have "rem_fix ((e, cp, p, S) # ks) = rem_black e RED p (node e BLACK C1 c C2) ((e, BLACK, s, D) # ks) []"
      by (simp add: S RED C cc)
    ultimately show ?thesis using h' same_data_trans [OF sd] by metis
  next
    case BLACK
    have T': "tree_rep h (plug ((e, cp, p, node e BLACK C s D) # ks) t)" using 2(2) by (simp add: S BLACK)
    have "\<exists>h'. balance_remove_loop f (root_ptr t) h = Inr h' \<and> tree_rep h' (plug (rem_fix ks) t) \<and> same_data (set (ptrs (plug ks t))) h h'"
      if "cp = BLACK" "ks \<noteq> []" "tree_rep h (plug ks t)" "t \<noteq> Leaf" for h t
      by (rule 2(1) [OF _ that(3,4,2) f(2), of "Suc b"]) (use 2(6,7) that(1) in \<open>simp_all add: S BLACK\<close>)
    from remove_black_rep [OF T' 2(3) this]
    obtain h' where "remove_black f e (root_ptr t) p s (root_ptr C) (root_ptr D) h = Inr h'"
        "tree_rep h' (plug (rem_black e cp p (node e BLACK C s D) ks (rem_fix ks)) t)" "same_data (set (ptrs ?T)) h h'"
      by (auto simp: S BLACK)
    moreover have "rem_fix ((e, cp, p, S) # ks) = rem_black e cp p (node e BLACK C s D) ks (rem_fix ks)" by (simp add: S BLACK)
    moreover have "balance_remove_loop fuel (root_ptr t) h = remove_black f e (root_ptr t) p s (root_ptr C) (root_ptr D) h"
      using step s(2) BLACK by (simp add: f(1))
    ultimately show ?thesis by metis
  qed
qed simp

section \<open>Unlinking\<close>

lemma plug_root: "ks \<noteq> [] \<Longrightarrow> root_ptr (plug ks t) \<in> kptrs ks"
proof (induction ks arbitrary: t)
  case (Cons k ks)
  obtain d c a s where "k = (d, c, a, s)" by (cases k)
  then show ?case using Cons.IH [of "node d c t a s"] by (cases "ks = []") auto
qed simp

lemma tree_root_plug: "tree_rep h t \<Longrightarrow> tree_root h = root_ptr t"
  by (auto simp: tree_rep_def dest: rep_root_ptr)

lemma unlink_rep:
  assumes "tree_rep h (plug ks t)" "ks \<noteq> []"
  shows "tree_rep (set_link (link_of ks) NULL h) (plug ks Leaf)"
proof -
  define h' where "h' = set_link (link_of ks) NULL h"
  obtain par hole where k: "ctx (rb_nodes h) (tree_root h) par hole ks"
    using assms(1) by (auto simp: tree_rep_def rep_plug)
  have par: "par = par_of ks" using k by (rule ctx_par)
  have D: "distinct (lctx ks @ rctx ks)" using assms(1) by (auto simp: tree_rep_def distinct_plug)
  have "ctx (rb_nodes h') (tree_root h') par NULL ks"
  proof (rule ctx_replace [OF k D])
    show "rb_nodes h' a = rb_nodes h a" if "a \<in> kptrs ks" "a \<noteq> par" for a
      using that par assms(2) by (cases ks) (auto simp: h'_def set_link_def set_child_def)
    show "rb_nodes h' par = (rb_nodes h par)\<lparr>rb_child := (rb_child (rb_nodes h par))(d := NULL)\<rparr>"
      if "ks = (d, c, a, sib) # ks'" for d c a sib ks'
      using that par by (simp add: h'_def set_link_def set_child_def)
    show "tree_root h' = (if ks = [] then NULL else tree_root h)"
      using assms(2) by (cases ks) (auto simp: h'_def set_link_def set_child_def)
  qed
  then have "rep (rb_nodes h') NULL (tree_root h') (plug ks Leaf)" by (auto simp: rep_plug)
  then show ?thesis using D by (simp add: tree_rep_def h'_def distinct_plug)
qed

text \<open>The first node of a tree, which the scheduler caches.\<close>

definition first_node :: "ptr list \<Rightarrow> ptr" where
  "first_node xs = (case xs of [] \<Rightarrow> NULL | a # _ \<Rightarrow> a)"

lemma first_node_simps [simp]: "first_node [] = NULL" "first_node (a # xs) = a" by (simp_all add: first_node_def)

lemma first_node_append: "first_node (xs @ ys) = (if xs = [] then first_node ys else first_node xs)"
  by (cases xs) simp_all

lemma first_behind: "lctx ks = [] \<Longrightarrow> first_node (rctx ks) = par_of ks"
proof (cases ks)
  case (Cons k ks')
  obtain d c a s where "k = (d, c, a, s)" by (cases k)
  then show "lctx ks = [] \<Longrightarrow> first_node (rctx ks) = par_of ks" using Cons by (cases d) auto
qed simp

lemma rem_fix_head: "\<exists>c' p' s' ks'. rem_fix ((e, c, p, S) # ks) = (e, c', p', s') # ks'"
  by (simp add: rem_black_def Let_def)

lemma tree_rep_leftmost [simp]: "tree_rep (h\<lparr>tree_leftmost := x\<rparr>) t = tree_rep h t"
  by (simp add: tree_rep_def)

lemma leaf_repair:
  assumes T: "tree_rep h (plug ks (Node c Leaf n Leaf))" (is "tree_rep h ?T") and "ks = (e, cp, p, S) # ks0"
    and i: "invc (plug ks (Node c Leaf n Leaf))" "invh (plug ks (Node c Leaf n Leaf))"
  shows "\<exists>h' ks'. (if rb_color (rb_nodes h n) = RED then Inr h else balance_tree_remove n h) = Inr h'
    \<and> tree_rep h' (plug ks' (Node c Leaf n Leaf)) \<and> same_data (set (ptrs ?T)) h h' \<and> invc (plug ks' Leaf) \<and> invh (plug ks' Leaf)
    \<and> lctx ks' = lctx ks \<and> rctx ks' = rctx ks \<and> (\<exists>c p s k. ks' = (e, c, p, s) # k)"
proof -
  have L: "Node c Leaf n Leaf = node LEFT c Leaf n Leaf" by (simp add: node_def)
  have col: "rb_color (rb_nodes h n) = c" using tree_node(2) [of h ks LEFT c Leaf n Leaf] T by (simp add: L)
  have k: "kinvc ks" "kinvh (if c = BLACK then 1 else 0) ks" using i by (simp_all add: invc_plug invh_plug)
  show ?thesis
  proof (cases c)
    case RED
    then have "invc (plug ks Leaf)" "invh (plug ks Leaf)" using k by (simp_all add: invc_plug invh_plug)
    moreover have "\<exists>c p s k. ks = (e, c, p, s) # k" using assms(2) by blast
    moreover have "(if rb_color (rb_nodes h n) = RED then Inr h else balance_tree_remove n h) = Inr h" "same_data (set (ptrs ?T)) h h"
      using col RED by (simp_all add: same_data_def)
    ultimately show ?thesis using T by blast
  next
    case BLACK
    have k': "kinvh (Suc 0) ks" using k(2) BLACK by simp
    have "length ks \<le> TREE_BOUND" using ctx_bound [of ks "Node c Leaf n Leaf"] ptrs_bound [OF T] by simp
    from balance_remove_loop_rep [OF T _ _ this k' k(1)] assms(2)
    obtain h' where h': "balance_tree_remove n h = Inr h'" "tree_rep h' (plug (rem_fix ks) (Node c Leaf n Leaf))" "same_data (set (ptrs ?T)) h h'"
      by (auto simp: balance_tree_remove_def)
    have "invc (plug (rem_fix ks) Leaf)" "invh (plug (rem_fix ks) Leaf)"
      using rem_fix_inv [OF k' k(1)] by (simp_all add: invc_plug invh_plug)
    moreover have "lctx (rem_fix ks) = lctx ks" "rctx (rem_fix ks) = rctx ks" using rem_fix_order [OF k' k(1)] by simp_all
    moreover have "\<exists>c p s k. rem_fix ks = (e, c, p, s) # k" unfolding assms(2) by (rule rem_fix_head)
    ultimately show ?thesis using h' col BLACK by (intro exI [of _ h'] exI [of _ "rem_fix ks"]) simp
  qed
qed

lemma detach_leaf_spec:
  assumes T: "tree_rep h (plug ks (Node c Leaf n Leaf))" (is "tree_rep h ?T")
    and i: "invc (plug ks (Node c Leaf n Leaf))" "invh (plug ks (Node c Leaf n Leaf))"
    and l: "tree_leftmost h = first_node (ptrs (plug ks (Node c Leaf n Leaf)))"
  shows "\<exists>h' t'. rb_detach_leaf n h = Inr (n, h') \<and> tree_rep h' t' \<and> invc t' \<and> invh t' \<and> ptrs t' = lctx ks @ rctx ks
    \<and> tree_leftmost h' = first_node (ptrs t') \<and> (\<forall>a. rb_se (rb_nodes h' a) = rb_se (rb_nodes h a))
    \<and> (\<forall>a. a \<notin> set (ptrs ?T) \<longrightarrow> rb_nodes h' a = rb_nodes h a)"
proof -
  have L: "Node c Leaf n Leaf = node LEFT c Leaf n Leaf" by (simp add: node_def)
  have n: "rb_parent (rb_nodes h n) = par_of ks" "n \<noteq> NULL" using tree_node [of h ks LEFT c Leaf n Leaf] T by (simp_all add: L)
  have D: "n \<notin> kptrs ks" using T by (auto simp: tree_rep_def distinct_plug)
  have lm: "n = tree_leftmost h \<longleftrightarrow> lctx ks = []"
    using l D by (cases "lctx ks") (auto simp: ptrs_plug kptrs_def)
  define h1 where "h1 = (if n = tree_leftmost h then h\<lparr>tree_leftmost := rb_parent (rb_nodes h n)\<rparr> else h)"
  have leaf: "rb_detach_leaf n h = (if n = tree_root h1 then Inr (n, h1\<lparr>tree_root := NULL\<rparr>)
      else bind_res (if rb_color (rb_nodes h1 n) = RED then Inr h1 else balance_tree_remove n h1) (\<lambda>h'.
         Inr (n, set_child (rb_parent (rb_nodes h' n)) (DIR n h1) NULL h')))"
    unfolding rb_detach_leaf_def h1_def [symmetric] Let_def by (rule refl)
  have h1: "rb_nodes h1 = rb_nodes h" "tree_root h1 = tree_root h" "tree_rep h1 ?T" "tree_leftmost h1 = first_node (lctx ks @ rctx ks)"
    using T l first_behind [of ks] lm n(1) by (auto simp: h1_def ptrs_plug first_node_append)
  show ?thesis
  proof (cases ks)
    case Nil
    have "tree_root h = n" using T by (auto simp: Nil tree_rep_def)
    then have "rb_detach_leaf n h = Inr (n, h1\<lparr>tree_root := NULL\<rparr>)"
      using leaf h1(2) by simp
    then show ?thesis using h1 Nil by (intro exI [of _ "h1\<lparr>tree_root := NULL\<rparr>"] exI [of _ Leaf]) (simp add: tree_rep_def)
  next
    case (Cons k ks0)
    obtain e cp p S where k: "k = (e, cp, p, S)" by (cases k)
    have ks: "ks = (e, cp, p, S) # ks0" by (simp add: Cons k)
    have "tree_root h \<in> kptrs ks" using plug_root [of ks "Node c Leaf n Leaf"] tree_root_plug [OF T] Cons by simp
    then have root: "n \<noteq> tree_root h1" using D h1(2) by metis
    have dir: "DIR n h1 = e" using tree_dir [of h1 e cp p S ks0 "Node c Leaf n Leaf"] h1(3) by (simp add: ks)
    obtain h2 ks' where h2: "(if rb_color (rb_nodes h1 n) = RED then Inr h1 else balance_tree_remove n h1) = Inr h2"
        "tree_rep h2 (plug ks' (Node c Leaf n Leaf))" "same_data (set (ptrs ?T)) h1 h2" "invc (plug ks' Leaf)" "invh (plug ks' Leaf)"
        "lctx ks' = lctx ks" "rctx ks' = rctx ks" "\<exists>c p s k. ks' = (e, c, p, s) # k"
      using leaf_repair [OF h1(3) ks i] by blast
    obtain c2 p2 s2 k2 where k': "ks' = (e, c2, p2, s2) # k2" using h2(8) by blast
    have "rb_parent (rb_nodes h2 n) = p2" using tree_node(5) [of h2 ks' LEFT c Leaf n Leaf] h2(2) by (simp add: L k')
    then have "rb_detach_leaf n h = Inr (n, set_link (link_of ks') NULL h2)"
      using leaf root dir h2(1) by (simp add: k' set_link_def)
    moreover have "ptrs (plug ks' Leaf) = lctx ks @ rctx ks" by (simp add: ptrs_plug h2(6,7))
    moreover have "rb_nodes (set_link (link_of ks') NULL h2) a = rb_nodes h a" if "a \<notin> set (ptrs ?T)" for a
      using that h2(3,6,7) h1(1) set_link_other [of a ks' NULL h2] by (simp add: same_data_def ptrs_plug)
    moreover have "rb_se (rb_nodes h2 a) = rb_se (rb_nodes h a)" "tree_leftmost h2 = tree_leftmost h1" for a
      using h2(3) h1(1) by (simp_all add: same_data_def)
    ultimately show ?thesis
      using unlink_rep [OF h2(2)] k' h2(4,5) h1(4)
      by (intro exI [of _ "set_link (link_of ks') NULL h2"] exI [of _ "plug ks' Leaf"]) simp
  qed
qed

text \<open>The tree depends on the links and colours only.\<close>

lemma tree_rep_se [simp]: "tree_rep (set_se n v h) t = tree_rep h t"
proof -
  have "rep (rb_nodes (set_se n v h)) par p t = rep (rb_nodes h) par p t" for par p
    by (induction t arbitrary: par p) (auto simp: set_se_def)
  then show ?thesis by (simp add: tree_rep_def set_se_def)
qed

lemma set_se_facts [simp]:
  "tree_leftmost (set_se n v h) = tree_leftmost h" "tree_root (set_se n v h) = tree_root h" "rb_child (rb_nodes (set_se n v h) a) = rb_child (rb_nodes h a)"
  "rb_se (rb_nodes (set_se n v h) a) = (if a = n then v else rb_se (rb_nodes h a))" "a \<noteq> n \<Longrightarrow> rb_nodes (set_se n v h) a = rb_nodes h a"
  by (simp_all add: set_se_def)

lemma single_child:
  assumes "invc (Node c l n r)" "invh (Node c l n r)" "l = Leaf \<or> r = Leaf" "l \<noteq> Leaf \<or> r \<noteq> Leaf"
  obtains d m where "Node c l n r = node d BLACK (Node RED Leaf m Leaf) n Leaf"
proof -
  have leaf: "\<exists>m. t = Node RED Leaf m Leaf" if "t \<noteq> Leaf" "bh t = 0" "invc t" "invh t" for t
  proof (cases t)
    case (Node c' l' m r')
    then have "c' = RED" "bh l' = 0" "bh r' = 0" using that by (auto split: if_splits)
    moreover have "x = Leaf" if "bh x = 0" "root_col x = BLACK" for x using that by (cases x) auto
    ultimately show ?thesis using that Node by auto
  qed (use that in simp)
  show thesis
  proof (cases "l = Leaf")
    case True
    then obtain m where "r = Node RED Leaf m Leaf" using leaf [of r] assms by auto
    then show thesis using True assms(1) that [of RIGHT m] by (cases c) (simp_all add: node_def)
  next
    case False
    then obtain m where "l = Node RED Leaf m Leaf" using leaf [of l] assms by auto
    then show thesis using False assms(1,3) that [of LEFT m] by (cases c) (simp_all add: node_def)
  qed
qed

lemma detach_node_spec:
  assumes T: "tree_rep h (plug ks (Node c l n r))" (is "tree_rep h ?T")
    and i: "invc (plug ks (Node c l n r))" "invh (plug ks (Node c l n r))" and lr: "l = Leaf \<or> r = Leaf"
    and lm: "tree_leftmost h = first_node (ptrs (plug ks (Node c l n r)))"
  shows "\<exists>f h' t'. rb_detach_node n h = Inr (f, h') \<and> f \<in> set (ptrs ?T) \<and> tree_rep h' t' \<and> invc t' \<and> invh t' \<and> set (ptrs t') = set (ptrs ?T) - {f}
    \<and> rb_queue h' t' = map (\<lambda>a. rb_se (rb_nodes h a)) (lctx ks @ ptrs l @ ptrs r @ rctx ks)
    \<and> tree_leftmost h' = first_node (ptrs t') \<and> (\<forall>a. a \<notin> set (ptrs ?T) \<longrightarrow> rb_nodes h' a = rb_nodes h a)"
proof -
  have L: "Node c l n r = node LEFT c l n r" by (simp add: node_def)
  have ch: "rb_child (rb_nodes h n) LEFT = root_ptr l" "rb_child (rb_nodes h n) RIGHT = root_ptr r"
    using tree_node(3,4) [of h ks LEFT c l n r] T by (simp_all add: L)
  have nz: "root_ptr l = NULL \<longleftrightarrow> l = Leaf" "root_ptr r = NULL \<longleftrightarrow> r = Leaf"
    using T rep_nonnull by (cases l; cases r; auto simp: tree_rep_def rep_plug)+
  show ?thesis
  proof (cases "l = Leaf \<and> r = Leaf")
    case True
    have D: "n \<notin> set (lctx ks @ rctx ks)" using T by (auto simp: tree_rep_def distinct_plug kptrs_def)
    from detach_leaf_spec [of h ks c n] T i lm True
    obtain h' t' where "rb_detach_leaf n h = Inr (n, h')" "tree_rep h' t'" "invc t'" "invh t'" "ptrs t' = lctx ks @ rctx ks"
        "tree_leftmost h' = first_node (ptrs t')" "\<forall>a. rb_se (rb_nodes h' a) = rb_se (rb_nodes h a)"
        "\<forall>a. a \<notin> set (ptrs ?T) \<longrightarrow> rb_nodes h' a = rb_nodes h a" by blast
    moreover have "rb_detach_node n h = rb_detach_leaf n h" using ch nz True by (simp add: rb_detach_node_def)
    ultimately show ?thesis using True D
      by (intro exI [of _ n] exI [of _ h'] exI [of _ t']) (auto simp: ptrs_plug rb_queue_def)
  next
    case False
    have "invc (Node c l n r)" "invh (Node c l n r)" using i unfolding invc_plug invh_plug by blast+
    then obtain d m where t: "Node c l n r = node d BLACK (Node RED Leaf m Leaf) n Leaf"
      using lr False by (blast elim: single_child)
    let ?m = "Node RED Leaf m Leaf" and ?k = "(d, BLACK, n, Leaf) # ks"
    have T': "tree_rep h (plug ?k ?m)" using T t by simp
    have D: "distinct (lctx ?k @ m # rctx ?k)" using T' by (cases d) (auto simp: tree_rep_def distinct_plug kptrs_def)
    have p: "ptrs ?T = lctx ?k @ m # rctx ?k" using t ptrs_plug [of ?k ?m] by simp
    have m: "ptrs l @ ptrs r = [m]" "(if root_ptr l \<noteq> NULL then root_ptr l else root_ptr r) = m"
      using t nz lr by (cases d; auto simp: node_def)+
    have dir: "DIR m h = d" using tree_dir [OF T'] by simp
    define h1 where "h1 = set_child n d NULL (set_se n (rb_se (rb_nodes h m)) h)"
    define h2 where "h2 = (if m = tree_leftmost h1 then h1\<lparr>tree_leftmost := n\<rparr> else h1)"
    have "rb_detach_node n h = Inr (m, h2)"
      using ch nz False m(2) dir by (simp add: rb_detach_node_def Let_def h1_def h2_def)
    moreover have "tree_rep h2 (plug ks (node d BLACK Leaf n Leaf))"
    proof -
      have "tree_rep (set_se n (rb_se (rb_nodes h m)) h) (plug ?k ?m)" using T' by simp
      from unlink_rep [OF this] show ?thesis by (simp add: h1_def h2_def set_link_def)
    qed
    moreover have "invc (plug ks (node d BLACK Leaf n Leaf))" "invh (plug ks (node d BLACK Leaf n Leaf))"
      using i bh_node [of ?m Leaf d BLACK n] bh_node [of Leaf Leaf d BLACK n] unfolding t invc_plug invh_plug by simp_all
    moreover have q: "ptrs (plug ks (node d BLACK Leaf n Leaf)) = lctx ks @ n # rctx ks" by (cases d) (simp_all add: ptrs_plug node_def)
    moreover have "rb_queue h2 (plug ks (node d BLACK Leaf n Leaf)) = map (\<lambda>a. rb_se (rb_nodes h a)) (lctx ks @ (ptrs l @ ptrs r) @ rctx ks)"
    proof -
      have "rb_se (rb_nodes h2 a) = (if a = n then rb_se (rb_nodes h m) else rb_se (rb_nodes h a))" for a
        by (simp add: h1_def h2_def set_child_def)
      moreover have "n \<notin> set (lctx ks)" "n \<notin> set (rctx ks)" using D by (cases d; simp)+
      ultimately show ?thesis unfolding m(1) rb_queue_def q by (simp cong: map_cong)
    qed
    moreover have "tree_leftmost h2 = first_node (lctx ks @ n # rctx ks)"
      using lm p D by (cases d; cases "lctx ks") (auto simp: h1_def h2_def set_child_def first_node_append)
    moreover have "rb_nodes h2 a = rb_nodes h a" if "a \<noteq> n" for a using that by (simp add: h1_def h2_def set_child_def)
    ultimately show ?thesis
      by (intro exI [of _ m] exI [of _ h2] exI [of _ "plug ks (node d BLACK Leaf n Leaf)"])
        (use D p in \<open>cases d; auto\<close>)
  qed
qed

section \<open>Removal\<close>

lemma find_entity_absent:
  assumes "rep (rb_nodes h) par p t" "length (ptrs t) < fuel" "\<forall>a \<in> set (ptrs t). rb_se (rb_nodes h a) \<noteq> se"
  shows "find_entity fuel es se key p h = Inr NULL"
  using assms
proof (induction t arbitrary: fuel par p)
  case Leaf
  then show ?case by (cases fuel) simp_all
next
  case (Node c l a r)
  obtain f where "fuel = Suc f" using Node.prems(2) by (cases fuel) auto
  then show ?case using Node by auto
qed

lemma find_entity_rep:
  assumes "rep (rb_nodes h) par p t" "length (ptrs t) < fuel" "ptrs t = xs @ n # ys" "rb_se (rb_nodes h n) = se"
    and "\<forall>a \<in> set xs. rb_se (rb_nodes h a) \<noteq> se \<and> entity_key es (rb_se (rb_nodes h a)) \<le> key"
    and "\<forall>a \<in> set ys. rb_se (rb_nodes h a) \<noteq> se \<and> key < entity_key es (rb_se (rb_nodes h a))"
  shows "find_entity fuel es se key p h = Inr n"
  using assms(1-3,5,6)
proof (induction t arbitrary: fuel par p xs ys)
  case (Node c l a r)
  let ?k = "entity_key es (rb_se (rb_nodes h a))"
  obtain f where f: "fuel = Suc f" "length (ptrs l) < f" "length (ptrs r) < f" using Node.prems(2) by (cases fuel) auto
  have p: "p = a" "a \<noteq> NULL" "rep (rb_nodes h) a (rb_child (rb_nodes h a) LEFT) l" "rep (rb_nodes h) a (rb_child (rb_nodes h a) RIGHT) r"
    using Node.prems(1) by simp_all
  have "ptrs l @ a # ptrs r = xs @ n # ys" using Node.prems(3) by simp
  then consider "a = n" | zs where "ptrs l = xs @ n # zs" "ys = zs @ a # ptrs r" | zs where "ptrs r = zs @ n # ys" "xs = ptrs l @ a # zs"
    by (auto simp: append_eq_append_conv2 Cons_eq_append_conv append_eq_Cons_conv)
  then show ?case
  proof cases
    case 1
    then show ?thesis using assms(4) p by (simp add: f)
  next
    case (2 zs)
    then have "find_entity f es se key (rb_child (rb_nodes h a) LEFT) h = Inr n"
      using Node.prems(4,5) by (intro Node.IH(1) [OF p(3) f(2) 2(1)]) auto
    then show ?thesis using p Node.prems(5) 2 by (simp add: f)
  next
    case (3 zs)
    then have "find_entity f es se key (rb_child (rb_nodes h a) RIGHT) h = Inr n"
      using Node.prems(4,5) by (intro Node.IH(2) [OF p(4) f(3) 3(1)]) auto
    moreover have "rb_se (rb_nodes h a) \<noteq> se" "\<not> key < ?k" using Node.prems(4) 3 by (simp_all add: not_less)
    ultimately show ?thesis using p by (simp add: f)
  qed
qed simp

lemma ctx_append: "lctx (ks @ ks') = lctx ks' @ lctx ks" "rctx (ks @ ks') = rctx ks @ rctx ks'"
  by (induction ks; auto)+

lemma node_context: "n \<in> set (ptrs t) \<Longrightarrow> \<exists>ks c l r. t = plug ks (Node c l n r)"
proof (induction t)
  case (Node c l a r)
  consider "n = a" | "n \<in> set (ptrs l)" | "n \<in> set (ptrs r)" using Node.prems by auto
  then show ?case
  proof cases
    case 1
    then show ?thesis by (intro exI [of _ "[]"]) simp
  next
    case 2
    then obtain ks c' l' r' where "l = plug ks (Node c' l' n r')" using Node.IH(1) by blast
    then have "Node c l a r = plug (ks @ [(LEFT, c, a, r)]) (Node c' l' n r')" by (simp add: plug_append node_def)
    then show ?thesis by blast
  next
    case 3
    then obtain ks c' l' r' where "r = plug ks (Node c' l' n r')" using Node.IH(2) by blast
    then have "Node c l a r = plug (ks @ [(RIGHT, c, a, l)]) (Node c' l' n r')" by (simp add: plug_append node_def)
    then show ?thesis by blast
  qed
qed simp

lemma rightmost_rep:
  assumes "rep (rb_nodes h) par p t" "length (ptrs t) < fuel" "t \<noteq> Leaf"
  shows "\<exists>ks c l sw. rb_most fuel RIGHT p h = Inr sw \<and> t = plug ks (Node c l sw Leaf) \<and> rctx ks = []"
  using assms
proof (induction t arbitrary: fuel par p)
  case (Node c l a r)
  obtain f where f: "fuel = Suc f" "length (ptrs r) < f" using Node.prems(2) by (cases fuel) auto
  have p: "p = a" "rep (rb_nodes h) a (rb_child (rb_nodes h a) RIGHT) r" using Node.prems(1) by simp_all
  show ?case
  proof (cases "r = Leaf")
    case True
    then show ?thesis using p by (intro exI [of _ "[]"]) (simp add: f)
  next
    case False
    obtain ks c' l' sw where k: "rb_most f RIGHT (rb_child (rb_nodes h a) RIGHT) h = Inr sw" "r = plug ks (Node c' l' sw Leaf)" "rctx ks = []"
      using Node.IH(2) [OF p(2) f(2) False] by blast
    moreover have "rb_child (rb_nodes h a) RIGHT \<noteq> NULL" using p(2) False by (cases r) auto
    ultimately show ?thesis
      using p(1) by (intro exI [of _ "ks @ [(RIGHT, c, a, l)]"] exI [of _ c'] exI [of _ l'] exI [of _ sw])
        (simp add: f plug_append ctx_append node_def)
  qed
qed simp

lemma detach_at:
  assumes T: "tree_rep h t" "invc t" "invh t" "tree_leftmost h = first_node (ptrs t)"
    and t: "t = plug ks (Node c l n r)"
    and f: "find_entity TREE_BOUND es se (entity_key es se) (tree_root h) h = Inr n"
  shows "\<exists>f h' t'. rb_detach es se h = Inr (f, h') \<and> f \<in> set (ptrs t) \<and> tree_rep h' t' \<and> invc t' \<and> invh t' \<and> set (ptrs t') = set (ptrs t) - {f}
    \<and> rb_queue h' t' = map (\<lambda>a. rb_se (rb_nodes h a)) (lctx ks @ ptrs l @ ptrs r @ rctx ks)
    \<and> tree_leftmost h' = first_node (ptrs t') \<and> (\<forall>a. a \<notin> set (ptrs t) \<longrightarrow> rb_nodes h' a = rb_nodes h a)"
proof -
  have L: "Node c l n r = node LEFT c l n r" by (simp add: node_def)
  have ch: "rb_child (rb_nodes h n) LEFT = root_ptr l" "rb_child (rb_nodes h n) RIGHT = root_ptr r" "n \<noteq> NULL"
    using tree_node [of h ks LEFT c l n r] T(1) by (simp_all add: L t)
  have R: "rep (rb_nodes h) n (root_ptr l) l" "rep (rb_nodes h) n (root_ptr r) r"
    using T(1) ch by (auto simp: tree_rep_def rep_plug t)
  have nz: "root_ptr l = NULL \<longleftrightarrow> l = Leaf" "root_ptr r = NULL \<longleftrightarrow> r = Leaf"
    using R by (cases l; cases r; auto)+
  show ?thesis
  proof (cases "l = Leaf \<or> r = Leaf")
    case True
    then have "rb_detach es se h = rb_detach_node n h" using f ch nz by (auto simp: rb_detach_def Let_def)
    then show ?thesis using detach_node_spec [of h ks c l n r] T True by (simp add: t)
  next
    case False
    have "length (ptrs l) < TREE_BOUND" using ptrs_bound [OF T(1)] by (simp add: t ptrs_plug)
    from rightmost_rep [OF R(1) this] False
    obtain ks' c' l' sw where sw: "rightmost (root_ptr l) h = Inr sw" "l = plug ks' (Node c' l' sw Leaf)" "rctx ks' = []"
      by (auto simp: rightmost_def)
    define K where "K = ks' @ (LEFT, c, n, r) # ks"
    define h1 where "h1 = set_se n (rb_se (rb_nodes h sw)) h"
    have K: "t = plug K (Node c' l' sw Leaf)" "lctx K = lctx ks @ lctx ks'" "rctx K = n # ptrs r @ rctx ks" "ptrs l = lctx ks' @ ptrs l' @ [sw]"
      by (simp_all add: K_def plug_append ctx_append t sw(2,3) node_def ptrs_plug)
    have D: "distinct (ptrs t)" using T(1) by (simp add: tree_rep_def)
    have "rb_detach es se h = rb_detach_node sw h1" using f ch nz False sw(1) by (simp add: rb_detach_def Let_def h1_def)
    moreover from detach_node_spec [of h1 K c' l' sw Leaf] T
    obtain f h' t' where "rb_detach_node sw h1 = Inr (f, h')" "f \<in> set (ptrs t)" "tree_rep h' t'" "invc t'" "invh t'"
        "set (ptrs t') = set (ptrs t) - {f}"
        "rb_queue h' t' = map (\<lambda>a. rb_se (rb_nodes h1 a)) (lctx K @ ptrs l' @ rctx K)"
        "tree_leftmost h' = first_node (ptrs t')" "\<forall>a. a \<notin> set (ptrs t) \<longrightarrow> rb_nodes h' a = rb_nodes h1 a"
      by (auto simp: K(1) h1_def)
    moreover have "map (\<lambda>a. rb_se (rb_nodes h1 a)) (lctx K @ ptrs l' @ rctx K) = map (\<lambda>a. rb_se (rb_nodes h a)) (lctx ks @ ptrs l @ ptrs r @ rctx ks)"
      using D by (auto simp: t K(2-4) h1_def ptrs_plug)
    moreover have "rb_nodes h1 a = rb_nodes h a" if "a \<notin> set (ptrs t)" for a
    proof -
      have "a \<noteq> n" using that by (auto simp: t ptrs_plug)
      then show ?thesis by (simp add: h1_def)
    qed
    ultimately show ?thesis by (intro exI [of _ f] exI [of _ h'] exI [of _ t']) simp
  qed
qed

lemma rb_detach_spec:
  assumes inv: "rb_inv es h t" and q: "rb_queue h t = xs @ se # ys" "se \<notin> set xs \<union> set ys" "\<forall>y \<in> set ys. entity_key es se < entity_key es y"
  shows "\<exists>f h' t'. rb_detach es se h = Inr (f, h') \<and> f \<in> set (ptrs t) \<and> rb_inv es h' t' \<and> rb_queue h' t' = xs @ ys
    \<and> set (ptrs t') = set (ptrs t) - {f} \<and> (\<forall>a. a \<notin> set (ptrs t) \<longrightarrow> rb_nodes h' a = rb_nodes h a)"
proof -
  let ?s = "\<lambda>a. rb_se (rb_nodes h a)"
  have T: "tree_rep h t" "invc t" "invh t" "tree_leftmost h = first_node (ptrs t)" "sorted (map (entity_key es) (xs @ se # ys))"
    using inv q(1) by (simp_all add: rb_inv_def first_node_def)
  obtain as n bs where p: "ptrs t = as @ n # bs" "map ?s as = xs" "?s n = se" "map ?s bs = ys"
    using q(1) by (auto simp: rb_queue_def map_eq_append_conv map_eq_Cons_conv)
  have f: "find_entity TREE_BOUND es se (entity_key es se) (tree_root h) h = Inr n"
  proof (rule find_entity_rep [of h NULL _ t TREE_BOUND as n bs])
    show "\<forall>a \<in> set as. ?s a \<noteq> se \<and> entity_key es (?s a) \<le> entity_key es se"
      using q(2) T(5) unfolding p(2) [symmetric] by (auto simp: sorted_append)
    show "\<forall>a \<in> set bs. ?s a \<noteq> se \<and> entity_key es se < entity_key es (?s a)"
      using q(2,3) unfolding p(4) [symmetric] by auto
  qed (use T(1) ptrs_bound [OF T(1)] p in \<open>simp_all add: tree_rep_def\<close>)
  obtain ks c l r where t: "t = plug ks (Node c l n r)" using node_context [of n t] p(1) by auto
  have "distinct (as @ n # bs)" using T(1) p(1) by (simp add: tree_rep_def)
  moreover have "(lctx ks @ ptrs l) @ n # (ptrs r @ rctx ks) = as @ n # bs" using p(1) by (simp add: t ptrs_plug)
  ultimately have e: "lctx ks @ ptrs l = as" "ptrs r @ rctx ks = bs"
    using append_Cons_eq_iff [of n as bs "lctx ks @ ptrs l" "ptrs r @ rctx ks"] by auto
  from detach_at [OF T(1-4) t f] obtain f h' t' where d: "rb_detach es se h = Inr (f, h')" "f \<in> set (ptrs t)" "tree_rep h' t'" "invc t'" "invh t'"
      "set (ptrs t') = set (ptrs t) - {f}" "rb_queue h' t' = map ?s (lctx ks @ ptrs l @ ptrs r @ rctx ks)"
      "tree_leftmost h' = first_node (ptrs t')" "\<forall>a. a \<notin> set (ptrs t) \<longrightarrow> rb_nodes h' a = rb_nodes h a" by blast
  have "lctx ks @ ptrs l @ ptrs r @ rctx ks = as @ bs" using e by (metis append_assoc)
  then have Q: "rb_queue h' t' = xs @ ys" using d(7) p(2,4) by simp
  moreover have "sorted (map (entity_key es) (xs @ ys))" using T(5) by (simp add: sorted_append)
  ultimately have "rb_inv es h' t'" using d by (simp add: rb_inv_def first_node_def)
  then show ?thesis using d Q by blast
qed

lemma rb_detach_absent:
  assumes "rb_inv es h t" "se \<notin> set (rb_queue h t)"
  shows "rb_detach es se h = Inr (NULL, h)"
proof -
  have T: "tree_rep h t" using assms(1) by (simp add: rb_inv_def)
  have "find_entity TREE_BOUND es se (entity_key es se) (tree_root h) h = Inr NULL"
    by (rule find_entity_absent [of h NULL _ t]) (use T ptrs_bound [OF T] assms(2) in \<open>auto simp: tree_rep_def rb_queue_def\<close>)
  then show ?thesis by (simp add: rb_detach_def)
qed

text \<open>
  C7: removal from the run queue. On a sorted red-black tree with the cached leftmost node, \<open>rb_remove\<close> changes nothing when the entity is not
  queued. When it is queued once and every entity behind it has a larger virtual runtime, \<open>rb_remove\<close> returns: it frees one node of the
  tree, the remaining nodes are again a sorted red-black tree whose leftmost node is cached, the queue is the old one without the
  entity, and no node outside the tree is written.
\<close>

theorem rb_detach_correct:
  assumes "rb_inv es h t"
  shows "(se \<notin> set (rb_queue h t) \<longrightarrow> rb_detach es se h = Inr (NULL, h))
    \<and> (rb_queue h t = xs @ se # ys \<and> se \<notin> set xs \<union> set ys \<and> (\<forall>y \<in> set ys. entity_key es se < entity_key es y) \<longrightarrow>
      (\<exists>f h' t'. rb_detach es se h = Inr (f, h') \<and> f \<in> set (ptrs t) \<and> rb_inv es h' t' \<and> rb_queue h' t' = xs @ ys
        \<and> set (ptrs t') = set (ptrs t) - {f} \<and> (\<forall>a. a \<notin> set (ptrs t) \<longrightarrow> rb_nodes h' a = rb_nodes h a)))"
  using rb_detach_absent [OF assms] rb_detach_spec [OF assms] by blast

text \<open>A queue of three: the root 2 between the red nodes 1 and 3, for the entities 20, 10 and 30.\<close>

definition three_nodes :: rb_heap where
  "three_nodes = \<lparr>tree_root = 2, tree_leftmost = 1,
     rb_nodes = (\<lambda>a. \<lparr>rb_child = (\<lambda>d. if a = 2 then case d of LEFT \<Rightarrow> 1 | RIGHT \<Rightarrow> 3 else NULL), rb_parent = if a = 2 then NULL else 2,
       rb_color = if a = 2 then BLACK else RED, rb_se = if a = 1 then 10 else if a = 2 then 20 else 30\<rparr>)\<rparr>"

definition three_entities :: entities where
  "three_entities = (\<lambda>a. \<lparr>vruntime = a, exec_start_time = 0\<rparr>)"

lemma three_nodes_inv:
  assumes "entity_key es 10 \<le> entity_key es 20" "entity_key es 20 \<le> entity_key es 30"
  shows "rb_inv es three_nodes (Node BLACK (Node RED Leaf 1 Leaf) 2 (Node RED Leaf 3 Leaf))"
  using assms by (auto simp: rb_inv_def tree_rep_def three_nodes_def rb_queue_def)

theorem rb_detach_correct_witness:
  "\<exists>f h' t'. rb_detach three_entities 20 three_nodes = Inr (f, h') \<and> rb_inv three_entities h' t' \<and> rb_queue h' t' = [10, 30]"
proof -
  let ?t = "Node BLACK (Node RED Leaf 1 Leaf) 2 (Node RED Leaf 3 Leaf)"
  have "rb_inv three_entities three_nodes ?t" by (rule three_nodes_inv) (simp_all add: entity_key_def three_entities_def)
  from rb_detach_correct [OF this, of 20 "[10]" "[30]"] show ?thesis
    by (force simp: rb_queue_def three_nodes_def entity_key_def three_entities_def)
qed

text \<open>
  The bound on the entities behind it is needed: with equal virtual runtimes the search goes to the right at the root and does not find the
  leftmost entity, although it is queued.
\<close>

lemma rb_detach_misses_equal_key:
  "rb_detach (\<lambda>a. \<lparr>vruntime = 0, exec_start_time = 0\<rparr>) 10 three_nodes = Inr (NULL, three_nodes)"
proof -
  have "TREE_BOUND = Suc (Suc (Suc (TREE_BOUND - 3)))" by (simp add: TREE_BOUND_def)
  then have "find_entity TREE_BOUND es se k n h = find_entity (Suc (Suc (Suc (TREE_BOUND - 3)))) es se k n h" for es se k n h by simp
  then show ?thesis by (simp add: rb_detach_def entity_key_def three_nodes_def)
qed

end
