(* ===== verification/Run_Queue.thy ===== *)
theory Run_Queue
  imports Rb_Remove Cfs
begin

text \<open>
  The contract between the fair scheduler (\<open>kernel/scheduler/cfs.c\<close>) and the tree it keeps its entities in (\<open>kernel/scheduler/rb_tree.c\<close>), as
  a locale: what insertion, removal and the choice of the next entity do to the queue. The scheduler's order is proved from the
  contract, and the contract from the tree.
\<close>

section \<open>The contract\<close>

text \<open>\<open>holds h N q\<close>: the structure \<open>h\<close> is in order, uses the nodes \<open>N\<close> and stands for the queue \<open>q\<close>.\<close>

locale run_queue =
  fixes holds :: "'h \<Rightarrow> ptr set \<Rightarrow> ptr list \<Rightarrow> bool" and es :: entities
    and ins :: "ptr \<Rightarrow> ptr \<Rightarrow> 'h \<Rightarrow> 'h res" and rem :: "ptr \<Rightarrow> 'h \<Rightarrow> (ptr \<times> 'h) res" and pick :: "'h \<Rightarrow> ptr"
  assumes holds_sorted: "holds h N q \<Longrightarrow> sorted (map (entity_key es) q)"
    and pick_first: "holds h N q \<Longrightarrow> pick h = (case q of [] \<Rightarrow> NULL | e # _ \<Rightarrow> e)"
    and ins_enqueue: "holds h N q \<Longrightarrow> run \<noteq> NULL \<Longrightarrow> run \<notin> N \<Longrightarrow>
      \<exists>h'. ins e run h = Inr h' \<and> holds h' (insert run N) (enqueue es e q)"
    and rem_dequeue: "holds h N (xs @ e # ys) \<Longrightarrow> e \<notin> set xs \<union> set ys \<Longrightarrow> \<forall>y \<in> set ys. entity_key es e < entity_key es y \<Longrightarrow>
      \<exists>f h'. rem e h = Inr (f, h') \<and> f \<in> N \<and> holds h' (N - {f}) (xs @ ys)"

text \<open>Entities that are queued one after the other, each with the node that is allocated for it.\<close>

primrec queue_all :: "(ptr \<Rightarrow> ptr \<Rightarrow> 'h \<Rightarrow> 'h res) \<Rightarrow> (ptr \<times> ptr) list \<Rightarrow> 'h \<Rightarrow> 'h res" where
  "queue_all ins [] h = Inr h"
| "queue_all ins (p # ps) h = bind_res (ins (fst p) (snd p) h) (queue_all ins ps)"

text \<open>The scheduler's choices when every chosen entity leaves the queue.\<close>

primrec run_all :: "('h \<Rightarrow> ptr) \<Rightarrow> (ptr \<Rightarrow> 'h \<Rightarrow> (ptr \<times> 'h) res) \<Rightarrow> nat \<Rightarrow> 'h \<Rightarrow> (ptr list \<times> 'h) res" where
  "run_all pick rem 0 h = Inr ([], h)"
| "run_all pick rem (Suc n) h =
     bind_res (rem (pick h) h) (\<lambda>(f, h'). bind_res (run_all pick rem n h') (\<lambda>(es, h''). Inr (pick h # es, h'')))"

definition key_sorted :: "entities \<Rightarrow> ptr list \<Rightarrow> bool" where
  "key_sorted es q \<longleftrightarrow> sorted_wrt (\<lambda>x y. entity_key es x < entity_key es y) q"

lemma key_sorted_iff: "key_sorted es q \<longleftrightarrow> sorted (map (entity_key es) q) \<and> distinct (map (entity_key es) q)"
  using strict_sorted_iff [of "map (entity_key es) q"] by (simp add: key_sorted_def sorted_wrt_map)

context run_queue
begin

lemma pick_least: "holds h N q \<Longrightarrow> e \<in> set q \<Longrightarrow> pick h \<in> set q \<and> entity_key es (pick h) \<le> entity_key es e"
  using holds_sorted [of h N q] pick_first [of h N q] by (cases q) auto

lemma queue_all_holds:
  assumes "holds h N q" "distinct (map snd ps)" "NULL \<notin> snd ` set ps" "snd ` set ps \<inter> N = {}"
  shows "\<exists>h' N' q'. queue_all ins ps h = Inr h' \<and> holds h' N' q' \<and> mset q' = mset (map fst ps) + mset q"
  using assms
proof (induction ps arbitrary: h N q)
  case (Cons p ps)
  obtain h1 where h1: "ins (fst p) (snd p) h = Inr h1" "holds h1 (insert (snd p) N) (enqueue es (fst p) q)"
    using ins_enqueue [OF Cons.prems(1), of "snd p" "fst p"] Cons.prems(3,4) by auto
  have "\<exists>h' N' q'. queue_all ins ps h1 = Inr h' \<and> holds h' N' q' \<and> mset q' = mset (map fst ps) + mset (enqueue es (fst p) q)"
    by (rule Cons.IH [OF h1(2)]) (use Cons.prems in \<open>auto simp: image_iff\<close>)
  then show ?case using h1(1) by (auto simp: mset_enqueue)
qed auto

lemma run_all_queue:
  "holds h N q \<Longrightarrow> key_sorted es q \<Longrightarrow> \<exists>h'. run_all pick rem (length q) h = Inr (q, h') \<and> (\<exists>N'. holds h' N' [])"
proof (induction q arbitrary: h N)
  case (Cons e q)
  have k: "\<forall>y \<in> set q. entity_key es e < entity_key es y" "key_sorted es q" using Cons.prems(2) by (simp_all add: key_sorted_def)
  then have "e \<notin> set [] \<union> set q" by auto
  with rem_dequeue [of h N "[]" e q] Cons.prems(1) k(1)
  obtain f h1 where h1: "rem e h = Inr (f, h1)" "holds h1 (N - {f}) q" by auto
  have "pick h = e" using pick_first [OF Cons.prems(1)] by simp
  then show ?case using Cons.IH [OF h1(2) k(2)] h1(1) by auto
qed auto

text \<open>Entities with different virtual runtimes run in the order of these runtimes.\<close>

lemma run_order:
  assumes "holds h N []" "distinct (map snd ps)" "NULL \<notin> snd ` set ps" "snd ` set ps \<inter> N = {}" "distinct (map (entity_key es \<circ> fst) ps)"
  shows "\<exists>h1 h2. queue_all ins ps h = Inr h1 \<and> run_all pick rem (length ps) h1 = Inr (sort_key (entity_key es) (map fst ps), h2)"
proof -
  obtain h1 N1 q where h1: "queue_all ins ps h = Inr h1" "holds h1 N1 q" "mset q = mset (map fst ps)"
    using queue_all_holds [OF assms(1-4)] by auto
  have s: "sorted (map (entity_key es) q)" by (rule holds_sorted [OF h1(2)])
  have d: "distinct (map (entity_key es) (map fst ps))" using assms(5) by simp
  have m: "mset (map (entity_key es) q) = mset (map (entity_key es) (map fst ps))" using h1(3) by (metis mset_map)
  with d have D: "distinct (map (entity_key es) q)" by (metis mset_eq_imp_distinct_iff)
  have "sort_key (entity_key es) (map fst ps) = q"
  proof (rule map_sorted_distinct_set_unique)
    show "distinct (map (entity_key es) (sort_key (entity_key es) (map fst ps)))"
      using d by (metis mset_eq_imp_distinct_iff mset_map mset_sort)
    show e: "set (sort_key (entity_key es) (map fst ps)) = set q" using h1(3) by (metis mset_eq_setD set_sort)
    show "inj_on (entity_key es) (set (sort_key (entity_key es) (map fst ps)) \<union> set q)" using D e by (simp add: distinct_map)
  qed (use s D in simp_all)
  moreover have "length q = length ps" using h1(3) by (metis length_map mset_eq_length)
  moreover have "key_sorted es q" using s D by (simp add: key_sorted_iff)
  ultimately show ?thesis using run_all_queue [OF h1(2)] h1(1) by auto
qed

end

section \<open>The tree fulfils it\<close>

definition tree_holds :: "entities \<Rightarrow> rb_heap \<Rightarrow> ptr set \<Rightarrow> ptr list \<Rightarrow> bool" where
  "tree_holds es h N q \<longleftrightarrow> (\<exists>t. rb_inv es h t \<and> set (ptrs t) = N \<and> rb_queue h t = q)"

lemma pick_next_tree:
  assumes "rb_inv es (cfs_tree s) t"
  shows "cfs_pick_next s = (case rb_queue (cfs_tree s) t of [] \<Rightarrow> NULL | e # _ \<Rightarrow> e)"
proof -
  have "NULL \<notin> set (ptrs t)" using assms rep_nonnull by (auto simp: rb_inv_def tree_rep_def)
  then show ?thesis using assms by (cases "ptrs t") (auto simp: rb_inv_def cfs_pick_next_def rb_queue_def)
qed

interpretation rq: run_queue "tree_holds es" es "rb_insert_node es" "rb_detach es" "\<lambda>h. cfs_pick_next (s\<lparr>cfs_tree := h\<rparr>)"
  for es and s :: "'a sched_state_scheme"
proof unfold_locales
  show "sorted (map (entity_key es) q)" if "tree_holds es h N q" for h N q
    using that by (auto simp: tree_holds_def rb_inv_def)
  show "cfs_pick_next (s\<lparr>cfs_tree := h\<rparr>) = (case q of [] \<Rightarrow> NULL | e # _ \<Rightarrow> e)" if "tree_holds es h N q" for h N q
    using that pick_next_tree [of es "s\<lparr>cfs_tree := h\<rparr>"] by (auto simp: tree_holds_def)
  show "\<exists>h'. rb_insert_node es e run h = Inr h' \<and> tree_holds es h' (insert run N) (enqueue es e q)"
    if "tree_holds es h N q" "run \<noteq> NULL" "run \<notin> N" for h N q run e
  proof -
    from that(1) obtain t where t: "rb_inv es h t" "set (ptrs t) = N" "rb_queue h t = q" by (auto simp: tree_holds_def)
    then show ?thesis using rb_insert_node_spec [OF t(1) that(2), of e] that(3) unfolding tree_holds_def by blast
  qed
  show "\<exists>f h'. rb_detach es e h = Inr (f, h') \<and> f \<in> N \<and> tree_holds es h' (N - {f}) (xs @ ys)"
    if "tree_holds es h N (xs @ e # ys)" "e \<notin> set xs \<union> set ys" "\<forall>y \<in> set ys. entity_key es e < entity_key es y" for h N xs e ys
  proof -
    from that(1) obtain t where t: "rb_inv es h t" "set (ptrs t) = N" "rb_queue h t = xs @ e # ys" by (auto simp: tree_holds_def)
    then show ?thesis using rb_detach_spec [OF t(1,3) that(2,3)] unfolding tree_holds_def by blast
  qed
qed

text \<open>
  C8: the order in which the fair scheduler runs its entities. Entities with different virtual runtimes are inserted into an empty tree in any
  order, each with a node of its own; then \<open>cfs_pick_next\<close> is called and the entity it returns is removed, as often as there are
  entities. No call fails, and the entities come out sorted by virtual runtime, the one that has run least first.
\<close>

theorem cfs_run_order:
  assumes "rb_inv es h Leaf" "distinct (map snd ps)" "NULL \<notin> snd ` set ps" "distinct (map (entity_key es \<circ> fst) ps)"
  shows "\<exists>h1 h2. queue_all (rb_insert_node es) ps h = Inr h1
    \<and> run_all (\<lambda>h. cfs_pick_next (s\<lparr>cfs_tree := h\<rparr>)) (rb_detach es) (length ps) h1 = Inr (sort_key (entity_key es) (map fst ps), h2)"
proof (rule rq.run_order)
  show "tree_holds es h {} []" using assms(1) by (auto simp: tree_holds_def rb_queue_def intro: exI [of _ Leaf])
qed (use assms in auto)

theorem cfs_run_order_witness:
  "\<forall>s :: sched_state. \<exists>h1 h2. queue_all (rb_insert_node three_entities) [(30, 1), (10, 2), (20, 3)] (three_nodes\<lparr>tree_root := NULL, tree_leftmost := NULL\<rparr>) = Inr h1
    \<and> run_all (\<lambda>h. cfs_pick_next (s\<lparr>cfs_tree := h\<rparr>)) (rb_detach three_entities) 3 h1 = Inr ([10, 20, 30], h2)"
proof
  fix s :: sched_state
  let ?h = "three_nodes\<lparr>tree_root := NULL, tree_leftmost := NULL\<rparr>"
  have "rb_inv three_entities ?h Leaf" by (simp add: rb_inv_def tree_rep_def rb_queue_def)
  from cfs_run_order [OF this, of "[(30, 1), (10, 2), (20, 3)]" s]
  show "\<exists>h1 h2. queue_all (rb_insert_node three_entities) [(30, 1), (10, 2), (20, 3)] ?h = Inr h1
    \<and> run_all (\<lambda>h. cfs_pick_next (s\<lparr>cfs_tree := h\<rparr>)) (rb_detach three_entities) 3 h1 = Inr ([10, 20, 30], h2)"
    by (simp add: entity_key_def three_entities_def numeral_3_eq_3 del: queue_all.simps run_all.simps)
qed

end
