(* ===== verification/I386_Port.thy ===== *)
theory I386_Port
  imports Keyboard
begin

text \<open>
  The i386 port (\<open>kernel/arch/i386/interrupt\<close>): the interrupt descriptors, the local and the I/O interrupt controller and the dispatch. Addresses have 32
  bits; the drivers that both ports share are those of the theories before.
\<close>

section \<open>State\<close>

text \<open>A gate of the 32-bit interrupt descriptor table.\<close>

record gate32 =
  gate_addr_low :: u16
  gate_selector :: u16
  gate_reserved :: u8
  gate_flags :: u8
  gate_addr_high :: u16

text \<open>
  \<open>idt32_addr\<close> and the handlers are link-time addresses. The registers of the local controller are MSRs or words in \<open>mmio32\<close>, those of the I/O
  controller are \<open>ioapic_regs\<close>.
\<close>

record i386_state = kbd_state +
  idt32 :: "u8 \<Rightarrow> gate32"
  idt32_addr :: u32
  idtr32 :: "u16 \<times> u32"
  handler32_0 :: u32
  handler32_0xFF :: u32
  lapic32_base_address :: u32
  support32_xapic2 :: bool
  io_apic_base_addr :: u32

section \<open>Interrupt descriptors\<close>

definition i386_set_idt_entry :: "u8 \<Rightarrow> u32 \<Rightarrow> u16 \<Rightarrow> u8 \<Rightarrow> 'a i386_state_scheme \<Rightarrow> 'a i386_state_scheme" where
  "i386_set_idt_entry vector handler_addr selector flags s =
     s\<lparr>idt32 := (idt32 s)(vector := (idt32 s vector)
        \<lparr>gate_addr_low := ucast (handler_addr AND 0xFFFF),
         gate_addr_high := ucast (drop_bit 16 handler_addr AND 0xFFFF),
         gate_flags := flags OR 0x80,
         gate_selector := selector\<rparr>)\<rparr>"

definition i386_load_idt :: "'a i386_state_scheme \<Rightarrow> 'a i386_state_scheme" where
  "i386_load_idt s =
     (let s = fold (\<lambda>i. i386_set_idt_entry (of_nat i) (handler32_0 s + of_nat (i * 16)) GDT_ENTRY_KERNEL_CODE
                (FLAGS_DPL 0 OR FLAGS_GATE_TYPE 0xE)) [0..<32] s
      in s\<lparr>idtr32 := (0x7FF, idt32_addr s)\<rparr>)"

section \<open>The local interrupt controller\<close>

definition PIC_COMMAND_MASTER :: u16 where "PIC_COMMAND_MASTER = 0x20"
definition PIC_DATA_MASTER :: u16 where "PIC_DATA_MASTER = 0x21"
definition PIC_COMMAND_SLAVE :: u16 where "PIC_COMMAND_SLAVE = 0xA0"
definition PIC_DATA_SLAVE :: u16 where "PIC_DATA_SLAVE = 0xA1"
definition ICW_1 :: u8 where "ICW_1 = 0x11"
definition ICW_2_M :: u8 where "ICW_2_M = 0x20"
definition ICW_2_S :: u8 where "ICW_2_S = 0x28"
definition ICW_3_M :: u8 where "ICW_3_M = 0x2"
definition ICW_3_S :: u8 where "ICW_3_S = 0x4"
definition ICW_4_8086 :: u8 where "ICW_4_8086 = 0x01"
definition LAPIC_REGISTER_EOI :: u32 where "LAPIC_REGISTER_EOI = 0xB0"
definition LAPIC_REGISTER_SPURIOUS_VECTOR :: u32 where "LAPIC_REGISTER_SPURIOUS_VECTOR = 0xF0"

lemmas pic_constants = PIC_COMMAND_MASTER_def PIC_DATA_MASTER_def PIC_COMMAND_SLAVE_def PIC_DATA_SLAVE_def
  ICW_1_def ICW_2_M_def ICW_2_S_def ICW_3_M_def ICW_3_S_def ICW_4_8086_def

definition i386_disable_pic :: "'a i386_state_scheme \<Rightarrow> 'a i386_state_scheme" where
  "i386_disable_pic s =
     (let s = iowait (outb PIC_COMMAND_SLAVE ICW_1 (outb PIC_COMMAND_MASTER ICW_1 s));
          s = iowait (outb PIC_DATA_SLAVE ICW_2_S (outb PIC_DATA_MASTER ICW_2_M s));
          s = iowait (outb PIC_DATA_SLAVE ICW_3_S (outb PIC_DATA_MASTER ICW_3_M s));
          s = iowait (outb PIC_DATA_SLAVE ICW_4_8086 (outb PIC_DATA_MASTER ICW_4_8086 s))
      in outb PIC_DATA_SLAVE 0xFF (outb PIC_DATA_MASTER 0xFF s))"

definition i386_check_lapic_availability :: "'a i386_state_scheme \<Rightarrow> bool \<times> 'a i386_state_scheme" where
  "i386_check_lapic_availability s =
     (let (ecx, edx) = cpuid_1 s; has_lapic = (edx AND 0x100 \<noteq> 0)
      in (has_lapic, s\<lparr>support32_xapic2 := (ecx AND push_bit 21 1 \<noteq> 0)\<rparr>))"

definition i386_read_lapic_register :: "u32 \<Rightarrow> 'a i386_state_scheme \<Rightarrow> u32" where
  "i386_read_lapic_register reg s =
     (if support32_xapic2 s then ucast (msr s (0x800 + drop_bit 4 reg))
      else mmio32 s (ucast (lapic32_base_address s + reg)))"

definition i386_write_lapic_register :: "u32 \<Rightarrow> u32 \<Rightarrow> 'a i386_state_scheme \<Rightarrow> 'a i386_state_scheme" where
  "i386_write_lapic_register reg value s =
     (if support32_xapic2 s then wrmsr (0x800 + drop_bit 4 reg) (ucast value) s
      else s\<lparr>mmio32 := (mmio32 s)(ucast (lapic32_base_address s + reg) := value)\<rparr>)"

definition i386_send_eoi :: "'a i386_state_scheme \<Rightarrow> 'a i386_state_scheme" where
  "i386_send_eoi s = i386_write_lapic_register LAPIC_REGISTER_EOI 0 s"

definition i386_enable_lapic :: "'a i386_state_scheme \<Rightarrow> int \<times> 'a i386_state_scheme" where
  "i386_enable_lapic s =
     (let (available, s) = i386_check_lapic_availability s
      in if \<not> available then (1, s)
      else let s = i386_disable_pic s;
               apic_base = msr s IA32_APIC_BASE OR 0x800;
               apic_base = (if support32_xapic2 s then apic_base OR push_bit 10 1 else apic_base);
               s = wrmsr IA32_APIC_BASE apic_base s;
               s = s\<lparr>lapic32_base_address := ucast (apic_base AND 0xFFFFF000)\<rparr>;
               s = i386_write_lapic_register LAPIC_REGISTER_SPURIOUS_VECTOR (0xFF OR 0x100) s
           in (0, i386_set_idt_entry 0xFF (handler32_0xFF s) GDT_ENTRY_KERNEL_CODE (FLAGS_DPL 0 OR FLAGS_GATE_TYPE 0xE) s))"

section \<open>The I/O interrupt controller\<close>

definition i386_read_ioapic_register :: "u8 \<Rightarrow> 'a i386_state_scheme \<Rightarrow> u32 res" where
  "i386_read_ioapic_register reg s = (if io_apic_base_addr s = 0 then Inl NullDeref else Inr (ioapic_regs s reg))"

definition i386_write_ioapic_register :: "u8 \<Rightarrow> u32 \<Rightarrow> 'a i386_state_scheme \<Rightarrow> 'a i386_state_scheme" where
  "i386_write_ioapic_register reg value s =
     (if io_apic_base_addr s = 0 then s else s\<lparr>ioapic_regs := (ioapic_regs s)(reg := value)\<rparr>)"

definition i386_write_ioapic_redirect :: "u8 \<Rightarrow> u64 \<Rightarrow> 'a i386_state_scheme \<Rightarrow> 'a i386_state_scheme" where
  "i386_write_ioapic_redirect index entry s =
     (if index < 0x10 \<or> index > 0x3F then s
      else if index mod 2 \<noteq> 0 then s
      else let low = ucast (entry AND 0xFFFFFFFF); high = ucast (drop_bit 32 entry)
           in i386_write_ioapic_register (index + 1) high (i386_write_ioapic_register index low s))"

definition i386_set_irq :: "u8 \<Rightarrow> u8 \<Rightarrow> u32 \<Rightarrow> bool \<Rightarrow> 'a i386_state_scheme \<Rightarrow> 'a i386_state_scheme" where
  "i386_set_irq irq idt_entry flags masked s =
     (let entry = ucast (flags OR (ucast idt_entry AND 0xFF)) :: u64;
          entry = put_field 16 1 (if masked then 1 else 0) entry
      in i386_write_ioapic_redirect (0x10 + irq * 2) entry s)"

text \<open>
  The entries of the controller table: the first I/O controller is used. Pointers have 32 bits; the loop visits at most \<open>2 ^ 32\<close> entries of
  positive length.
\<close>

primrec i386_madt_loop :: "nat \<Rightarrow> u32 \<Rightarrow> u32 \<Rightarrow> 'a i386_state_scheme \<Rightarrow> 'a i386_state_scheme res" where
  "i386_madt_loop 0 madt header s = Inl Diverges"
| "i386_madt_loop (Suc fuel) madt header s =
     (if \<not> header - madt < sdt_length (kmem s) (ucast madt) then Inr s
      else let s = (if ic_type (kmem s) (ucast header) = IC_TYPE_IO_APIC \<and> io_apic_base_addr s = 0
                    then s\<lparr>io_apic_base_addr := ic_io_apic_address (kmem s) (ucast header)\<rparr> else s)
           in i386_madt_loop fuel madt (header + ucast (ic_length (kmem s) (ucast header))) s)"

definition i386_read_madt :: "'a i386_state_scheme \<Rightarrow> (int \<times> 'a i386_state_scheme) res" where
  "i386_read_madt s =
     (let madt = ucast (find_table (madt_signature s) s)
      in if madt = 0 then Inr (1, s)
         else bind_res (i386_madt_loop MADT_BOUND madt (madt + 44) s) (\<lambda>s. Inr (0, s)))"

section \<open>Dispatch\<close>

record registers_t =
  edi :: u32
  esi :: u32
  ebp :: u32
  esp :: u32
  ebx :: u32
  edx :: u32
  ecpx :: u32
  eax :: u32

record interrupt_frame =
  frame32_registers :: registers_t
  vector32_number :: u32
  error32_code :: u32

definition I386_IRQ_VECTOR_KEYBOARD :: u32 where "I386_IRQ_VECTOR_KEYBOARD = 0x21"

definition i386_interrupt_dispatch :: "interrupt_frame \<Rightarrow> 'a i386_state_scheme \<Rightarrow> (interrupt_frame \<times> 'a i386_state_scheme) res" where
  "i386_interrupt_dispatch c0 s =
     bind_res (if vector32_number c0 = I386_IRQ_VECTOR_KEYBOARD then keystroke_handler s else Inr s) (\<lambda>s.
     Inr (c0, i386_send_eoi s))"

section \<open>The two ports compared\<close>

text \<open>The legacy controllers are programmed in the same way.\<close>

lemma i386_disable_pic_eq: "i386_disable_pic s = disable_pic s"
  by (simp add: i386_disable_pic_def disable_pic_def pic_constants Let_def)

text \<open>The table: the address the processor assembles from a gate, and the gates that \<open>load_idt\<close> installs.\<close>

definition gate32_address :: "gate32 \<Rightarrow> u32" where
  "gate32_address g = ucast (gate_addr_low g) OR push_bit 16 (ucast (gate_addr_high g))"

lemma gate32_address_set: "gate32_address (idt32 (i386_set_idt_entry v a sel f s) v) = a"
proof -
  have m: "(ucast (x AND 0xFFFF) :: u16) = ucast x" for x :: u32
  proof -
    have "x AND 0xFFFF = take_bit 16 x" by (simp add: take_bit_eq_mask mask_eq_exp_minus_1)
    then show ?thesis by (simp only:) (rule bit_word_eqI, auto simp: bit_simps)
  qed
  show ?thesis
    unfolding i386_set_idt_entry_def m by (rule bit_word_eqI) (auto simp: gate32_address_def bit_simps not_less)
qed

lemma i386_load_idt_entries:
  fixes base :: u32
  assumes "n \<le> 256"
  shows "idt32 (fold (\<lambda>i. i386_set_idt_entry (of_nat i) (base + of_nat (i * 16)) sel f) [0..<n] s) w =
    (if unat w < n then idt32 (i386_set_idt_entry w (base + of_nat (unat w * 16)) sel f s) w else idt32 s w)"
  using assms
proof (induction n)
  case (Suc n)
  have u: "unat (of_nat n :: u8) = n" using Suc.prems by (simp add: unsigned_of_nat take_bit_nat_eq_self)
  then have "w = of_nat n \<longleftrightarrow> unat w = n" by (auto simp: word_unat_eq_iff)
  with Suc u show ?case by (auto simp: i386_set_idt_entry_def)
qed simp

lemma i386_load_idt_correct:
  "gate32_address (idt32 (i386_load_idt s) v) = (if v < 32 then handler32_0 s + 16 * ucast v else gate32_address (idt32 s v))"
  "fst (idtr32 (i386_load_idt s)) + 1 = 8 * 256"
  using i386_load_idt_entries [of 32 "handler32_0 s" GDT_ENTRY_KERNEL_CODE "FLAGS_DPL 0 OR FLAGS_GATE_TYPE 0xE" s v]
  by (simp_all add: i386_load_idt_def Let_def word_less_nat_alt mult.commute gate32_address_set)

lemma i386_write_ioapic_redirect_eq:
  assumes "io_apic_base_addr s \<noteq> 0" "io_apic_reg_sel s \<noteq> NULL"
  shows "i386_write_ioapic_redirect i e s = write_ioapic_redirect i e s"
  using assms by (simp add: i386_write_ioapic_redirect_def write_ioapic_redirect_def i386_write_ioapic_register_def write_ioapic_register_def)

lemma vector_entry:
  fixes v :: u8
  shows "put_field 56 8 0 (put_field 11 1 0 (ucast v)) = (ucast v :: u64)" "(ucast (ucast v AND 0xFF :: u32) :: u64) = ucast v"
proof -
  have b: "bit v n \<Longrightarrow> n < 8" for n using bit_imp_le_length [of v n] by simp
  show "put_field 56 8 0 (put_field 11 1 0 (ucast v)) = (ucast v :: u64)"
    by (rule bit_word_eqI) (use b in \<open>force simp: bit_put_field bit_simps\<close>)
  have m: "x AND 0xFF = take_bit 8 x" for x :: u32 by (simp add: take_bit_eq_mask mask_eq_exp_minus_1)
  show "(ucast (ucast v AND 0xFF :: u32) :: u64) = ucast v"
    unfolding m by (rule bit_word_eqI) (use b in \<open>fastforce simp: bit_simps\<close>)
qed

text \<open>
  C33: the two ports route an interrupt line in the same way. On a mapped controller, and for a line whose redirection entry has no vector, the i386
  \<open>set_irq\<close> without flags changes the state exactly as the x86-64 one does for the destination CPU 0 in physical mode. For a line that is in use they differ: x86-64 refuses it, i386 replaces the
  entry of the line, with the new vector and mask.
\<close>

theorem i386_set_irq_agrees:
  fixes s :: "'a i386_state_scheme"
  assumes "io_apic_base_addr s \<noteq> 0" "io_apic_reg_sel s \<noteq> NULL" "irq < 24"
  shows "(get_field 0 8 (redirect_entry irq s) = 0 \<longrightarrow> set_irq irq v 0 0 masked s = Inr (0, i386_set_irq irq v 0 masked s))
    \<and> (get_field 0 8 (redirect_entry irq s) \<noteq> 0 \<longrightarrow> set_irq irq v 0 0 masked s = Inr (- 1, s)
        \<and> (\<forall>i < 24. redirect_entry i (i386_set_irq irq v 0 masked s) =
            (if i = irq then put_field 16 1 (if masked then 1 else 0) (ucast v) else redirect_entry i s)))"
proof -
  define low where "low = ioapic_regs s (0x10 + irq * 2)"
  have g: "get_field 0 8 (redirect_entry irq s) = get_field 0 8 (ucast low :: u64)"
    by (rule bit_word_eqI) (auto simp: redirect_entry_def get_field_def low_def bit_simps)
  have r: "read_ioapic_register (0x10 + irq * 2) s = Inr low" using assms(2) by (simp add: read_ioapic_register_def low_def)
  have i: "i386_set_irq irq v 0 masked s = write_ioapic_redirect (0x10 + irq * 2) (put_field 16 1 (if masked then 1 else 0) (ucast v)) s"
    using i386_write_ioapic_redirect_eq [OF assms(1,2)] by (simp add: i386_set_irq_def vector_entry)
  have "set_irq irq v 0 0 masked s = (if get_field 0 8 (redirect_entry irq s) \<noteq> 0 then Inr (- 1, s) else Inr (0, i386_set_irq irq v 0 masked s))"
    using r g vector_entry(1) [of v] by (simp add: set_irq_def i)
  moreover have "\<forall>j < 24. redirect_entry j (i386_set_irq irq v 0 masked s) =
      (if j = irq then put_field 16 1 (if masked then 1 else 0) (ucast v) else redirect_entry j s)"
    unfolding i using redirect_entry_write [OF assms(3) _ assms(2)] by blast
  ultimately show ?thesis by presburger
qed

theorem i386_set_irq_agrees_witness:
  "\<forall>s :: i386_state. set_irq 1 0x21 0 0 False (s\<lparr>io_apic_base_addr := 0xFEC00000, io_apic_reg_sel := 0x1000, ioapic_regs := (\<lambda>_. 0)\<rparr>)
    = Inr (0, i386_set_irq 1 0x21 0 False (s\<lparr>io_apic_base_addr := 0xFEC00000, io_apic_reg_sel := 0x1000, ioapic_regs := (\<lambda>_. 0)\<rparr>))"
proof
  fix s :: i386_state
  let ?s = "s\<lparr>io_apic_base_addr := 0xFEC00000, io_apic_reg_sel := 0x1000, ioapic_regs := (\<lambda>_. 0)\<rparr>"
  have "get_field 0 8 (redirect_entry 1 ?s) = 0" by (simp add: redirect_entry_def get_field_def)
  with i386_set_irq_agrees [of ?s 1 "0x21" False]
  show "set_irq 1 0x21 0 0 False ?s = Inr (0, i386_set_irq 1 0x21 0 False ?s)" by (simp del: fun_upd_apply)
qed

end
