(* ===== verification/Spec2Isabelle.thy ===== *)
theory Spec2Isabelle
  imports Page_Fault Memory_Init Run_Queue I386_Port
begin

text \<open>
  \<^bold>\<open>A verification of the Colibri kernel.\<close>

  Colibri is a small x86-64 kernel in C. It boots through multiboot2, manages physical pages, page tables, address spaces and a kernel
  heap, starts processes from ELF images, schedules threads fairly by virtual runtime, and drives the local APIC, the I/O APIC, the HPET,
  the keyboard, the serial port and a terminal in the frame buffer. This development translates the C code of the x86-64 kernel, of its C library and of the interrupt code of the i386 port into functions of HOL and
  proves what these functions compute.

  \<^bold>\<open>How C is modelled.\<close> Integers keep their width: \<open>u8\<close>, \<open>u16\<close>, \<open>u32\<close> and \<open>u64\<close> are words, their arithmetic wraps. A pointer is a
  \<open>u64\<close>. Objects of a struct type are a total map from addresses to records; where the code reads or writes raw bytes (heap headers, ELF
  images, ACPI tables, names, the terminal) there is a byte memory \<open>kmem\<close>. An operation takes the state and returns
  \<open>kerror + result\<close>: \<open>NullDeref\<close> is an access through a null pointer, \<open>Panic msg\<close> a call of \<open>panic\<close>, \<open>Undefined\<close> a behaviour C leaves open,
  \<open>Diverges\<close> a loop that used up its fuel. The fuel of a loop over a chain of nodes is \<open>2 ^ 64\<close> (\<open>CHAIN_BOUND\<close>, \<open>TREE_BOUND\<close>, \<open>TAG_BOUND\<close>),
  the number of addresses: a loop that visits no node twice never uses it up. The state is one extensible record that each component extends,
  so an operation of a lower component applies to the state of every higher one.

  \<^bold>\<open>Components\<close> (file under \<open>src/\<close>, theory, state and operations, what is shown):

  \<^item> \<open>kernel/include/kernel/arch/x86-64/memory_layout.h\<close>, \<open>Memory_Layout\<close>: page rounding, the index macros and the entry unions. The
    recursive-mapping address of a path of indices is inverse to the index macros.
  \<^item> \<open>libc/string\<close>, \<open>Libc_String\<close>, and \<open>Byte_Memory\<close> for words in byte memory: \<open>memmove\<close> copies overlapping ranges, \<open>memcmp\<close> and
    \<open>strncpy\<close> agree with their specifications on byte lists.
  \<^item> \<open>libc/math\<close>, \<open>Libc_Math\<close>: \<open>itoa\<close> writes a text that reads back as the number and stays in the 13-byte buffer of \<open>printf\<close>.
  \<^item> \<open>libc/stdio/printf.c\<close>, \<open>Libc_Printf\<close>: the format interpreter; it prints the concatenation of the rendered pieces.
  \<^item> \<open>libc/elf.c\<close>, \<open>libc/include/elf.h\<close>, \<open>Libc_Elf\<close>: header layouts, section and segment access, the symbol hash.
  \<^item> \<open>kernel/kernel.c\<close> (\<open>push_off\<close>, \<open>pop_off\<close>) and \<open>kernel/synchronization/spinlock.c\<close>, \<open>Spinlock\<close>: the sequential operations, and a step
    relation for several CPUs whose steps are the instructions of \<open>acquire\<close> and \<open>release\<close>; mutual exclusion and progress by rule induction.
  \<^item> \<open>kernel/list.c\<close>, \<open>Kernel_List\<close>: circular lists and the sequence they stand for.
  \<^item> \<open>kernel/arch/x86-64/memory/physical_allocator.c\<close>, \<open>Phys_Allocator\<close>: bitmap and free list; allocation and release refine a stack of page
    numbers.
  \<^item> \<open>kernel/arch/x86-64/memory/vm.c\<close>, \<open>Paging\<close> (model), \<open>Page_Tree\<close> (the tree invariant and the translation function), \<open>Page_Mapping\<close>:
    \<open>mappages\<close> maps the whole range or leaves every translation as it was, and fails only when a page of the range is mapped or no
    physical page is left; \<open>unmappages\<close> removes exactly the range. \<open>Kvm_Init\<close> has \<open>kvminit\<close>, the choice of the RAM area and the direct
    mapping of physical memory; \<open>Memory_Init\<close> shows that it establishes the invariants that the other theories start from.
  \<^item> \<open>kernel/memory/vmm.c\<close>, \<open>Vmm\<close> and \<open>Vmm_Lifecycle\<close> (models), \<open>Vmm_Areas\<close>: address spaces, their areas and containers. The areas stay
    sorted and disjoint, an address is found in the area that contains it, an allocation appends a fresh area.
  \<^item> \<open>kernel/memory/heap.c\<close>, \<open>Kernel_Heap\<close>: the block list with headers in byte memory.
  \<^item> \<open>kernel/scheduler/rb_tree.c\<close>, \<open>Rb_Tree\<close> (the pointer program), \<open>Rb_Shape\<close> (trees in memory, contexts, rotation), \<open>Rb_Insert\<close> and
    \<open>Rb_Remove\<close>: insertion and removal keep the red-black invariants and refine insertion into and removal from a sorted queue. Removal needs
    that no entity behind the removed one has the same key; an example shows that it misses an entity otherwise.
  \<^item> \<open>kernel/scheduler/cfs.c\<close>, \<open>Cfs\<close>: the run queue. \<open>Run_Queue\<close> states what the scheduler expects of its queue as a locale, interprets it
    on the tree and shows that the entities run in the order of their virtual runtimes.
  \<^item> \<open>kernel/arch/x86-64/interrupt/interrupt.c\<close> and \<open>tss.c\<close>, \<open>Interrupts\<close>: descriptors hold the addresses split over their fields.
  \<^item> \<open>interrupt/apic.c\<close> and \<open>timer/apic_timer.c\<close>, \<open>Local_Apic\<close>: register access and the timer.
  \<^item> \<open>kernel/process.c\<close> and \<open>kernel/scheduler/scheduler.c\<close>, \<open>Thread_Array\<close> and \<open>Process\<close>: the growing array refines a list; process creation,
    destruction and the scheduling decision.
  \<^item> \<open>kernel/acpi.c\<close>, \<open>Acpi\<close>: checksums and table lookup; \<open>interrupt/ioapic.c\<close>, \<open>Io_Apic\<close>: the redirection table and the enumeration of
    CPUs; \<open>kernel/multiboot.c\<close>, \<open>Multiboot\<close>: the tag walk; \<open>kernel/tty.c\<close>, \<open>Tty\<close>: the terminal.
  \<^item> \<open>timer/hpet.c\<close> and \<open>timer/timer.c\<close>, \<open>Hpet\<close>: the main counter is a sequence \<open>hpet_clock\<close> of the values that successive polls see; the
    polling loops are partial functions, and a delay is shown to return.
  \<^item> \<open>kernel/serial.c\<close>, \<open>debug/qemu.c\<close> and \<open>kernel/log.c\<close>, \<open>Kernel_Log\<close>: port reads are a sequence \<open>port_input\<close>; the messages that fit into the local buffers
    are printed with their prefix.
  \<^item> \<open>kernel/driver/keyboard\<close>, \<open>Keyboard\<close>: scan codes type the characters of the pressed keys; the key table is compared with the US layout, the
    scan codes with the key codes.
  \<^item> \<open>interrupt/interrupt_handler.c\<close>, \<open>core_startup.c\<close> and \<open>main\<close>, \<open>Boot\<close>: the dispatch on the vector and the start of the CPUs, composed of
    the operations above. \<open>Page_Fault\<close> follows a page fault from the interrupt to the page table: it maps the missing page or panics.

  \<^item> \<open>arch/i386/interrupt\<close>, \<open>I386_Port\<close>: descriptors, interrupt controllers and dispatch of the unfinished 32-bit port, compared with the x86-64
    code.

  \<^bold>\<open>Not modelled.\<close> Assembly (boot code, interrupt stubs), the font data, constants that no code uses, and \<open>pre_main\<close> of the i386 port, which calls
  \<open>load_multiboot_info\<close> with too few arguments and does not compile.
  Log messages are left out of the operations that print them: they change no state that the operations read. Device registers
  behave as storage. Arithmetic in \<open>double\<close> (time slices, timer periods) is the integer quotient, which it equals below \<open>2 ^ 53\<close>.
\<close>

end
